(* ===== verification/Prelude.thy ===== *)
theory Prelude
  imports "HOL-Library.Word" "HOL-Library.Monad_Syntax"
begin

unbundle bit_operations_syntax

text \<open>
  Shared material of the development: type synonyms for the machine integers the C++ sources
  use, the theorem collections the component proofs draw on, and the generic lemmas about
  words, bits and lists that more than one component needs.
\<close>

type_synonym u8 = "8 word"
type_synonym u32 = "32 word"
type_synonym u64 = "64 word"

section \<open>Theorem collections\<close>

named_theorems trunc_simps \<open>arithmetic under a truncation to the low bits\<close>
named_theorems bit_word_simps \<open>single bits of the word operations\<close>
named_theorems sem_simps \<open>evaluation of the semantic-action monad\<close>

section \<open>Failing assertions\<close>

text \<open>A C++ \<open>assert\<close> that fails ends the program: the model's computations return \<open>None\<close> there.\<close>

definition assert_opt :: "bool \<Rightarrow> unit option" where
  "assert_opt b = (if b then Some () else None)"

lemma assert_opt_simps [simp]:
  "assert_opt True = Some ()" "assert_opt False = None"
  "assert_opt b = Some u \<longleftrightarrow> b" "assert_opt b = None \<longleftrightarrow> \<not> b"
  by (simp_all add: assert_opt_def)

lemma assert_opt_bind [simp]:
  "b \<Longrightarrow> Option.bind (assert_opt b) f = f ()"
  "\<not> b \<Longrightarrow> Option.bind (assert_opt b) f = None"
  by (simp_all add: assert_opt_def)

section \<open>Words and truncation\<close>

lemmas trunc_word_eqs [trunc_simps] =
  mask_eqs(1-11) [folded take_bit_eq_mask]

lemma trunc_trunc [trunc_simps]:
  "take_bit n (take_bit n x) = take_bit n (x :: 'a::len word)"
  by simp

lemma trunc_not_trunc [trunc_simps]:
  "take_bit n (NOT (take_bit n x)) = take_bit n (NOT (x :: 'a::len word))"
  by (rule take_bit_not_take_bit)

lemma unat_take_bit_word: "unat (take_bit n (x :: 'a::len word)) = unat x mod 2 ^ n"
  by (simp only: unsigned_take_bit_eq) (simp add: take_bit_eq_mod)

lemma unat_trunc_less: "unat (take_bit n (x :: 'a::len word)) < 2 ^ n"
  by (simp add: unat_take_bit_word)

lemma unat_bit_word: "bit (unat (x :: 'a::len word)) i = bit x i"
  by (simp add: bit_unsigned_iff)

lemma trunc_id_iff: "n < LENGTH('a) \<Longrightarrow> take_bit n x = x \<longleftrightarrow> unat (x :: 'a::len word) < 2 ^ n"
  by (metis mod_less unat_take_bit_word unat_trunc_less word_unat_eq_iff)

lemma trunc_eq_if_less: "unat (x :: 'a::len word) < 2 ^ n \<Longrightarrow> take_bit n x = x"
  by (metis mod_less unat_take_bit_word word_unat_eq_iff)

lemma unat_less_length_power: "unat (x :: 'a::len word) < 2 ^ LENGTH('a)"
  by (rule unsigned_less)

lemma unat_of_nat_less: "n < 2 ^ LENGTH('a) \<Longrightarrow> unat (of_nat n :: 'a::len word) = n"
  by (simp add: unat_of_nat take_bit_nat_eq_self)

lemma unat_plus_one: "x \<noteq> -1 \<Longrightarrow> unat (x + 1) = Suc (unat (x :: 'a::len word))"
  by (metis add.commute add.right_inverse minus_equation_iff neg_eq_iff_add_eq_0 unatSuc)

lemma less_max_word_iff: "(x :: 'a::len word) < -1 \<longleftrightarrow> x \<noteq> -1"
  by (metis order.strict_iff_order word_order.extremum)

lemma word_succ_iffs:
  assumes "l < (u :: 'a::len word)"
  shows "l + 1 \<le> a \<longleftrightarrow> l < a" "a < l + 1 \<longleftrightarrow> a \<le> l" "l + 1 \<noteq> 0"
proof -
  have l: "l \<noteq> -1" using assms by (auto simp: not_less [symmetric])
  then show "l + 1 \<le> a \<longleftrightarrow> l < a" by (simp add: inc_less_eq_iff)
  then show "a < l + 1 \<longleftrightarrow> a \<le> l" by (meson not_le)
  show "l + 1 \<noteq> 0" using l by (metis add_eq_0_iff minus_equation_iff)
qed

lemma word_pred_iffs:
  assumes "l < (u :: 'a::len word)"
  shows "a \<le> u - 1 \<longleftrightarrow> a < u" "u - 1 < a \<longleftrightarrow> u \<le> a" "u - 1 < u"
proof -
  have u: "u \<noteq> 0" using assms by auto
  then show "a \<le> u - 1 \<longleftrightarrow> a < u" by (simp add: less_eq_dec_iff)
  then show "u - 1 < a \<longleftrightarrow> u \<le> a" by (meson not_le)
  show "u - 1 < u" using u by (metis less_eq_dec_triv_imp not_less)
qed

lemma unat_two_power: "n < LENGTH('a) \<Longrightarrow> unat (2 ^ n :: 'a::len word) = 2 ^ n"
  using unat_of_nat_less [of "2 ^ n", where 'a = 'a] by simp

lemma bit_top_nat: "x < 2 ^ Suc m \<Longrightarrow> bit x m \<longleftrightarrow> 2 ^ m \<le> (x :: nat)"
proof (cases "2 ^ m \<le> x")
  case True
  assume "x < 2 ^ Suc m"
  then have "x div 2 ^ m < 2" by (simp add: less_mult_imp_div_less)
  moreover have "x div 2 ^ m \<noteq> 0" using True by (simp add: div_eq_0_iff)
  ultimately have "x div 2 ^ m = 1" by linarith
  with True show ?thesis by (simp add: bit_iff_odd)
qed (simp add: bit_iff_odd)

lemma bit_top_word:
  "unat (x :: 'a::len word) < 2 ^ Suc m \<Longrightarrow> bit x m \<longleftrightarrow> 2 ^ m \<le> unat x"
  by (metis bit_top_nat unat_bit_word)

end
