(* ===== verification/IntegerOps.thy ===== *)
theory IntegerOps
  imports Prelude
begin

unbundle bit_operations_syntax

text \<open>
  The bit-manipulation helpers of \<^verbatim>\<open>src/frontend/SageIII/sageInterface/integerOps.h\<close>. The template
  parameter \<open>T\<close> is an unsigned integer type, here a word type \<open>'a word\<close>; the other template
  parameters and the shift counts are natural numbers. Each helper is then characterised bit by
  bit, and by the word operation it is meant to implement.
\<close>

section \<open>Definitions\<close>

definition shl1 :: "nat \<Rightarrow> 'a::len word" where
  "shl1 n = (if LENGTH('a) \<le> n then 0 else push_bit n 1)"

definition genMask :: "nat \<Rightarrow> 'a::len word" where
  "genMask n = shl1 n - 1"

definition signBit :: "nat \<Rightarrow> 'a::len word \<Rightarrow> bool" where
  "signBit nBits value =
     (nBits \<noteq> 0 \<and> value AND shl1 (nBits - 1) \<noteq> 0)"
  \<comment> \<open>for \<open>NBits = 0\<close> the index \<open>NBits - 1\<close> wraps to the largest \<open>size_t\<close>, where \<open>SHL1\<close> is 0\<close>

definition signExtend :: "nat \<Rightarrow> nat \<Rightarrow> 'a::len word \<Rightarrow> 'a word" where
  "signExtend fromBits toBits value =
     value OR (if signBit fromBits value then genMask toBits XOR genMask fromBits else 0)"

definition shiftLeft :: "nat \<Rightarrow> 'a::len word \<Rightarrow> nat \<Rightarrow> 'a word" where
  "shiftLeft nBits value count = (value * shl1 count) AND genMask nBits"

definition shiftRightLogical :: "nat \<Rightarrow> 'a::len word \<Rightarrow> nat \<Rightarrow> 'a word" where
  "shiftRightLogical nBits value count = (if nBits \<le> count then 0 else drop_bit count value)"

definition shiftRightArithmetic :: "nat \<Rightarrow> 'a::len word \<Rightarrow> nat \<Rightarrow> 'a word" where
  "shiftRightArithmetic nBits value count =
     (if nBits \<le> count then (if signBit nBits value then genMask nBits else 0)
      else shiftRightLogical nBits value count OR
           (if signBit nBits value then genMask nBits XOR genMask (nBits - count) else 0))"

text \<open>
  Rotation by a multiple of \<open>nBits\<close> leaves the value as it is. In C++ the second shift is then by \<open>nBits\<close>, which is undefined
  if \<open>nBits\<close> is the width of the type; callers rotate narrower values.
\<close>

definition rotateLeft :: "nat \<Rightarrow> 'a::len word \<Rightarrow> nat \<Rightarrow> 'a word" where
  "rotateLeft nBits value count =
     (let count = count mod nBits
      in (push_bit count value OR drop_bit (nBits - count) value) AND genMask nBits)"

definition rotateRight :: "nat \<Rightarrow> 'a::len word \<Rightarrow> nat \<Rightarrow> 'a word" where
  "rotateRight nBits value count =
     (let count = count mod nBits
      in (drop_bit count value OR push_bit (nBits - count) value) AND genMask nBits)"

text \<open>The loop of \<open>log2\<close>: \<open>n\<close> is doubled until it reaches \<open>a\<close> or is shifted out of the type.\<close>

function log2_loop :: "'a::len word \<Rightarrow> 'a word \<Rightarrow> 'a word \<Rightarrow> 'a word" where
  "log2_loop a n i =
     (if n \<noteq> 0 \<and> n < a then log2_loop a (push_bit 1 n) (i + 1) else i)"
  by pat_completeness auto
termination
proof (relation "measure (\<lambda>(a, n, i). LEAST k. push_bit k n = 0)")
  show "wf (measure (\<lambda>(a, n, i). LEAST k. push_bit k (n :: 'a word) = 0))" by simp
next
  fix a n i :: "'a word"
  assume "n \<noteq> 0 \<and> n < a"
  let ?m = "LEAST k. push_bit k n = 0"
  have zero: "push_bit ?m n = 0"
    by (rule LeastI [of _ "LENGTH('a)"]) (simp add: bit_eq_iff bit_push_bit_iff bit_imp_le_length)
  then have "?m \<noteq> 0" using \<open>n \<noteq> 0 \<and> n < a\<close> by (metis push_bit_of_0 push_bit_0_id id_apply)
  then have "push_bit (?m - 1) (push_bit 1 n) = 0"
    using zero by (simp only: push_bit_push_bit) simp
  then have "(LEAST k. push_bit k (push_bit 1 n) = 0) \<le> ?m - 1" by (rule Least_le)
  with \<open>?m \<noteq> 0\<close> show "((a, push_bit 1 n, i + 1), (a, n, i))
      \<in> measure (\<lambda>(a, n, i). LEAST k. push_bit k n = 0)"
    by simp
qed

declare log2_loop.simps [simp del]

definition log2 :: "'a::len word \<Rightarrow> 'a word" where
  "log2 a = log2_loop a 1 0"

section \<open>Masks and sign bits\<close>

lemma shl1_eq: "shl1 n = (push_bit n 1 :: 'a::len word)"
  by (rule bit_word_eqI) (auto simp: shl1_def bit_simps)

lemma bit_shl1 [bit_word_simps]: "bit (shl1 n :: 'a::len word) i \<longleftrightarrow> i = n \<and> n < LENGTH('a)"
  by (auto simp: shl1_eq bit_simps)

lemma genMask_eq_mask: "genMask n = (mask n :: 'a::len word)"
  by (simp add: genMask_def shl1_eq mask_eq_exp_minus_1 push_bit_eq_mult)

lemma and_genMask: "x AND genMask n = take_bit n (x :: 'a::len word)"
  by (simp add: genMask_eq_mask take_bit_eq_mask)

lemma bit_genMask [bit_word_simps]: "bit (genMask n :: 'a::len word) i \<longleftrightarrow> i < n \<and> i < LENGTH('a)"
  by (auto simp: genMask_eq_mask bit_mask_iff)

lemma signBit_iff_bit: "signBit n (x :: 'a::len word) \<longleftrightarrow> 0 < n \<and> bit x (n - 1)"
proof -
  have "x AND shl1 k \<noteq> 0 \<longleftrightarrow> bit x k" for k
    by (metis and_exp_eq_0_iff_not_bit push_bit_of_1 shl1_eq)
  then show ?thesis by (simp add: signBit_def)
qed

section \<open>Extension, shifts and rotations, bit by bit\<close>

lemma bit_signExtend [bit_word_simps]:
  "bit (signExtend m n x) i \<longleftrightarrow>
     bit (x :: 'a::len word) i \<or> (0 < m \<and> bit x (m - 1) \<and> (i < n) \<noteq> (i < m) \<and> i < LENGTH('a))"
  by (auto simp: signExtend_def signBit_iff_bit bit_simps bit_word_simps)

lemma bit_shiftLeft [bit_word_simps]:
  "bit (shiftLeft n x c) i \<longleftrightarrow> i < n \<and> i < LENGTH('a) \<and> c \<le> i \<and> bit (x :: 'a::len word) (i - c)"
  by (auto simp: shiftLeft_def and_genMask shl1_eq push_bit_eq_mult [of _ 1]
      bit_take_bit_iff push_bit_eq_mult [symmetric] bit_push_bit_iff)

lemma bit_shiftRightLogical [bit_word_simps]:
  "bit (shiftRightLogical n x c) i \<longleftrightarrow> c < n \<and> bit (x :: 'a::len word) (i + c)"
  by (auto simp: shiftRightLogical_def bit_drop_bit_eq add.commute)

lemma shiftRightArithmetic_sign_bits:
  assumes "0 < n" "n \<le> LENGTH('a)" "i < n"
  shows "bit (shiftRightArithmetic n (take_bit n x) c) i \<longleftrightarrow> bit (x :: 'a::len word) (min (i + c) (n - 1))"
  using assms
  by (auto simp: shiftRightArithmetic_def signBit_iff_bit bit_simps bit_word_simps min_def
      not_less not_le le_Suc_eq less_diff_conv)

lemma bit_rotateLeft:
  assumes "0 < n" "n \<le> LENGTH('a)" "i < n"
  shows "bit (rotateLeft n (take_bit n x) c) i \<longleftrightarrow> bit (x :: 'a::len word) ((i + (n - c mod n)) mod n)"
proof -
  define k where "k = c mod n"
  have k: "k < n" using assms by (simp add: k_def)
  have "(i + (n - k)) mod n = (if k \<le> i then i - k else i + (n - k))"
    using k assms(3) by (auto simp: mod_if)
  then show ?thesis using k assms
    by (auto simp: rotateLeft_def Let_def and_genMask k_def [symmetric] bit_simps add.commute)
qed

lemma bit_rotateRight:
  assumes "0 < n" "n \<le> LENGTH('a)" "i < n"
  shows "bit (rotateRight n (take_bit n x) c) i \<longleftrightarrow> bit (x :: 'a::len word) ((i + c) mod n)"
proof -
  define k where "k = c mod n"
  have k: "k < n" using assms by (simp add: k_def)
  have "(i + c) mod n = (i + k) mod n" by (simp add: k_def mod_simps)
  also have "\<dots> = (if i + k < n then i + k else i + k - n)"
    using k assms(3) by (auto simp: mod_if)
  finally show ?thesis using k assms
    by (auto simp: rotateRight_def Let_def and_genMask k_def [symmetric] bit_simps add.commute)
qed

lemma rotate_inverse:
  assumes "0 < n" "n \<le> LENGTH('a)"
  shows "rotateRight n (rotateLeft n (take_bit n x) c) c = take_bit n (x :: 'a::len word)"
proof (rule bit_word_eqI)
  fix i assume "i < LENGTH('a)"
  have trunc: "rotateLeft n y c = take_bit n (rotateLeft n y c)" for y :: "'a word"
    by (simp add: rotateLeft_def Let_def and_genMask)
  show "bit (rotateRight n (rotateLeft n (take_bit n x) c) c) i \<longleftrightarrow> bit (take_bit n x) i"
  proof (cases "i < n")
    case True
    have lt: "(i + c) mod n < n" using assms by simp
    have "((i + c) mod n + (n - c mod n)) mod n = (i + (c mod n + (n - c mod n))) mod n"
      by (metis (no_types, lifting) add.assoc mod_add_left_eq mod_add_right_eq)
    also have "\<dots> = i" using True assms by simp
    finally have "((i + c) mod n + (n - c mod n)) mod n = i" .
    then show ?thesis using True assms lt
      by (subst trunc) (simp add: bit_rotateRight bit_rotateLeft bit_take_bit_iff)
  next
    case False
    then show ?thesis by (simp only: rotateRight_def Let_def and_genMask bit_take_bit_iff) simp
  qed
qed

section \<open>Signed readings\<close>

text \<open>The two's complement reading of the low \<open>n\<close> bits of a word.\<close>

definition sval :: "nat \<Rightarrow> 'a::len word \<Rightarrow> int" where
  "sval n x =
     (let u = unat x mod 2 ^ n in if u < 2 ^ (n - 1) then int u else int u - 2 ^ n)"

lemma sval_trunc [simp]: "sval n (take_bit n x) = sval n (x :: 'a::len word)"
  by (simp add: sval_def unat_take_bit_word)

lemma sval_signed_take_bit:
  assumes "0 < n"
  shows "sval n x = signed_take_bit (n - 1) (uint (x :: 'a::len word))"
proof -
  have n: "Suc (n - 1) = n" using assms by simp
  have u: "take_bit n (uint x) = int (unat x mod 2 ^ n)"
    by (simp add: take_bit_eq_mod zmod_int)
  have b: "bit (uint x) (n - 1) \<longleftrightarrow> 2 ^ (n - 1) \<le> unat x mod 2 ^ n"
  proof -
    have "bit (uint x) (n - 1) \<longleftrightarrow> bit (take_bit n x) (n - 1)"
      using assms by (simp add: bit_take_bit_iff bit_uint_iff) (meson bit_imp_le_length)
    also have "\<dots> \<longleftrightarrow> 2 ^ (n - 1) \<le> unat (take_bit n x)"
      using unat_trunc_less [of n x] by (intro bit_top_word) (simp only: n)
    finally show ?thesis by (simp add: unat_take_bit_word)
  qed
  show ?thesis
    unfolding signed_take_bit_eq_take_bit_minus n u sval_def Let_def
    using b power_Suc [of "2 :: int" "n - 1", unfolded n] by (auto simp: not_less)
qed

lemma bit_sval: "0 < n \<Longrightarrow> bit (sval n x) i \<longleftrightarrow> bit (x :: 'a::len word) (min (n - 1) i)"
  by (auto simp: sval_signed_take_bit bit_signed_take_bit_iff bit_uint_iff dest: bit_imp_le_length)

lemma sval_signExtend:
  assumes "0 < m" "m \<le> n" "n \<le> LENGTH('a)"
  shows "sval n (signExtend m n (take_bit m x)) = sval m (x :: 'a::len word)"
proof (rule bit_eqI)
  fix i
  have "bit (signExtend m n (take_bit m x)) k \<longleftrightarrow> bit x (min (m - 1) k)" if "k < n" for k
    using assms that by (cases "k < m") (auto simp: bit_word_simps bit_take_bit_iff min_def le_Suc_eq
        dest: le_antisym)
  moreover have "min (m - 1) (min (n - 1) i) = min (m - 1) i" using assms(2) by simp
  ultimately show "bit (sval n (signExtend m n (take_bit m x))) i = bit (sval m x) i"
    using assms by (simp add: bit_sval)
qed

lemma signExtend_trunc:
  assumes "m \<le> n"
  shows "take_bit n (signExtend m n (take_bit m x)) = signExtend m n (take_bit m (x :: 'a::len word))"
  using assms by (intro bit_word_eqI) (auto simp: bit_word_simps bit_take_bit_iff)

lemma sval_shiftRightArithmetic:
  assumes "0 < n" "n \<le> LENGTH('a)"
  shows "sval n (shiftRightArithmetic n (take_bit n x) c) = sval n (x :: 'a::len word) div 2 ^ c"
proof -
  have "sval n (shiftRightArithmetic n (take_bit n x) c) = drop_bit c (sval n x)"
  proof (rule bit_eqI)
    fix i
    have "min (min (n - 1) i + c) (n - 1) = min (n - 1) (c + i)" by simp
    then show "bit (sval n (shiftRightArithmetic n (take_bit n x) c)) i = bit (drop_bit c (sval n x)) i"
      using assms by (simp add: bit_sval bit_drop_bit_eq shiftRightArithmetic_sign_bits)
  qed
  then show ?thesis by (simp add: drop_bit_eq_div)
qed

lemma unat_shiftRightLogical:
  assumes "n \<le> LENGTH('a)"
  shows "unat (shiftRightLogical n (take_bit n x) c) = unat (take_bit n (x :: 'a::len word)) div 2 ^ c"
proof (cases "c < n")
  case True
  then show ?thesis
    by (metis shiftRightLogical_def drop_bit_eq_div not_le unat_drop_bit_eq)
next
  case False
  then have "unat (take_bit n x) < 2 ^ c"
    by (meson leI less_le_trans one_le_numeral power_increasing unat_trunc_less)
  with False show ?thesis by (simp add: shiftRightLogical_def)
qed

section \<open>Base-two logarithm\<close>

lemma log2_loop_correct:
  fixes a :: "'a::len word"
  assumes "i < LENGTH('a)" "1 < LENGTH('a)" "LENGTH('a) < 2 ^ LENGTH('a)"
    and "i = 0 \<or> 2 ^ (i - 1) < unat a"
  shows "\<exists>k. log2_loop a (push_bit i 1) (of_nat i) = of_nat k \<and> i \<le> k \<and> k \<le> LENGTH('a) \<and>
     unat a \<le> 2 ^ k \<and> (k = 0 \<or> 2 ^ (k - 1) < unat a)"
  using assms
proof (induction "LENGTH('a) - i" arbitrary: i)
  case 0
  then show ?case by simp
next
  case (Suc d)
  have p: "unat (push_bit i 1 :: 'a word) = 2 ^ i"
    using Suc.prems(1) by (simp add: push_bit_of_1 unat_two_power)
  then have nz: "push_bit i 1 \<noteq> (0 :: 'a word)" by (metis power_not_zero unat_0 zero_neq_numeral)
  show ?case
  proof (cases "push_bit i 1 < a")
    case True
    then have lt: "2 ^ i < unat a" by (metis p word_less_nat_alt)
    have step: "log2_loop a (push_bit i 1) (of_nat i) = log2_loop a (push_bit (Suc i) 1) (of_nat (Suc i))"
      using True nz by (subst log2_loop.simps) (simp add: push_bit_push_bit ac_simps)
    show ?thesis
    proof (cases "Suc i < LENGTH('a)")
      case True
      have "d = LENGTH('a) - Suc i" using Suc.hyps(2) by simp
      from Suc.hyps(1) [OF this True Suc.prems(2,3)] lt show ?thesis
        unfolding step by fastforce
    next
      case False
      then have e: "Suc i = LENGTH('a)" using Suc.prems(1) by simp
      have "log2_loop a (push_bit (Suc i) 1) (of_nat (Suc i)) = of_nat (Suc i)"
        by (subst log2_loop.simps) (simp add: e push_bit_of_1)
      moreover have "unat a \<le> 2 ^ Suc i" by (metis e less_imp_le unat_less_length_power)
      ultimately show ?thesis 
        unfolding step using lt by (intro exI [of _ "Suc i"]) (simp add: e [symmetric])
    qed
  next
    case False
    then have "log2_loop a (push_bit i 1) (of_nat i) = of_nat i" by (subst log2_loop.simps) simp
    moreover have "unat a \<le> 2 ^ i" using False p by (simp add: word_less_nat_alt not_less)
    ultimately show ?thesis using Suc.prems by (intro exI [of _ i]) auto
  qed
qed

theorem log2_ceiling:
  fixes a :: "'a::len word"
  assumes "1 < LENGTH('a)"
  shows "\<exists>k \<le> LENGTH('a). log2 a = of_nat k \<and> unat a \<le> 2 ^ k \<and> (k = 0 \<or> 2 ^ (k - 1) < unat a)"
  using log2_loop_correct [of 0 a] assms less_exp [of "LENGTH('a)"] by (auto simp: log2_def)

end
