(* ===== verification/Ranges.thy ===== *)
theory Ranges
  imports Prelude
begin

text \<open>
  The class template \<open>Range<T>\<close> of \<^verbatim>\<open>src/roseSupport/rangemap.h\<close> for an unsigned integer type
  \<open>T\<close> at least as wide as \<open>int\<close> (the library's instances are over addresses and 32/64-bit values). A range is
  its two members; it denotes the closed interval between them and is empty when \<open>r_last < r_first\<close>.
  Operations whose assertions can fail return an option. The predicates test for emptiness before
  they call \<open>first()\<close> or \<open>last()\<close>, so the assertions of these accessors hold there and the model
  reads the members.
\<close>

record 'w Range =
  r_first :: "'w"
  r_last :: "'w"

section \<open>Construction and access\<close>

definition range_empty :: "'a::len word Range \<Rightarrow> bool" where
  "range_empty r \<longleftrightarrow> r_last r < r_first r"

definition range_minimum :: "'a::len word" where
  "range_minimum = 0"

definition range_maximum :: "'a::len word" where
  "range_maximum = -1"

definition range_default :: "'a::len word Range" where
  "range_default = \<lparr>r_first = 1, r_last = 0\<rparr>"

definition range_unit :: "'a::len word \<Rightarrow> 'a word Range" where
  "range_unit first = \<lparr>r_first = first, r_last = first\<rparr>"

definition range_clear :: "'a::len word Range \<Rightarrow> 'a word Range option" where
  "range_clear r =
     (if \<not> range_empty r then
        let r' = (if r_first r < range_maximum
                  then \<lparr>r_first = r_first r + 1, r_last = (r_first r + 1) - 1\<rparr>
                  else r\<lparr>r_last := r_first r - 2\<rparr>)
        in do { assert_opt (range_empty r'); Some r' }
      else Some r)"

definition range_sized :: "'a::len word \<Rightarrow> 'a word \<Rightarrow> 'a word Range option" where
  "range_sized first sz =
     (let r = \<lparr>r_first = first, r_last = first + sz - 1\<rparr>
      in if sz = 0 then range_clear (r\<lparr>r_last := first\<rparr>)
         else do { assert_opt (\<not> range_empty r); Some r })"

definition range_inin :: "'a::len word \<Rightarrow> 'a word \<Rightarrow> 'a word Range option" where
  "range_inin v1 v2 =
     do { assert_opt (v1 \<le> v2);
          Some (range_default\<lparr>r_first := v1, r_last := v2\<rparr>) }"

definition range_first :: "'a::len word Range \<Rightarrow> 'a word option" where
  "range_first r = do { assert_opt (\<not> range_empty r); Some (r_first r) }"

definition range_relaxed_first :: "'a::len word Range \<Rightarrow> 'a word" where
  "range_relaxed_first r =
     (if \<not> range_empty r then r_first r
      else if 1 = r_first r - r_last r then r_first r - 1
      else r_first r)"

definition range_last :: "'a::len word Range \<Rightarrow> 'a word option" where
  "range_last r = do { assert_opt (\<not> range_empty r); Some (r_last r) }"

definition range_relaxed_last :: "'a::len word Range \<Rightarrow> 'a word" where
  "range_relaxed_last r = (if range_empty r then range_relaxed_first r else r_last r)"

definition range_of_other :: "'a::len word Range \<Rightarrow> 'a word Range" where
  "range_of_other other =
     \<lparr>r_first = range_relaxed_first other, r_last = range_relaxed_last other\<rparr>"

definition range_size :: "'a::len word Range \<Rightarrow> 'a word" where
  "range_size r = (if range_empty r then 0 else r_last r + 1 - r_first r)"

definition range_resize :: "'a::len word Range \<Rightarrow> 'a word \<Rightarrow> 'a word Range option" where
  "range_resize r new_size =
     do { assert_opt (\<not> range_empty r);
          if new_size = 0 then range_clear r
          else let r' = r\<lparr>r_last := r_first r + new_size - 1\<rparr>
               in do { assert_opt (\<not> range_empty r'); Some r' } }"

definition range_relaxed_resize :: "'a::len word Range \<Rightarrow> 'a word \<Rightarrow> 'a word Range option" where
  "range_relaxed_resize r new_size =
     (if new_size = 0 then range_clear r
      else let r1 = r\<lparr>r_first := range_relaxed_first r\<rparr>;
               r2 = r1\<lparr>r_last := r_first r1 + new_size - 1\<rparr>
           in do { assert_opt (\<not> range_empty r2); Some r2 })"

definition range_split_at :: "'a::len word Range \<Rightarrow> 'a word \<Rightarrow> ('a word Range \<times> 'a word Range) option" where
  "range_split_at r at =
     do { assert_opt (\<not> range_empty r);
          assert_opt (at > r_first r \<and> at \<le> r_last r);
          left \<leftarrow> range_sized (r_first r) (at - r_first r);
          right \<leftarrow> range_sized at (r_last r + 1 - at);
          Some (left, right) }"

definition range_all :: "'a::len word Range option" where
  "range_all = range_inin range_minimum range_maximum"

section \<open>Predicates\<close>

definition begins_with :: "'a::len word Range \<Rightarrow> 'a word Range \<Rightarrow> bool" where
  "begins_with r x = (if range_empty r \<or> range_empty x then False else r_first r = r_first x)"

definition ends_with :: "'a::len word Range \<Rightarrow> 'a word Range \<Rightarrow> bool" where
  "ends_with r x = (if range_empty r \<or> range_empty x then False else r_last r = r_last x)"

definition begins_after :: "'a::len word Range \<Rightarrow> 'a word Range \<Rightarrow> bool \<Rightarrow> bool" where
  "begins_after r x strict =
     (if range_empty r \<or> range_empty x then False
      else if strict then r_first r > r_first x else r_first r \<ge> r_first x)"

definition begins_before :: "'a::len word Range \<Rightarrow> 'a word Range \<Rightarrow> bool \<Rightarrow> bool" where
  "begins_before r x strict =
     (if range_empty r \<or> range_empty x then False
      else if strict then r_first r < r_first x else r_first r \<le> r_first x)"

definition ends_after :: "'a::len word Range \<Rightarrow> 'a word Range \<Rightarrow> bool \<Rightarrow> bool" where
  "ends_after r x strict =
     (if range_empty r \<or> range_empty x then False
      else if strict then r_last r > r_last x else r_last r \<ge> r_last x)"

definition ends_before :: "'a::len word Range \<Rightarrow> 'a word Range \<Rightarrow> bool \<Rightarrow> bool" where
  "ends_before r x strict =
     (if range_empty r \<or> range_empty x then False
      else if strict then r_last r < r_last x else r_last r \<le> r_last x)"

definition range_contains :: "'a::len word Range \<Rightarrow> 'a word Range \<Rightarrow> bool \<Rightarrow> bool" where
  "range_contains r x strict =
     (if range_empty r \<or> range_empty x then False
      else if strict then r_first x > r_first r \<and> r_last x < r_last r
      else r_first x \<ge> r_first r \<and> r_last x \<le> r_last r)"

definition contained_in :: "'a::len word Range \<Rightarrow> 'a word Range \<Rightarrow> bool \<Rightarrow> bool" where
  "contained_in r x strict =
     (if range_empty r \<or> range_empty x then False
      else if strict then r_first r > r_first x \<and> r_last r < r_last x
      else r_first r \<ge> r_first x \<and> r_last r \<le> r_last x)"

definition congruent :: "'a::len word Range \<Rightarrow> 'a word Range \<Rightarrow> bool option" where
  "congruent r x =
     (if range_empty r \<and> range_empty x then Some True
      else do { f1 \<leftarrow> range_first r; f2 \<leftarrow> range_first x;
                if f1 = f2 then do { l1 \<leftarrow> range_last r; l2 \<leftarrow> range_last x; Some (l1 = l2) }
                else Some False })"

definition left_of :: "'a::len word Range \<Rightarrow> 'a word Range \<Rightarrow> bool" where
  "left_of r x = (if range_empty r \<or> range_empty x then False else r_last r < r_first x)"

definition right_of :: "'a::len word Range \<Rightarrow> 'a word Range \<Rightarrow> bool" where
  "right_of r x = (if range_empty r \<or> range_empty x then False else r_first r > r_last x)"

definition range_overlaps :: "'a::len word Range \<Rightarrow> 'a word Range \<Rightarrow> bool" where
  "range_overlaps r x =
     (if range_empty r \<or> range_empty x then False else \<not> left_of r x \<and> \<not> right_of r x)"

definition range_distinct :: "'a::len word Range \<Rightarrow> 'a word Range \<Rightarrow> bool" where
  "range_distinct r x =
     (if range_empty r \<or> range_empty x then True else \<not> range_overlaps r x)"

definition abuts_lt :: "'a::len word Range \<Rightarrow> 'a word Range \<Rightarrow> bool" where
  "abuts_lt r x = (if range_empty r \<or> range_empty x then False else r_last r + 1 = r_first x)"

definition abuts_gt :: "'a::len word Range \<Rightarrow> 'a word Range \<Rightarrow> bool" where
  "abuts_gt r x = (if range_empty r \<or> range_empty x then False else r_first r = r_last x + 1)"

definition range_join :: "'a::len word Range \<Rightarrow> 'a word Range \<Rightarrow> 'a word Range option" where
  "range_join r right =
     (if range_empty r then Some right
      else if range_empty right then Some r
      else do { assert_opt (abuts_lt r right); range_inin (r_first r) (r_last right) })"

lemmas range_pred_defs =
  begins_with_def ends_with_def begins_after_def begins_before_def ends_after_def ends_before_def
  range_contains_def contained_in_def left_of_def right_of_def range_overlaps_def
  range_distinct_def abuts_lt_def abuts_gt_def

section \<open>The set a range denotes\<close>

definition set_of :: "'a::len word Range \<Rightarrow> 'a word set" where
  "set_of r = {r_first r..r_last r}"

lemma mem_set_of [simp]: "a \<in> set_of r \<longleftrightarrow> r_first r \<le> a \<and> a \<le> r_last r"
  by (simp add: set_of_def)

lemma set_of_empty_iff: "set_of r = {} \<longleftrightarrow> range_empty r"
  by (simp add: set_of_def range_empty_def not_le)

lemma not_empty_le: "\<not> range_empty r \<longleftrightarrow> r_first r \<le> r_last r"
  by (simp add: range_empty_def not_less)

lemma finite_set_of [simp]: "finite (set_of r)"
  by (simp add: set_of_def)

lemma range_unit_simps [simp]:
  "r_first (range_unit a) = a" "r_last (range_unit a) = a" "\<not> range_empty (range_unit a)"
  by (simp_all add: range_unit_def range_empty_def)

lemma range_inin_Some_iff:
  "range_inin a b = Some r \<longleftrightarrow> a \<le> b \<and> r = \<lparr>r_first = a, r_last = b\<rparr>"
  by (cases "a \<le> b") (auto simp: range_inin_def range_default_def)

lemma range_empty_make [simp]: "range_empty \<lparr>r_first = a, r_last = b\<rparr> \<longleftrightarrow> b < a"
  by (simp add: range_empty_def)

lemma Range_eqI: "r_first r = r_first s \<Longrightarrow> r_last r = r_last s \<Longrightarrow> r = (s :: 'a::len word Range)"
  by simp

lemma range_sized_upto:
  assumes "a \<le> b" "b + 1 - a \<noteq> 0"
  shows "range_sized a (b + 1 - a) = Some \<lparr>r_first = a, r_last = b\<rparr>"
  using assms by (simp add: range_sized_def Let_def not_less)

lemma split_at_Some:
  assumes "r_first r < at" "at \<le> r_last r"
  shows "range_split_at r at =
    Some (\<lparr>r_first = r_first r, r_last = at - 1\<rparr>, \<lparr>r_first = at, r_last = r_last r\<rparr>)"
proof -
  have "r_first r \<le> at - 1" using assms(1) by (rule less_imp_less_eq_dec)
  moreover have "at - 1 + 1 - r_first r \<noteq> 0" using assms(1) by auto
  ultimately have l: "range_sized (r_first r) (at - r_first r) = Some \<lparr>r_first = r_first r, r_last = at - 1\<rparr>"
    using range_sized_upto [of "r_first r" "at - 1"] by simp
  have "r_last r + 1 - at \<noteq> 0"
  proof
    assume "r_last r + 1 - at = 0"
    then have "r_last r + 1 = at" by simp
    then have "r_last r = -1" using assms(2) by (metis inc_less_eq_triv_imp)
    with \<open>r_last r + 1 = at\<close> assms(1) show False by simp
  qed
  then have "range_sized at (r_last r + 1 - at) = Some \<lparr>r_first = at, r_last = r_last r\<rparr>"
    using assms(2) by (rule range_sized_upto [rotated])
  with l assms show ?thesis by (simp add: range_split_at_def range_empty_def)
qed

lemma split_at_fails:
  "\<not> (r_first r < at \<and> at \<le> r_last r) \<Longrightarrow> range_split_at r at = None"
  by (cases "range_empty r") (simp_all add: range_split_at_def)

lemma nonempty_preds:
  assumes "\<not> range_empty r" "\<not> range_empty x"
  shows "left_of r x \<longleftrightarrow> r_last r < r_first x" "right_of r x \<longleftrightarrow> r_last x < r_first r"
    "range_overlaps r x \<longleftrightarrow> r_first x \<le> r_last r \<and> r_first r \<le> r_last x"
    "begins_before r x s \<longleftrightarrow> (if s then r_first r < r_first x else r_first r \<le> r_first x)"
    "ends_before r x s \<longleftrightarrow> (if s then r_last r < r_last x else r_last r \<le> r_last x)"
    "range_contains r x False \<longleftrightarrow> r_first r \<le> r_first x \<and> r_last x \<le> r_last r"
    "contained_in r x False \<longleftrightarrow> r_first x \<le> r_first r \<and> r_last r \<le> r_last x"
  using assms by (simp_all add: range_pred_defs not_less)

section \<open>Set semantics of the operations\<close>

lemma overlaps_iff_sets: "range_overlaps r x \<longleftrightarrow> set_of r \<inter> set_of x \<noteq> {}"
proof
  assume "range_overlaps r x"
  then have "max (r_first r) (r_first x) \<in> set_of r \<inter> set_of x"
    by (auto simp: range_overlaps_def left_of_def right_of_def range_empty_def max_def not_less split: if_splits)
  then show "set_of r \<inter> set_of x \<noteq> {}" by blast
next
  assume "set_of r \<inter> set_of x \<noteq> {}"
  then show "range_overlaps r x"
    by (auto simp: range_overlaps_def left_of_def right_of_def range_empty_def)
qed

lemma distinct_iff_sets: "range_distinct r x \<longleftrightarrow> set_of r \<inter> set_of x = {}"
  using overlaps_iff_sets [of r x] set_of_empty_iff [of r] set_of_empty_iff [of x]
  by (auto simp: range_distinct_def)

lemma contains_iff_sets:
  "range_contains r x False \<longleftrightarrow> set_of x \<noteq> {} \<and> set_of x \<subseteq> set_of r"
proof
  assume "range_contains r x False"
  then show "set_of x \<noteq> {} \<and> set_of x \<subseteq> set_of r"
    by (auto simp: range_contains_def set_of_empty_iff split: if_splits)
next
  assume s: "set_of x \<noteq> {} \<and> set_of x \<subseteq> set_of r"
  then have "\<not> range_empty x" by (simp add: set_of_empty_iff)
  then have "r_first x \<in> set_of x" "r_last x \<in> set_of x" by (simp_all add: not_empty_le)
  with s have "r_first x \<in> set_of r" "r_last x \<in> set_of r" by blast+
  then show "range_contains r x False"
    using \<open>\<not> range_empty x\<close> by (auto simp: range_contains_def range_empty_def)
qed

lemma contained_in_flip: "contained_in r x s = range_contains x r s"
  by (auto simp: contained_in_def range_contains_def)

lemma left_of_iff_sets:
  "left_of r x \<longleftrightarrow> set_of r \<noteq> {} \<and> set_of x \<noteq> {} \<and> (\<forall>a \<in> set_of r. \<forall>b \<in> set_of x. a < b)"
proof
  assume "left_of r x"
  then show "set_of r \<noteq> {} \<and> set_of x \<noteq> {} \<and> (\<forall>a \<in> set_of r. \<forall>b \<in> set_of x. a < b)"
    by (auto simp: left_of_def set_of_empty_iff split: if_splits)
next
  assume s: "set_of r \<noteq> {} \<and> set_of x \<noteq> {} \<and> (\<forall>a \<in> set_of r. \<forall>b \<in> set_of x. a < b)"
  then have e: "\<not> range_empty r" "\<not> range_empty x" by (simp_all add: set_of_empty_iff)
  then have "r_last r \<in> set_of r" "r_first x \<in> set_of x" by (simp_all add: not_empty_le)
  with s have "r_last r < r_first x" by blast
  with e show "left_of r x" by (simp add: left_of_def)
qed

lemma right_of_flip: "right_of r x = left_of x r"
  by (auto simp: right_of_def left_of_def)

lemma card_word_interval:
  "a \<le> b \<Longrightarrow> card {a..b} = Suc (unat (b :: 'a::len word) - unat a)"
proof -
  assume "a \<le> b"
  have "unat ` {a..b} = {unat a..unat b}"
  proof (intro equalityI subsetI)
    fix n assume "n \<in> {unat a..unat b}"
    then have "n \<le> unat b" "unat a \<le> n" by simp_all
    then have "unat (of_nat n :: 'a word) = n"
      by (metis le_less_trans unat_less_length_power unat_of_nat_less)
    then have "(of_nat n :: 'a word) \<in> {a..b}" using \<open>n \<le> unat b\<close> \<open>unat a \<le> n\<close>
      by (simp add: word_le_nat_alt)
    then show "n \<in> unat ` {a..b}" using \<open>unat (of_nat n :: 'a word) = n\<close> by (metis image_eqI)
  qed (auto simp: word_le_nat_alt)
  then have "card {a..b} = card {unat a..unat b}"
    by (metis card_image inj_onI word_unat_eq_iff)
  then show ?thesis using \<open>a \<le> b\<close> by (simp add: word_le_nat_alt Suc_diff_le)
qed

lemma range_size_card: "range_size r = of_nat (card (set_of r))"
proof (cases "range_empty r")
  case True
  then have "set_of r = {}" by (simp only: set_of_empty_iff)
  with True show ?thesis by (simp add: range_size_def)
next
  case False
  then have le: "r_first r \<le> r_last r" by (simp add: not_empty_le)
  then have "unat (r_first r) \<le> unat (r_last r)" by (simp add: word_le_nat_alt)
  with False le show ?thesis
    by (simp add: range_size_def set_of_def card_word_interval of_nat_diff)
qed

lemma range_sized_total:
  assumes "0 < sz" "unat first + unat sz \<le> 2 ^ LENGTH('a)"
  shows "\<exists>r. range_sized first (sz :: 'a::len word) = Some r \<and> r_first r = first
     \<and> unat (r_last r) = unat first + unat sz - 1"
proof -
  have sz: "0 < unat sz" using assms(1) by (simp add: unat_gt_0)
  have u: "unat (first + sz - 1) = unat first + unat sz - 1"
  proof -
    have "first + sz - 1 = of_nat (unat first + unat sz - 1)"
      using sz by (simp add: of_nat_diff)
    moreover have "unat first + unat sz - 1 < 2 ^ LENGTH('a)" using sz assms(2) by linarith
    ultimately show ?thesis by (simp only: unat_of_nat_less)
  qed
  then have "first \<le> first + sz - 1" using sz by (simp add: word_le_nat_alt)
  with u assms(1) show ?thesis by (auto simp: range_sized_def Let_def not_less)
qed

lemma split_join:
  assumes "range_split_at r at = Some (l, x)"
  shows "range_join l x = Some r" and "set_of l \<union> set_of x = set_of r"
    and "left_of l x" and "r_first x = at"
proof -
  have at: "r_first r < at \<and> at \<le> r_last r" using assms split_at_fails by fastforce
  then have lx: "l = \<lparr>r_first = r_first r, r_last = at - 1\<rparr>" "x = \<lparr>r_first = at, r_last = r_last r\<rparr>"
    using assms by (simp_all add: split_at_Some)
  have l: "r_first r \<le> at - 1" "at - 1 < at"
    using at by (auto simp: less_imp_less_eq_dec word_not_simps less_eq_dec_self_iff_eq not_le [symmetric])
  then show "range_join l x = Some r" using at
    by (auto simp: lx range_join_def abuts_lt_def range_empty_def range_inin_Some_iff not_less)
  show "left_of l x" "r_first x = at" using l at by (simp_all add: lx left_of_def not_less)
  show "set_of l \<union> set_of x = set_of r"
    using l at by (auto simp: lx set_of_def less_eq_dec_iff)
qed

lemma join_sets:
  assumes "abuts_lt r x" "r_first x \<noteq> 0"
  shows "range_join r x = Some \<lparr>r_first = r_first r, r_last = r_last x\<rparr>"
    and "set_of \<lparr>r_first = r_first r, r_last = r_last x\<rparr> = set_of r \<union> set_of x"
    and "left_of r x"
proof -
  have e: "r_first r \<le> r_last r" "r_first x \<le> r_last x" "r_last r = r_first x - 1"
    using assms by (auto simp: abuts_lt_def range_empty_def not_less eq_diff_eq split: if_splits)
  then have lt: "r_last r < r_first x"
    using assms(2) by (metis less_eq_dec_triv_imp not_less)
  then have le: "r_first r \<le> r_last x" using e by (meson less_imp_le order_trans)
  then show "range_join r x = Some \<lparr>r_first = r_first r, r_last = r_last x\<rparr>"
    using assms(1) e by (simp add: range_join_def range_inin_Some_iff range_empty_def not_less)
  show "left_of r x" using e lt by (simp add: left_of_def range_empty_def not_less)
  have "a \<le> r_last r \<or> r_first x \<le> a" for a using e(3) assms(2) by (auto simp: less_eq_dec_iff not_le)
  then show "set_of \<lparr>r_first = r_first r, r_last = r_last x\<rparr> = set_of r \<union> set_of x"
    using e lt le by (auto simp: set_of_def) (meson less_imp_le order_trans)+
qed

lemma clear_keeps_first:
  assumes "1 < LENGTH('a)"
  shows "\<exists>r'. range_clear (r :: 'a::len word Range) = Some r' \<and> range_empty r' \<and>
     range_relaxed_first r' = range_relaxed_first r"
proof -
  have two: "(2 :: 'a word) \<noteq> 0" "(2 :: 'a word) \<noteq> 1"
    using assms unat_two_power [of 1, where 'a = 'a] by (auto dest: arg_cong [of _ _ unat])
  have top: "-1 - 2 < (-1 :: 'a word)"
    using two by (metis diff_0_right diff_left_imp_eq less_max_word_iff)
  have "a < a + 1" if "a < -1" for a :: "'a word"
    using that by (metis less_max_word_iff lessI unat_plus_one word_less_nat_alt)
  then show ?thesis using two top
    by (auto simp: range_clear_def Let_def range_relaxed_first_def range_maximum_def range_empty_def
        less_max_word_iff)
qed

end
