(* ===== verification/RangeMaps.thy ===== *)
theory RangeMaps
  imports Ranges
begin

text \<open>
  The class template \<open>RangeMap<R, T>\<close> of \<^verbatim>\<open>src/roseSupport/rangemap.h\<close>. The underlying \<open>std::map\<close>
  is ordered by the last value of the ranges; it is modelled by the list of its elements in
  iteration order, and an iterator by a position in that list (\<open>end()\<close> is its length). What the
  container asks of its values (\<open>removing\<close>, \<open>truncate\<close>, \<open>merge\<close>, \<open>split\<close>, the default constructor)
  is a record of operations: a method of a value returns the value after the call, and \<open>None\<close>
  where an assertion fails.
\<close>

section \<open>The interface of the values\<close>

record ('w, 'v) rm_value_ops =
  vo_removing :: "'w Range \<Rightarrow> 'v \<Rightarrow> 'v option"
  vo_truncate :: "'w Range \<Rightarrow> 'w \<Rightarrow> 'v \<Rightarrow> 'v option"
  vo_merge :: "'w Range \<Rightarrow> 'w Range \<Rightarrow> 'v \<Rightarrow> 'v \<Rightarrow> (bool \<times> 'v) option"
  vo_split :: "'w Range \<Rightarrow> 'w \<Rightarrow> 'v \<Rightarrow> ('v \<times> 'v) option"
  vo_default :: "'v"

type_synonym ('w, 'v) rmap = "('w Range \<times> 'v) list"

text \<open>\<open>RangeMapVoid\<close>: no data, everything merges.\<close>

definition range_map_void :: "('a::len word, unit) rm_value_ops" where
  "range_map_void =
     \<lparr>vo_removing = (\<lambda>my_range v. do { assert_opt (\<not> range_empty my_range); Some v }),
      vo_truncate = (\<lambda>my_range new_end v.
         do { f \<leftarrow> range_first my_range; l \<leftarrow> range_last my_range;
              assert_opt (new_end > f \<and> new_end \<le> l); Some v }),
      vo_merge = (\<lambda>my_range other_range v other_value.
         do { assert_opt (\<not> range_empty my_range \<and> \<not> range_empty other_range); Some (True, v) }),
      vo_split = (\<lambda>my_range new_end v.
         do { assert_opt (range_contains my_range (range_unit new_end) False); Some (v, ()) }),
      vo_default = ()\<rparr>"

text \<open>\<open>RangeMapValue<R, T>\<close> with the \<open>split\<close> its subclasses in \<open>Partitioner.h\<close> add (a copy).\<close>

definition range_map_value :: "'t \<Rightarrow> ('a::len word, 't) rm_value_ops" where
  "range_map_value dflt =
     \<lparr>vo_removing = (\<lambda>my_range v. do { assert_opt (\<not> range_empty my_range); Some v }),
      vo_truncate = (\<lambda>my_range new_end v.
         do { f \<leftarrow> range_first my_range; l \<leftarrow> range_last my_range;
              assert_opt (new_end > f \<and> new_end \<le> l); Some v }),
      vo_merge = (\<lambda>my_range other_range v other_value.
         do { assert_opt (\<not> range_empty my_range \<and> \<not> range_empty other_range);
              Some (v = other_value, v) }),
      vo_split = (\<lambda>my_range new_end v.
         do { assert_opt (range_contains my_range (range_unit new_end) False); Some (v, v) }),
      vo_default = dflt\<rparr>"

section \<open>The underlying ordered map\<close>

text \<open>\<open>operator[]\<close> followed by an assignment, \<open>insert\<close> of a pair, and \<open>lower_bound\<close> of a \<open>std::map\<close>
  ordered by \<open>RangeCompare\<close>.\<close>

fun map_assign :: "'a::len word Range \<Rightarrow> 'v \<Rightarrow> ('a word, 'v) rmap \<Rightarrow> ('a word, 'v) rmap" where
  "map_assign k v [] = [(k, v)]"
| "map_assign k v ((k', v') # m) =
     (if r_last k' < r_last k then (k', v') # map_assign k v m
      else if r_last k < r_last k' then (k, v) # (k', v') # m
      else (k', v) # m)"

fun map_insert :: "'a::len word Range \<Rightarrow> 'v \<Rightarrow> ('a word, 'v) rmap \<Rightarrow> ('a word, 'v) rmap" where
  "map_insert k v [] = [(k, v)]"
| "map_insert k v ((k', v') # m) =
     (if r_last k' < r_last k then (k', v') # map_insert k v m
      else if r_last k < r_last k' then (k, v) # (k', v') # m
      else (k', v') # m)"

fun map_insert_range :: "('a::len word, 'v) rmap \<Rightarrow> ('a word, 'v) rmap \<Rightarrow> ('a word, 'v) rmap" where
  "map_insert_range [] m = m"
| "map_insert_range ((k, v) # xs) m = map_insert_range xs (map_insert k v m)"

definition map_erase_at :: "nat \<Rightarrow> ('w, 'v) rmap \<Rightarrow> ('w, 'v) rmap" where
  "map_erase_at i m = take i m @ drop (Suc i) m"

definition map_erase_between :: "nat \<Rightarrow> nat \<Rightarrow> ('w, 'v) rmap \<Rightarrow> ('w, 'v) rmap" where
  "map_erase_between i j m = take i m @ drop j m"

section \<open>Searching\<close>

definition rm_lower_bound :: "('a::len word, 'v) rmap \<Rightarrow> 'a word \<Rightarrow> nat" where
  "rm_lower_bound m addr = length (takeWhile (\<lambda>e. r_last (fst e) < r_last (range_unit addr)) m)"

definition rm_find :: "('a::len word, 'v) rmap \<Rightarrow> 'a word \<Rightarrow> nat" where
  "rm_find m addr =
     (let ei = rm_lower_bound m addr
      in if ei = length m \<or> left_of (range_unit addr) (fst (m ! ei)) then length m else ei)"

definition rm_find_prior :: "('a::len word, 'v) rmap \<Rightarrow> 'a word \<Rightarrow> nat" where
  "rm_find_prior m addr =
     (if m = [] then length m
      else let lb = rm_lower_bound m addr
           in if lb \<noteq> length m \<and> begins_before (fst (m ! lb)) (range_unit addr) False then lb
              else if lb = 0 then length m
              else lb - 1)"

text \<open>\<open>best_fit\<close> and \<open>first_fit\<close>: the loops run over the elements from \<open>start\<close> on.\<close>

fun best_fit_loop :: "('a::len word, 'v) rmap \<Rightarrow> 'a word \<Rightarrow> nat \<Rightarrow> nat \<Rightarrow> ('a word, 'v) rmap \<Rightarrow> nat" where
  "best_fit_loop m sz best ri [] = best"
| "best_fit_loop m sz best ri ((r, v) # rest) =
     (if range_size r = sz then ri
      else best_fit_loop m sz
             (if range_size r > sz \<and>
                 (best = length m \<or> range_size r < range_size (fst (m ! best))) then ri else best)
             (Suc ri) rest)"

definition rm_best_fit :: "('a::len word, 'v) rmap \<Rightarrow> 'a word \<Rightarrow> nat \<Rightarrow> nat" where
  "rm_best_fit m sz start = best_fit_loop m sz (length m) start (drop start m)"

fun first_fit_loop :: "'a::len word \<Rightarrow> nat \<Rightarrow> ('a word, 'v) rmap \<Rightarrow> nat" where
  "first_fit_loop sz ri [] = ri"
| "first_fit_loop sz ri ((r, v) # rest) =
     (if range_size r \<ge> sz then ri else first_fit_loop sz (Suc ri) rest)"

definition rm_first_fit :: "('a::len word, 'v) rmap \<Rightarrow> 'a word \<Rightarrow> nat \<Rightarrow> nat" where
  "rm_first_fit m sz start = first_fit_loop sz start (drop start m)"

section \<open>Capacity\<close>

definition rm_empty :: "('w, 'v) rmap \<Rightarrow> bool" where
  "rm_empty m \<longleftrightarrow> m = []"

definition rm_nranges :: "('w, 'v) rmap \<Rightarrow> nat" where
  "rm_nranges m = length m"

definition rm_size :: "('a::len word, 'v) rmap \<Rightarrow> 'a word" where
  "rm_size m = foldl (\<lambda>retval e. retval + range_size (fst e)) 0 m"

definition rm_min :: "('a::len word, 'v) rmap \<Rightarrow> 'a word option" where
  "rm_min m = do { assert_opt (\<not> rm_empty m); range_first (fst (hd m)) }"

definition rm_max :: "('a::len word, 'v) rmap \<Rightarrow> 'a word option" where
  "rm_max m = do { assert_opt (\<not> rm_empty m); range_last (fst (last m)) }"

definition rm_minmax :: "('a::len word, 'v) rmap \<Rightarrow> 'a word Range option" where
  "rm_minmax m = do { lt \<leftarrow> rm_min m; rt \<leftarrow> rm_max m; range_inin lt rt }"

section \<open>Modifiers\<close>

fun removing_all :: "('a::len word, 'v) rm_value_ops \<Rightarrow> ('a word, 'v) rmap \<Rightarrow> unit option" where
  "removing_all ops [] = Some ()"
| "removing_all ops ((r, v) # m) = do { _ \<leftarrow> vo_removing ops r v; removing_all ops m }"

definition rm_clear ::
  "('a::len word, 'v) rm_value_ops \<Rightarrow> ('a word, 'v) rmap \<Rightarrow> bool \<Rightarrow> ('a word, 'v) rmap option" where
  "rm_clear ops m notify =
     do { _ \<leftarrow> (if notify then removing_all ops m else Some ()); Some [] }"

text \<open>
  The body of the loop of \<open>erase\<close> for the element \<open>(found_range, v)\<close> at position \<open>ei\<close>. The loop
  carries \<open>erase_begin\<close> (\<open>en\<close> is the end iterator) and the map \<open>insertions\<close>. The elements the loop
  changes in place are those it erases afterwards, so the changed values live on in \<open>insertions\<close> only.
\<close>

definition erase_step ::
  "('a::len word, 'v) rm_value_ops \<Rightarrow> 'a word Range \<Rightarrow> nat \<Rightarrow> nat \<Rightarrow> 'a word Range \<Rightarrow> 'v \<Rightarrow>
   nat \<Rightarrow> ('a word, 'v) rmap \<Rightarrow> (nat \<times> ('a word, 'v) rmap) option" where
  "erase_step ops erase_range en ei found_range v erase_begin insertions =
     (if range_contains erase_range found_range False then
        do { _ \<leftarrow> vo_removing ops found_range v;
             Some (if erase_begin = en then ei else erase_begin, insertions) }
      else if contained_in erase_range found_range True then
        do { assert_opt (erase_begin = en);
             rt \<leftarrow> range_split_at found_range (r_last erase_range + 1);
             rt_first \<leftarrow> range_first (snd rt);
             vs \<leftarrow> vo_split ops found_range rt_first v;
             lt \<leftarrow> range_split_at (fst rt) (r_first erase_range);
             v' \<leftarrow> vo_truncate ops (fst rt) (r_first erase_range) (fst vs);
             Some (ei, map_assign (fst lt) v' (map_assign (snd rt) (snd vs) insertions)) }
      else if begins_after erase_range found_range True then
        do { assert_opt (erase_begin = en);
             halves \<leftarrow> range_split_at found_range (r_first erase_range);
             v' \<leftarrow> vo_truncate ops found_range (r_first erase_range) v;
             Some (ei, map_assign (fst halves) v' insertions) }
      else if ends_before erase_range found_range True then
        do { halves \<leftarrow> range_split_at found_range (r_last erase_range + 1);
             rt_first \<leftarrow> range_first (snd halves);
             vs \<leftarrow> vo_split ops found_range rt_first v;
             _ \<leftarrow> vo_removing ops (fst halves) (fst vs);
             Some (if erase_begin = en then ei else erase_begin,
                   map_assign (snd halves) (snd vs) insertions) }
      else Some (erase_begin, insertions))"

fun erase_loop ::
  "('a::len word, 'v) rm_value_ops \<Rightarrow> 'a word Range \<Rightarrow> nat \<Rightarrow> nat \<Rightarrow> ('a word, 'v) rmap \<Rightarrow>
   nat \<Rightarrow> ('a word, 'v) rmap \<Rightarrow> (nat \<times> nat \<times> ('a word, 'v) rmap) option" where
  "erase_loop ops erase_range en ei [] erase_begin insertions = Some (erase_begin, ei, insertions)"
| "erase_loop ops erase_range en ei ((found_range, v) # rest) erase_begin insertions =
     (if left_of erase_range found_range then Some (erase_begin, ei, insertions)
      else do { (erase_begin, insertions) \<leftarrow>
                  erase_step ops erase_range en ei found_range v erase_begin insertions;
                erase_loop ops erase_range en (Suc ei) rest erase_begin insertions })"

definition rm_erase ::
  "('a::len word, 'v) rm_value_ops \<Rightarrow> ('a word, 'v) rmap \<Rightarrow> 'a word Range \<Rightarrow>
   ('a word, 'v) rmap option" where
  "rm_erase ops m erase_range =
     (if range_empty erase_range then Some m
      else let lb = rm_lower_bound m (r_first erase_range)
           in do { (erase_begin, ei, insertions) \<leftarrow>
                     erase_loop ops erase_range (length m) lb (drop lb m) (length m) [];
                   let m1 = (if erase_begin \<noteq> length m then map_erase_between erase_begin ei m else m)
                   in Some (map_insert_range insertions m1) })"

fun rm_erase_ranges ::
  "('a::len word, 'v) rm_value_ops \<Rightarrow> ('a word, 'v) rmap \<Rightarrow> ('a word, 'u) rmap \<Rightarrow>
   ('a word, 'v) rmap option" where
  "rm_erase_ranges ops m [] = Some m"
| "rm_erase_ranges ops m ((r, u) # other) =
     do { f \<leftarrow> range_first r; l \<leftarrow> range_last r; x \<leftarrow> range_inin f l;
          m' \<leftarrow> rm_erase ops m x;
          rm_erase_ranges ops m' other }"

text \<open>The two attempts of \<open>insert\<close> to merge the new element with its left and right neighbour.\<close>

definition merge_left ::
  "('a::len word, 'v) rm_value_ops \<Rightarrow> ('a word, 'v) rmap \<Rightarrow> 'a word Range \<Rightarrow> 'v \<Rightarrow>
   (('a word, 'v) rmap \<times> 'a word Range \<times> 'v) option" where
  "merge_left ops m new_range new_value =
     (let left = (if r_first new_range > range_minimum
                  then rm_find m (r_first new_range - 1) else length m)
      in if left \<noteq> length m \<and> abuts_gt new_range (fst (m ! left)) then
           do { (merged, new_value) \<leftarrow>
                  vo_merge ops new_range (fst (m ! left)) new_value (snd (m ! left));
                if merged then
                  do { j \<leftarrow> range_join (fst (m ! left)) new_range;
                       Some (map_erase_at left m, j, new_value) }
                else Some (m, new_range, new_value) }
         else Some (m, new_range, new_value))"

definition merge_right ::
  "('a::len word, 'v) rm_value_ops \<Rightarrow> ('a word, 'v) rmap \<Rightarrow> 'a word Range \<Rightarrow> 'v \<Rightarrow>
   (('a word, 'v) rmap \<times> 'a word Range \<times> 'v) option" where
  "merge_right ops m new_range new_value =
     (let right = (if r_last new_range < range_maximum
                   then rm_find m (r_last new_range + 1) else length m)
      in if right \<noteq> length m \<and> abuts_lt new_range (fst (m ! right)) then
           do { (merged, new_value) \<leftarrow>
                  vo_merge ops new_range (fst (m ! right)) new_value (snd (m ! right));
                if merged then
                  do { j \<leftarrow> range_join new_range (fst (m ! right));
                       Some (map_erase_at right m, j, new_value) }
                else Some (m, new_range, new_value) }
         else Some (m, new_range, new_value))"

definition rm_insert ::
  "('a::len word, 'v) rm_value_ops \<Rightarrow> ('a word, 'v) rmap \<Rightarrow> 'a word Range \<Rightarrow> 'v \<Rightarrow> bool \<Rightarrow>
   (('a word, 'v) rmap \<times> nat) option" where
  "rm_insert ops m new_range new_value make_hole =
     (if range_empty new_range then Some (m, length m)
      else
        let found = rm_lower_bound m (r_first new_range)
        in if \<not> make_hole \<and> found \<noteq> length m \<and> range_overlaps new_range (fst (m ! found))
           then Some (m, length m)
           else do { m \<leftarrow> (if make_hole then rm_erase ops m new_range else Some m);
                     (m, new_range, new_value) \<leftarrow> merge_left ops m new_range new_value;
                     (m, new_range, new_value) \<leftarrow> merge_right ops m new_range new_value;
                     let m' = map_insert new_range new_value m
                     in Some (m', rm_lower_bound m' (r_last new_range)) })"

fun rm_insert_ranges ::
  "('a::len word, 'v) rm_value_ops \<Rightarrow> ('a word, 'v) rmap \<Rightarrow> ('a word, 'v) rmap \<Rightarrow> bool \<Rightarrow>
   ('a word, 'v) rmap option" where
  "rm_insert_ranges ops m [] make_hole = Some m"
| "rm_insert_ranges ops m ((r, v) # x) make_hole =
     do { (m', _) \<leftarrow> rm_insert ops m r v make_hole; rm_insert_ranges ops m' x make_hole }"

section \<open>Predicates and comparisons\<close>

definition rm_overlaps_range :: "('a::len word, 'v) rmap \<Rightarrow> 'a word Range \<Rightarrow> bool" where
  "rm_overlaps_range m r =
     (if range_empty r then False
      else let found = rm_lower_bound m (r_first r)
           in found \<noteq> length m \<and> range_overlaps r (fst (m ! found)))"

fun contains_loop :: "'a::len word Range \<Rightarrow> ('a word, 'v) rmap \<Rightarrow> bool option" where
  "contains_loop need [] = Some False"
| "contains_loop need ((r, v) # found) =
     (if begins_before need r True then Some False
      else do { assert_opt (range_overlaps need r);
                if ends_before need r False then Some True
                else do { halves \<leftarrow> range_split_at need (r_last r + 1);
                          contains_loop (snd halves) found } })"

definition rm_contains_range :: "('a::len word, 'v) rmap \<Rightarrow> 'a word Range \<Rightarrow> bool option" where
  "rm_contains_range m need =
     (if range_empty need then Some True
      else contains_loop need (drop (rm_find m (r_first need)) m))"

fun rm_contains :: "('a::len word, 'v) rmap \<Rightarrow> ('a word, 'u) rmap \<Rightarrow> bool option" where
  "rm_contains m [] = Some True"
| "rm_contains m ((r, v) # x) =
     do { b \<leftarrow> rm_contains_range m r; if \<not> b then Some False else rm_contains m x }"

text \<open>
  The \<open>const\<close> version of \<open>find_overlap\<close>, restricted to \<open>start = begin()\<close>, \<open>stop = end()\<close> as its callers
  use it. Its first inner loop can run \<open>ia\<close> up to \<open>stop\<close>; the second inner loop then reads
  \<open>ia->first\<close> through the end iterator. The model makes that read a failure, and also a pass of the
  outer loop that advances neither iterator (the code would repeat it forever).
\<close>

function overlap_loop ::
  "('a::len word, 'v) rmap \<Rightarrow> ('a word, 'u) rmap \<Rightarrow> (('a word, 'v) rmap \<times> ('a word, 'u) rmap) option" where
  "overlap_loop ia ib =
     (if ia \<noteq> [] \<and> ib \<noteq> [] \<and> range_distinct (fst (hd ia)) (fst (hd ib)) then
        let ia' = dropWhile (\<lambda>e. left_of (fst e) (fst (hd ib))) ia
        in do { assert_opt (ia' \<noteq> []);
                let ib' = dropWhile (\<lambda>e. left_of (fst e) (fst (hd ia'))) ib
                in if length ia' + length ib' < length ia + length ib
                   then overlap_loop ia' ib' else None }
      else Some (ia, ib))"
  by pat_completeness auto
termination by (relation "measure (\<lambda>(ia, ib). length ia + length ib)") auto

declare overlap_loop.simps [simp del]

definition rm_first_overlap :: "('a::len word, 'v) rmap \<Rightarrow> ('a word, 'u) rmap \<Rightarrow> nat option" where
  "rm_first_overlap m x =
     (if m = [] then Some (length m)
      else do { f \<leftarrow> range_first (fst (hd m));
                (ia, ib) \<leftarrow> overlap_loop m (drop (rm_lower_bound x f) x);
                Some (if ia \<noteq> [] \<and> ib \<noteq> [] \<and> range_overlaps (fst (hd ia)) (fst (hd ib))
                      then length m - length ia else length m) })"

definition rm_overlaps :: "('a::len word, 'v) rmap \<Rightarrow> ('a word, 'u) rmap \<Rightarrow> bool option" where
  "rm_overlaps m x = do { i \<leftarrow> rm_first_overlap m x; Some (i \<noteq> length m) }"

definition rm_distinct :: "('a::len word, 'v) rmap \<Rightarrow> ('a word, 'u) rmap \<Rightarrow> bool option" where
  "rm_distinct m x = do { i \<leftarrow> rm_first_overlap m x; Some (i = length m) }"

section \<open>Operators\<close>

fun invert_loop ::
  "('a::len word, 'u) rm_value_ops \<Rightarrow> 'a word Range \<Rightarrow> ('a word, 'v) rmap \<Rightarrow> 'a word \<Rightarrow>
   ('a word, 'u) rmap \<Rightarrow> ('a word \<times> ('a word, 'u) rmap) option" where
  "invert_loop ops limits [] pending retval = Some (pending, retval)"
| "invert_loop ops limits ((r, v) # ri) pending retval =
     (if left_of limits r then Some (pending, retval)
      else do { f \<leftarrow> range_first r; l \<leftarrow> range_last r;
                retval \<leftarrow> (if pending < f
                            then do { g \<leftarrow> range_inin pending (f - 1);
                                      (m, _) \<leftarrow> rm_insert ops retval g (vo_default ops) True; Some m }
                            else Some retval);
                invert_loop ops limits ri (l + 1) retval })"

definition rm_invert_within ::
  "('a::len word, 'u) rm_value_ops \<Rightarrow> ('a word, 'v) rmap \<Rightarrow> 'a word Range \<Rightarrow> ('a word, 'u) rmap option" where
  "rm_invert_within ops m limits =
     (if range_empty limits then Some []
      else do { (pending, retval) \<leftarrow>
                  invert_loop ops limits (drop (rm_lower_bound m (r_first limits)) m) (r_first limits) [];
                retval \<leftarrow> (if pending \<le> r_last limits
                            then do { g \<leftarrow> range_inin pending (r_last limits);
                                      (m, _) \<leftarrow> rm_insert ops retval g (vo_default ops) True; Some m }
                            else Some retval);
                if \<not> rm_empty retval
                then do { mm \<leftarrow> rm_minmax retval; assert_opt (contained_in mm limits False); Some retval }
                else Some retval })"

definition rm_invert ::
  "('a::len word, 'u) rm_value_ops \<Rightarrow> ('a word, 'v) rmap \<Rightarrow> ('a word, 'u) rmap option" where
  "rm_invert ops m = do { a \<leftarrow> range_all; rm_invert_within ops m a }"

text \<open>\<open>check()\<close>: the relation every element must have with its successor.\<close>

definition check_pair :: "'a::len word Range \<Rightarrow> 'a word Range \<Rightarrow> bool" where
  "check_pair r1 r2 \<longleftrightarrow>
     \<not> range_empty r2 \<and>
     \<not> begins_with r1 r2 \<and> \<not> begins_with r2 r1 \<and> \<not> ends_with r1 r2 \<and> \<not> ends_with r2 r1 \<and>
     \<not> begins_after r1 r2 False \<and> \<not> begins_after r1 r2 True \<and>
     begins_after r2 r1 False \<and> begins_after r2 r1 True \<and>
     begins_before r1 r2 False \<and> begins_before r1 r2 True \<and>
     \<not> begins_before r2 r1 False \<and> \<not> begins_before r2 r1 True \<and>
     \<not> ends_after r1 r2 False \<and> \<not> ends_after r1 r2 True \<and>
     ends_after r2 r1 False \<and> ends_after r2 r1 True \<and>
     ends_before r1 r2 False \<and> ends_before r1 r2 True \<and>
     \<not> ends_before r2 r1 False \<and> \<not> ends_before r2 r1 True \<and>
     \<not> range_contains r1 r2 False \<and> \<not> range_contains r1 r2 True \<and>
     \<not> range_contains r2 r1 False \<and> \<not> range_contains r2 r1 True \<and>
     \<not> contained_in r1 r2 False \<and> \<not> contained_in r1 r2 True \<and>
     \<not> contained_in r2 r1 False \<and> \<not> contained_in r2 r1 True \<and>
     congruent r1 r2 = Some False \<and> congruent r2 r1 = Some False \<and>
     left_of r1 r2 \<and> \<not> left_of r2 r1 \<and> \<not> right_of r1 r2 \<and> right_of r2 r1 \<and>
     \<not> range_overlaps r1 r2 \<and> \<not> range_overlaps r2 r1 \<and>
     range_distinct r1 r2 \<and> range_distinct r2 r1 \<and>
     \<not> abuts_gt r1 r2 \<and> \<not> abuts_lt r2 r1"

fun rm_check :: "('a::len word, 'v) rmap \<Rightarrow> bool" where
  "rm_check [] = True"
| "rm_check [e] = True"
| "rm_check (e1 # e2 # m) = (check_pair (fst e1) (fst e2) \<and> rm_check (e2 # m))"

end
