(* ===== verification/RangeMapCorrect.thy ===== *)
theory RangeMapCorrect
  imports RangeMaps
begin

text \<open>
  Correctness of \<open>RangeMap\<close>. The invariant says that the elements are non-empty ranges in strictly
  increasing order. The contract of the value type is the locale \<open>rm_value\<close>: a value gives every
  address of its range a content, and \<open>truncate\<close>, \<open>split\<close> and \<open>merge\<close> keep these contents. Under it
  \<open>erase\<close> and \<open>insert\<close> never fail an assertion, keep the invariant and act on the contents like
  restriction and override of a partial function.
\<close>

section \<open>Invariant\<close>

definition rm_before :: "'a::len word Range \<times> 'v \<Rightarrow> 'a word Range \<times> 'u \<Rightarrow> bool" where
  "rm_before x y \<longleftrightarrow> r_last (fst x) < r_first (fst y)"

definition rm_ok :: "('a::len word, 'v) rmap \<Rightarrow> bool" where
  "rm_ok m \<longleftrightarrow> sorted_wrt rm_before m \<and> (\<forall>e \<in> set m. \<not> range_empty (fst e))"

definition rm_dom :: "('a::len word, 'v) rmap \<Rightarrow> 'a word set" where
  "rm_dom m = (\<Union>e \<in> set m. set_of (fst e))"

lemma rm_ok_Nil [simp]: "rm_ok []"
  by (simp add: rm_ok_def)

lemma rm_ok_Cons:
  "rm_ok (e # m) \<longleftrightarrow> \<not> range_empty (fst e) \<and> (\<forall>x \<in> set m. rm_before e x) \<and> rm_ok m"
  by (auto simp: rm_ok_def)

lemma rm_ok_append:
  "rm_ok (m1 @ m2) \<longleftrightarrow> rm_ok m1 \<and> rm_ok m2 \<and> (\<forall>x \<in> set m1. \<forall>y \<in> set m2. rm_before x y)"
  by (auto simp: rm_ok_def sorted_wrt_append)

lemma rm_before_last:
  "rm_before x y \<Longrightarrow> \<not> range_empty (fst y) \<Longrightarrow> r_last (fst x) < r_last (fst y)"
  by (auto simp: rm_before_def range_empty_def not_less intro: less_le_trans)

lemma rm_before_disjoint: "rm_before x y \<Longrightarrow> set_of (fst x) \<inter> set_of (fst y) = {}"
  by (auto simp: rm_before_def)

lemma disjoint_cases:
  assumes "\<not> range_empty r" "\<not> range_empty s" "set_of r \<inter> set_of s = {}"
  shows "r_last r < r_first s \<or> r_last s < r_first r"
  using assms distinct_iff_sets [of r s]
  by (auto simp: range_distinct_def range_overlaps_def left_of_def right_of_def)

lemma rm_ok_unique:
  "rm_ok m \<Longrightarrow> e \<in> set m \<Longrightarrow> e' \<in> set m \<Longrightarrow> a \<in> set_of (fst e) \<Longrightarrow> a \<in> set_of (fst e') \<Longrightarrow> e = e'"
proof (induction m)
  case (Cons x m)
  then show ?case using rm_before_disjoint [of x] by (fastforce simp: rm_ok_Cons)
qed simp

lemma map_insert_ok:
  assumes "rm_ok m" "\<not> range_empty r" "\<forall>e \<in> set m. set_of (fst e) \<inter> set_of r = {}"
  shows "rm_ok (map_insert r v m) \<and> set (map_insert r v m) = insert (r, v) (set m)"
  using assms
proof (induction m)
  case (Cons x m)
  obtain k w where x: "x = (k, w)" by fastforce
  have ne: "\<not> range_empty k" and m: "rm_ok m" and bef: "\<forall>y \<in> set m. rm_before x y"
    using Cons.prems by (auto simp: rm_ok_Cons x)
  have IH: "rm_ok (map_insert r v m)" "set (map_insert r v m) = insert (r, v) (set m)"
    using Cons.IH m Cons.prems by auto
  have "r_last k < r_first r \<or> r_last r < r_first k"
    using disjoint_cases [OF ne Cons.prems(2)] Cons.prems(3) by (simp add: x)
  then show ?case
  proof
    assume lt: "r_last k < r_first r"
    then have "r_last k < r_last r" using Cons.prems(2) by (simp add: range_empty_def not_less)
    then show ?thesis using IH ne bef lt by (auto simp: x rm_ok_Cons rm_before_def)
  next
    assume lt: "r_last r < r_first k"
    then have "r_last r < r_last k" using ne by (simp add: range_empty_def not_less)
    moreover have "r_last r < r_first (fst y)" if "y \<in> set m" for y
      using that lt bef ne by (force simp: rm_before_def range_empty_def x)
    ultimately show ?thesis using Cons.prems lt by (auto simp: x rm_ok_Cons rm_before_def)
  qed
qed (simp add: rm_ok_Cons)

lemma map_assign_eq_insert:
  assumes "rm_ok m" "\<not> range_empty r" "\<forall>e \<in> set m. set_of (fst e) \<inter> set_of r = {}"
  shows "map_assign r v m = map_insert r v m"
  using assms
proof (induction m)
  case (Cons x m)
  have "r_last (fst x) < r_first r \<or> r_last r < r_first (fst x)"
    using disjoint_cases Cons.prems by (fastforce simp: rm_ok_Cons)
  then have "r_last (fst x) \<noteq> r_last r"
    using Cons.prems by (auto simp: rm_ok_Cons range_empty_def)
  then show ?case using Cons by (cases x) (auto simp: rm_ok_Cons)
qed simp

lemma map_insert_range_ok:
  assumes "rm_ok xs" "rm_ok m" "\<forall>x \<in> set xs. \<forall>e \<in> set m. set_of (fst e) \<inter> set_of (fst x) = {}"
  shows "rm_ok (map_insert_range xs m) \<and> set (map_insert_range xs m) = set xs \<union> set m"
  using assms
proof (induction xs m rule: map_insert_range.induct)
  case (2 k v xs m)
  have k: "\<not> range_empty k" and xs: "rm_ok xs" using "2.prems" by (auto simp: rm_ok_Cons)
  have ins: "rm_ok (map_insert k v m) \<and> set (map_insert k v m) = insert (k, v) (set m)"
    using "2.prems" k by (intro map_insert_ok) auto
  have "\<forall>x \<in> set xs. set_of k \<inter> set_of (fst x) = {}"
    using "2.prems"(1) rm_before_disjoint by (fastforce simp: rm_ok_Cons)
  then show ?case using "2.IH" [OF xs] ins "2.prems"(3) by auto
qed simp

lemma map_erase_at_ok:
  assumes "rm_ok m" "i < length m"
  shows "rm_ok (map_erase_at i m)" "set (map_erase_at i m) = set m - {m ! i}"
    "\<forall>e \<in> set (map_erase_at i m). set_of (fst e) \<inter> set_of (fst (m ! i)) = {}"
proof -
  let ?a = "take i m" and ?b = "drop (Suc i) m" and ?x = "m ! i"
  have m: "m = ?a @ ?x # ?b" using assms(2) by (rule id_take_nth_drop)
  have ok: "rm_ok (?a @ ?x # ?b)" using assms(1) m by simp
  then show "rm_ok (map_erase_at i m)"
    by (auto simp: map_erase_at_def rm_ok_append rm_ok_Cons)
  have dis: "set_of (fst e) \<inter> set_of (fst ?x) = {}" if "e \<in> set ?a \<union> set ?b" for e
    using that ok rm_before_disjoint [of e ?x] rm_before_disjoint [of ?x e]
    by (auto simp: rm_ok_append rm_ok_Cons)
  then show "\<forall>e \<in> set (map_erase_at i m). set_of (fst e) \<inter> set_of (fst ?x) = {}"
    by (simp add: map_erase_at_def)
  have "set_of (fst ?x) \<noteq> {}"
    using assms by (metis nth_mem rm_ok_def set_of_empty_iff)
  then have "?x \<notin> set ?a \<union> set ?b" using dis by blast
  moreover have "set m = insert ?x (set ?a \<union> set ?b)" by (subst m) simp
  ultimately show "set (map_erase_at i m) = set m - {?x}" by (simp add: map_erase_at_def)
qed

section \<open>Positions\<close>

lemma lower_bound_le: "rm_lower_bound m a \<le> length m"
  by (simp add: rm_lower_bound_def length_takeWhile_le)

lemma take_lower_bound: "e \<in> set (take (rm_lower_bound m a) m) \<Longrightarrow> r_last (fst e) < a"
  by (auto simp: rm_lower_bound_def takeWhile_eq_take [symmetric] dest: set_takeWhileD)

lemma drop_lower_bound:
  assumes "rm_ok m" "e \<in> set (drop (rm_lower_bound m a) m)"
  shows "a \<le> r_last (fst e)"
proof -
  have d: "drop (rm_lower_bound m a) m = dropWhile (\<lambda>e. r_last (fst e) < a) m"
    by (simp add: rm_lower_bound_def dropWhile_eq_drop)
  have ok: "rm_ok (drop (rm_lower_bound m a) m)"
    by (metis append_take_drop_id assms(1) rm_ok_append)
  obtain x xs where xs: "dropWhile (\<lambda>e. r_last (fst e) < a) m = x # xs"
    using assms(2) unfolding d by (cases "dropWhile (\<lambda>e. r_last (fst e) < a) m") auto
  have x: "a \<le> r_last (fst x)"
    using xs hd_dropWhile [of "\<lambda>e. r_last (fst e) < a" m] by fastforce
  show ?thesis
  proof (cases "e = x")
    case False
    then have "rm_before x e" "\<not> range_empty (fst e)"
      using assms(2) ok unfolding d xs by (auto simp: rm_ok_Cons rm_ok_def)
    then show ?thesis using rm_before_last x by (meson less_imp_le order_trans)
  qed (simp add: x)
qed

lemma lower_bound_split:
  assumes "rm_ok m"
  obtains pre post where "m = pre @ post" "rm_lower_bound m a = length pre"
    "\<forall>e \<in> set pre. r_last (fst e) < a" "\<forall>e \<in> set post. a \<le> r_last (fst e)"
proof (rule that)
  let ?i = "rm_lower_bound m a"
  show "m = take ?i m @ drop ?i m" "?i = length (take ?i m)" using lower_bound_le [of m a] by simp_all
qed (use assms take_lower_bound drop_lower_bound in blast)+

lemma find_cases:
  assumes "rm_ok m"
  shows "(rm_find m a < length m \<and> a \<in> set_of (fst (m ! rm_find m a))) \<or>
         (rm_find m a = length m \<and> a \<notin> rm_dom m)"
proof -
  obtain pre post where sp: "m = pre @ post" "rm_lower_bound m a = length pre"
    "\<forall>e \<in> set pre. r_last (fst e) < a" "\<forall>e \<in> set post. a \<le> r_last (fst e)"
    using lower_bound_split [OF assms] by blast
  show ?thesis
  proof (cases post)
    case Nil
    then have "a \<notin> rm_dom m" using sp by (fastforce simp: rm_dom_def)
    then show ?thesis using sp Nil by (simp add: rm_find_def)
  next
    case (Cons x xs)
    have x: "\<not> range_empty (fst x)" "a \<le> r_last (fst x)" "\<forall>y \<in> set xs. rm_before x y"
      using assms sp Cons by (auto simp: rm_ok_append rm_ok_Cons)
    show ?thesis
    proof (cases "a < r_first (fst x)")
      case True
      then have "\<forall>y \<in> set xs. a < r_first (fst y)"
        using x by (fastforce simp: rm_before_def)
      then have "a \<notin> rm_dom m" using sp True Cons by (fastforce simp: rm_dom_def)
      then show ?thesis using sp True Cons x by (simp add: rm_find_def left_of_def)
    next
      case False
      then show ?thesis using sp Cons x by (simp add: rm_find_def left_of_def)
    qed
  qed
qed

lemma find_of_mem:
  assumes "rm_ok m" "e \<in> set m" "a \<in> set_of (fst e)"
  shows "rm_find m a < length m" "m ! rm_find m a = e" "rm_lower_bound m a = rm_find m a"
proof -
  have "a \<in> rm_dom m" using assms unfolding rm_dom_def by blast
  then have f: "rm_find m a < length m" "a \<in> set_of (fst (m ! rm_find m a))"
    using find_cases [OF assms(1), of a] by auto
  then show "rm_find m a < length m" by blast
  from f have "m ! rm_find m a \<in> set m" by simp
  then show "m ! rm_find m a = e" using rm_ok_unique [OF assms(1) _ assms(2)] f(2) assms(3) by blast
  show "rm_lower_bound m a = rm_find m a" using f(1) by (auto simp: rm_find_def Let_def split: if_splits)
qed

lemma overlaps_range_iff:
  assumes "rm_ok m"
  shows "rm_overlaps_range m r \<longleftrightarrow> rm_dom m \<inter> set_of r \<noteq> {}"
proof (cases "range_empty r")
  case True
  then have "set_of r = {}" by (simp only: set_of_empty_iff)
  with True show ?thesis by (simp add: rm_overlaps_range_def)
next
  case ne: False
  obtain pre post where sp: "m = pre @ post" "rm_lower_bound m (r_first r) = length pre"
    "\<forall>e \<in> set pre. r_last (fst e) < r_first r" "\<forall>e \<in> set post. r_first r \<le> r_last (fst e)"
    using lower_bound_split [OF assms] by blast
  have pre: "rm_dom pre \<inter> set_of r = {}" using sp(3) by (fastforce simp: rm_dom_def)
  have dom: "rm_dom m = rm_dom pre \<union> rm_dom post" by (simp add: sp(1) rm_dom_def)
  show ?thesis
  proof (cases post)
    case Nil
    then show ?thesis using sp pre dom ne by (simp add: rm_overlaps_range_def rm_dom_def)
  next
    case (Cons x xs)
    have o: "rm_overlaps_range m r \<longleftrightarrow> set_of r \<inter> set_of (fst x) \<noteq> {}"
      using sp Cons ne by (simp add: rm_overlaps_range_def Let_def overlaps_iff_sets)
    show ?thesis
    proof (cases "set_of r \<inter> set_of (fst x) = {}")
      case True
      then have x: "\<not> range_empty (fst x)" "r_last r < r_first (fst x)" "\<forall>y \<in> set xs. rm_before x y"
        using disjoint_cases [OF ne _ True] sp assms Cons by (auto simp: rm_ok_append rm_ok_Cons)
      then have "\<forall>y \<in> set xs. r_last r < r_first (fst y)"
        by (fastforce simp: rm_before_def range_empty_def)
      then have "rm_dom xs \<inter> set_of r = {}" by (fastforce simp: rm_dom_def)
      then show ?thesis using o True pre Cons dom by (auto simp: rm_dom_def simp del: mem_set_of)
    next
      case False
      then show ?thesis using o dom Cons by (auto simp: rm_dom_def simp del: mem_set_of)
    qed
  qed
qed

lemma dropWhile_left_of:
  assumes "rm_ok m" "e \<in> set (dropWhile (\<lambda>e. \<not> left_of er (fst e)) m)"
  shows "r_last er < r_first (fst e)"
proof -
  let ?d = "dropWhile (\<lambda>e. \<not> left_of er (fst e)) m"
  obtain x xs where xs: "?d = x # xs" using assms(2) by (cases ?d) auto
  then have x: "r_last er < r_first (fst x)"
    using hd_dropWhile [of "\<lambda>e. \<not> left_of er (fst e)" m] by (auto simp: left_of_def split: if_splits)
  have "rm_ok ?d" by (metis assms(1) rm_ok_append takeWhile_dropWhile_id)
  then show ?thesis using assms(2) x unfolding xs
    by (auto simp: rm_ok_Cons rm_before_def range_empty_def not_less intro: less_trans le_less_trans less_le_trans)
qed

section \<open>The contract of the values\<close>

text \<open>
  \<open>cell r v a\<close> is what the value \<open>v\<close> of the range \<open>r\<close> associates with the address \<open>a\<close> of \<open>r\<close>, and \<open>vok r v\<close>
  says that \<open>v\<close> is a sound value for \<open>r\<close>.
\<close>

definition rm_cells ::
  "('a::len word Range \<Rightarrow> 'v \<Rightarrow> 'a word \<Rightarrow> 'c) \<Rightarrow> ('a word Range \<times> 'v) set \<Rightarrow> ('a word \<times> 'c) set" where
  "rm_cells cell S = {(a, cell r v a) | a r v. (r, v) \<in> S \<and> a \<in> set_of r}"

definition rm_inv ::
  "('a::len word Range \<Rightarrow> 'v \<Rightarrow> bool) \<Rightarrow> ('a word, 'v) rmap \<Rightarrow> bool" where
  "rm_inv vok m \<longleftrightarrow> rm_ok m \<and> (\<forall>e \<in> set m. vok (fst e) (snd e))"

definition rm_lookup ::
  "('a::len word Range \<Rightarrow> 'v \<Rightarrow> 'a word \<Rightarrow> 'c) \<Rightarrow> ('a word, 'v) rmap \<Rightarrow> 'a word \<Rightarrow> 'c option" where
  "rm_lookup cell m a =
     (if rm_find m a = length m then None
      else Some (cell (fst (m ! rm_find m a)) (snd (m ! rm_find m a)) a))"

lemma rm_cells_simps [simp]:
  "rm_cells c {} = {}" "rm_cells c (insert (r, v) S) = {(a, c r v a) | a. a \<in> set_of r} \<union> rm_cells c S"
  "rm_cells c (S \<union> T) = rm_cells c S \<union> rm_cells c T"
  by (auto simp: rm_cells_def)

lemma cells_in_dom: "(a, x) \<in> rm_cells c (set m) \<Longrightarrow> a \<in> rm_dom m"
  by (auto simp: rm_cells_def rm_dom_def simp del: mem_set_of intro: bexI [rotated])

lemma rm_lookup_iff:
  assumes "rm_ok m"
  shows "rm_lookup c m a = Some x \<longleftrightarrow> (a, x) \<in> rm_cells c (set m)"
  using find_cases [OF assms, of a]
proof
  let ?e = "m ! rm_find m a"
  assume f: "rm_find m a < length m \<and> a \<in> set_of (fst ?e)"
  then have "?e \<in> set m" by simp
  then have "(r, v) = ?e" if "(r, v) \<in> set m" "a \<in> set_of r" for r v
    using rm_ok_unique [OF assms, of ?e "(r, v)" a] f that by simp
  note u = this
  have mem: "(fst ?e, snd ?e) \<in> set m" using \<open>?e \<in> set m\<close> by simp
  have "(a, x) \<in> rm_cells c (set m) \<longleftrightarrow> x = c (fst ?e) (snd ?e) a"
  proof
    assume "(a, x) \<in> rm_cells c (set m)"
    then obtain r v where "(r, v) \<in> set m" "a \<in> set_of r" "x = c r v a"
      unfolding rm_cells_def by blast
    with u show "x = c (fst ?e) (snd ?e) a" by (metis fst_conv snd_conv)
  qed (use mem f in \<open>unfold rm_cells_def, blast\<close>)
  then show ?thesis using f by (auto simp: rm_lookup_def)
next
  assume "rm_find m a = length m \<and> a \<notin> rm_dom m"
  then show ?thesis by (fastforce simp: rm_lookup_def rm_cells_def rm_dom_def)
qed

locale rm_value =
  fixes ops :: "('a::len word, 'v) rm_value_ops"
    and vok :: "'a word Range \<Rightarrow> 'v \<Rightarrow> bool"
    and cell :: "'a word Range \<Rightarrow> 'v \<Rightarrow> 'a word \<Rightarrow> 'c"
  assumes removing_total: "\<not> range_empty r \<Longrightarrow> vok r v \<Longrightarrow> \<exists>v'. vo_removing ops r v = Some v'"
    and truncate_law: "r_first r < e \<Longrightarrow> e \<le> r_last r \<Longrightarrow> vok r v \<Longrightarrow>
      \<exists>v'. vo_truncate ops r e v = Some v' \<and> vok \<lparr>r_first = r_first r, r_last = e - 1\<rparr> v' \<and>
        (\<forall>a. r_first r \<le> a \<and> a < e \<longrightarrow>
           cell \<lparr>r_first = r_first r, r_last = e - 1\<rparr> v' a = cell r v a)"
    and split_law: "r_first r < e \<Longrightarrow> e \<le> r_last r \<Longrightarrow> vok r v \<Longrightarrow>
      \<exists>v1 v2. vo_split ops r e v = Some (v1, v2) \<and>
        vok \<lparr>r_first = r_first r, r_last = e - 1\<rparr> v1 \<and> vok \<lparr>r_first = e, r_last = r_last r\<rparr> v2 \<and>
        (\<forall>a. r_first r \<le> a \<and> a < e \<longrightarrow>
           cell \<lparr>r_first = r_first r, r_last = e - 1\<rparr> v1 a = cell r v a) \<and>
        (\<forall>a. e \<le> a \<and> a \<le> r_last r \<longrightarrow> cell \<lparr>r_first = e, r_last = r_last r\<rparr> v2 a = cell r v a)"
    and merge_left_law: "abuts_lt s r \<Longrightarrow> r_first r \<noteq> 0 \<Longrightarrow> vok r v \<Longrightarrow> vok s w \<Longrightarrow>
      \<exists>b v'. vo_merge ops r s v w = Some (b, v') \<and>
        (if b then vok \<lparr>r_first = r_first s, r_last = r_last r\<rparr> v' \<and>
           (\<forall>a \<in> set_of r. cell \<lparr>r_first = r_first s, r_last = r_last r\<rparr> v' a = cell r v a) \<and>
           (\<forall>a \<in> set_of s. cell \<lparr>r_first = r_first s, r_last = r_last r\<rparr> v' a = cell s w a)
         else vok r v' \<and> (\<forall>a \<in> set_of r. cell r v' a = cell r v a))"
    and merge_right_law: "abuts_lt r s \<Longrightarrow> r_first s \<noteq> 0 \<Longrightarrow> vok r v \<Longrightarrow> vok s w \<Longrightarrow>
      \<exists>b v'. vo_merge ops r s v w = Some (b, v') \<and>
        (if b then vok \<lparr>r_first = r_first r, r_last = r_last s\<rparr> v' \<and>
           (\<forall>a \<in> set_of r. cell \<lparr>r_first = r_first r, r_last = r_last s\<rparr> v' a = cell r v a) \<and>
           (\<forall>a \<in> set_of s. cell \<lparr>r_first = r_first r, r_last = r_last s\<rparr> v' a = cell s w a)
         else vok r v' \<and> (\<forall>a \<in> set_of r. cell r v' a = cell r v a))"
begin

abbreviation cells where "cells \<equiv> rm_cells cell"

text \<open>One pass of the loop of \<open>erase\<close> replaces the element by what lies outside the erased range.\<close>

lemma erase_step_residual:
  assumes er: "\<not> range_empty er" and fr: "\<not> range_empty fr" "vok fr v"
    and ov: "r_first er \<le> r_last fr" "r_first fr \<le> r_last er"
    and first: "eb = en \<or> r_first er \<le> r_first fr"
    and ins: "rm_ok ins" "\<forall>e \<in> set ins. r_last (fst e) < r_first fr"
  shows "\<exists>ins' F. erase_step ops er en ei fr v eb ins = Some (if eb = en then ei else eb, ins') \<and>
    rm_ok ins' \<and> set ins' = set ins \<union> F \<and> (\<forall>e \<in> F. vok (fst e) (snd e)) \<and>
    (\<forall>e \<in> F. set_of (fst e) \<subseteq> set_of fr) \<and>
    cells F = {(a, cell fr v a) | a. a \<in> set_of fr \<and> a \<notin> set_of er}"
proof -
  note ne = er [unfolded range_empty_def not_less] fr(1) [unfolded range_empty_def not_less]
  have put: "rm_ok (map_assign r w ins) \<and> set (map_assign r w ins) = insert (r, w) (set ins)"
    if "r_first fr \<le> r_first r" "r_first r \<le> r_last r" for r w
  proof -
    have "\<forall>e \<in> set ins. set_of (fst e) \<inter> set_of r = {}" using ins(2) that by fastforce
    then show ?thesis using map_insert_ok map_assign_eq_insert ins(1) that
      by (metis not_empty_le)
  qed
  consider (whole) "r_first er \<le> r_first fr" "r_last fr \<le> r_last er"
    | (middle) "r_first fr < r_first er" "r_last er < r_last fr"
    | (right) "r_first fr < r_first er" "r_last fr \<le> r_last er"
    | (left) "r_first er \<le> r_first fr" "r_last er < r_last fr"
    by fastforce
  then show ?thesis
  proof cases
    case whole
    then show ?thesis using er fr ins removing_total [OF fr]
      by (intro exI [of _ ins] exI [of _ "{}"])
        (auto simp: erase_step_def range_contains_def intro: order_trans)
  next
    case middle
    note w = word_succ_iffs [OF middle(2)] word_pred_iffs [OF middle(1)]
    let ?L = "\<lparr>r_first = r_first fr, r_last = r_last er\<rparr>"
    let ?R = "\<lparr>r_first = r_last er + 1, r_last = r_last fr\<rparr>"
    let ?LL = "\<lparr>r_first = r_first fr, r_last = r_first er - 1\<rparr>"
    have lt: "r_first fr < r_last er + 1" "r_last er + 1 \<le> r_last fr" using w ov middle by auto
    obtain v1 v2 where s: "vo_split ops fr (r_last er + 1) v = Some (v1, v2)" "vok ?L v1" "vok ?R v2"
      "\<forall>a. r_first fr \<le> a \<and> a \<le> r_last er \<longrightarrow> cell ?L v1 a = cell fr v a"
      "\<forall>a. r_last er < a \<and> a \<le> r_last fr \<longrightarrow> cell ?R v2 a = cell fr v a"
      using split_law [OF lt fr(2)] by (auto simp: w)
    obtain v3 where t: "vo_truncate ops ?L (r_first er) v1 = Some v3" "vok ?LL v3"
      "\<forall>a. r_first fr \<le> a \<and> a < r_first er \<longrightarrow> cell ?LL v3 a = cell ?L v1 a"
      using truncate_law [of ?L "r_first er" v1] s(2) middle ne by auto
    have step: "erase_step ops er en ei fr v eb ins =
        Some (ei, map_assign ?LL v3 (map_assign ?R v2 ins))"
    proof -
      have "range_split_at fr (r_last er + 1) = Some (?L, ?R)" using split_at_Some [OF lt] by simp
      moreover have "range_split_at ?L (r_first er) = Some (?LL, \<lparr>r_first = r_first er, r_last = r_last er\<rparr>)"
        using split_at_Some [of ?L "r_first er"] middle ne by simp
      moreover have "range_first ?R = Some (r_last er + 1)" using lt by (simp add: range_first_def not_less)
      ultimately show ?thesis using middle first er fr s(1) t(1)
        by (auto simp: erase_step_def range_contains_def contained_in_def)
    qed
    have R: "rm_ok (map_assign ?R v2 ins)" "set (map_assign ?R v2 ins) = insert (?R, v2) (set ins)"
      using put [of ?R v2] lt by auto
    have dis: "\<forall>e \<in> set (map_assign ?R v2 ins). set_of (fst e) \<inter> set_of ?LL = {}"
      using R(2) ins(2) w middle ne by fastforce
    have ne': "\<not> range_empty ?LL" using middle w by simp
    have LL: "rm_ok (map_assign ?LL v3 (map_assign ?R v2 ins))"
      "set (map_assign ?LL v3 (map_assign ?R v2 ins)) = {(?LL, v3), (?R, v2)} \<union> set ins"
      using map_insert_ok [OF R(1) ne' dis, of v3] map_assign_eq_insert [OF R(1) ne' dis, of v3] R(2) by auto
    have "cells {(?LL, v3), (?R, v2)} = {(a, cell fr v a) | a. a \<in> set_of fr \<and> a \<notin> set_of er}"
      using s(4,5) t(3) w middle ne by auto
    then show ?thesis using step LL s(3) t(2) first middle w lt ov(1)
      by (intro exI [of _ "map_assign ?LL v3 (map_assign ?R v2 ins)"] exI [of _ "{(?LL, v3), (?R, v2)}"]) auto
  next
    case right
    note w = word_pred_iffs [OF right(1)]
    let ?L = "\<lparr>r_first = r_first fr, r_last = r_first er - 1\<rparr>"
    obtain v1 where t: "vo_truncate ops fr (r_first er) v = Some v1" "vok ?L v1"
      "\<forall>a. r_first fr \<le> a \<and> a < r_first er \<longrightarrow> cell ?L v1 a = cell fr v a"
      using truncate_law [OF right(1) ov(1) fr(2)] by auto
    have step: "erase_step ops er en ei fr v eb ins = Some (ei, map_assign ?L v1 ins)"
      using split_at_Some [OF right(1) ov(1)] right first er fr t(1)
      by (auto simp: erase_step_def range_contains_def contained_in_def begins_after_def)
    have L: "rm_ok (map_assign ?L v1 ins)" "set (map_assign ?L v1 ins) = {(?L, v1)} \<union> set ins"
      using put [of ?L v1] right w by auto
    have "cells {(?L, v1)} = {(a, cell fr v a) | a. a \<in> set_of fr \<and> a \<notin> set_of er}"
      using t(3) w right ne ov by auto
    then show ?thesis using step L t(2) first right w ov(1)
      by (intro exI [of _ "map_assign ?L v1 ins"] exI [of _ "{(?L, v1)}"]) auto
  next
    case left
    note w = word_succ_iffs [OF left(2)]
    let ?L = "\<lparr>r_first = r_first fr, r_last = r_last er\<rparr>"
    let ?R = "\<lparr>r_first = r_last er + 1, r_last = r_last fr\<rparr>"
    have lt: "r_first fr < r_last er + 1" "r_last er + 1 \<le> r_last fr" using w ov left by auto
    obtain v1 v2 where s: "vo_split ops fr (r_last er + 1) v = Some (v1, v2)" "vok ?L v1" "vok ?R v2"
      "\<forall>a. r_last er < a \<and> a \<le> r_last fr \<longrightarrow> cell ?R v2 a = cell fr v a"
      using split_law [OF lt fr(2)] by (auto simp: w)
    obtain v3 where rem: "vo_removing ops ?L v1 = Some v3"
      using removing_total [of ?L v1] s(2) ov(2) by (auto simp: not_less)
    have "range_first ?R = Some (r_last er + 1)" using lt by (simp add: range_first_def not_less)
    then have step: "erase_step ops er en ei fr v eb ins =
        Some (if eb = en then ei else eb, map_assign ?R v2 ins)"
      using split_at_Some [OF lt] left er fr s(1) rem
      by (auto simp: erase_step_def range_contains_def contained_in_def begins_after_def ends_before_def)
    have R: "rm_ok (map_assign ?R v2 ins)" "set (map_assign ?R v2 ins) = {(?R, v2)} \<union> set ins"
      using put [of ?R v2] lt by auto
    have "cells {(?R, v2)} = {(a, cell fr v a) | a. a \<in> set_of fr \<and> a \<notin> set_of er}"
      using s(4) w left ne ov by auto
    then show ?thesis using step R s(3) left w lt
      by (intro exI [of _ "map_assign ?R v2 ins"] exI [of _ "{(?R, v2)}"]) auto
  qed
qed

lemma erase_loop_residual:
  assumes er: "\<not> range_empty er"
    and rest: "rm_inv vok rest" "\<forall>e \<in> set rest. r_first er \<le> r_last (fst e)"
    and first: "eb = en \<or> (\<forall>e \<in> set rest. r_first er \<le> r_first (fst e))"
    and ins: "rm_ok ins" "\<forall>e \<in> set ins. \<forall>x \<in> set rest. r_last (fst e) < r_first (fst x)"
    and en: "ei + length rest = en"
    and vis: "vis = takeWhile (\<lambda>e. \<not> left_of er (fst e)) rest"
  shows "\<exists>ins' F. erase_loop ops er en ei rest eb ins =
      Some (if vis = [] \<or> eb \<noteq> en then eb else ei, ei + length vis, ins') \<and>
    rm_ok ins' \<and> set ins' = set ins \<union> F \<and> (\<forall>e \<in> F. vok (fst e) (snd e)) \<and>
    (\<forall>e \<in> F. \<exists>x \<in> set vis. set_of (fst e) \<subseteq> set_of (fst x)) \<and>
    cells F = {(a, x) \<in> cells (set vis). a \<notin> set_of er}"
  using rest first ins en vis
proof (induction rest arbitrary: ei eb ins vis)
  case Nil
  then show ?case by (intro exI [of _ ins] exI [of _ "{}"]) simp
next
  case (Cons y rest)
  obtain fr v where y: "y = (fr, v)" by fastforce
  have fr: "\<not> range_empty fr" "vok fr v" and inv: "rm_inv vok rest"
    and bef: "\<forall>x \<in> set rest. r_last fr < r_first (fst x)"
    using Cons.prems(1) by (auto simp: rm_inv_def rm_ok_Cons y rm_before_def)
  show ?case
  proof (cases "left_of er fr")
    case True
    then show ?thesis using Cons.prems
      by (intro exI [of _ ins] exI [of _ "{}"]) (simp add: y)
  next
    case False
    then have ov: "r_first er \<le> r_last fr" "r_first fr \<le> r_last er"
      using Cons.prems(2) er fr by (auto simp: left_of_def y not_less)
    obtain ins1 F1 where step: "erase_step ops er en ei fr v eb ins = Some (if eb = en then ei else eb, ins1)"
      and F1: "rm_ok ins1" "set ins1 = set ins \<union> F1" "\<forall>e \<in> F1. vok (fst e) (snd e)"
        "\<forall>e \<in> F1. set_of (fst e) \<subseteq> set_of fr"
        "cells F1 = {(a, cell fr v a) | a. a \<in> set_of fr \<and> a \<notin> set_of er}"
      using erase_step_residual [OF er fr ov, of eb en ins ei] Cons.prems(3,4,5) by (auto simp: y)
    have "r_last (fst e) \<le> r_last fr" if "e \<in> F1" for e
    proof -
      have "\<not> range_empty (fst e)" using F1(1,2) that by (auto simp: rm_ok_def)
      then have "r_last (fst e) \<in> set_of fr" using F1(4) that not_empty_le [of "fst e"]
        by (metis (no_types, lifting) mem_set_of order_refl subsetD)
      then show ?thesis by simp
    qed
    then have ins1: "\<forall>e \<in> set ins1. \<forall>x \<in> set rest. r_last (fst e) < r_first (fst x)"
      using F1(2) bef Cons.prems(5) by (fastforce simp: y)
    have "\<forall>e \<in> set rest. r_first er \<le> r_first (fst e)" using ov bef by fastforce
    then obtain ins' F where IH:
      "erase_loop ops er en (Suc ei) rest (if eb = en then ei else eb) ins1 =
         Some (if eb = en then ei else eb,
               Suc ei + length (takeWhile (\<lambda>e. \<not> left_of er (fst e)) rest), ins')"
      "rm_ok ins'" "set ins' = set ins1 \<union> F" "\<forall>e \<in> F. vok (fst e) (snd e)"
      "\<forall>e \<in> F. \<exists>x \<in> set (takeWhile (\<lambda>e. \<not> left_of er (fst e)) rest). set_of (fst e) \<subseteq> set_of (fst x)"
      "cells F = {(a, x) \<in> cells (set (takeWhile (\<lambda>e. \<not> left_of er (fst e)) rest)). a \<notin> set_of er}"
      using Cons.IH [OF inv, of "if eb = en then ei else eb" ins1 "Suc ei", OF _ _ F1(1) ins1 _ refl]
        Cons.prems(2,6) by (force split: if_splits)
    have vis: "vis = y # takeWhile (\<lambda>e. \<not> left_of er (fst e)) rest"
      using Cons.prems(7) False by (simp add: y)
    show ?thesis
      using step IH F1 False
      by (intro exI [of _ ins'] exI [of _ "F1 \<union> F"]) (auto simp: vis y)
  qed
qed

lemma erase_correct:
  assumes "rm_inv vok m"
  shows "\<exists>m'. rm_erase ops m er = Some m' \<and> rm_inv vok m' \<and>
    cells (set m') = {(a, x) \<in> cells (set m). a \<notin> set_of er}"
proof (cases "range_empty er")
  case True
  then have "set_of er = {}" by (simp only: set_of_empty_iff)
  with True assms show ?thesis by (auto simp: rm_erase_def)
next
  case False
  have ok: "rm_ok m" using assms by (simp add: rm_inv_def)
  obtain pre rest where sp: "m = pre @ rest" "rm_lower_bound m (r_first er) = length pre"
    "\<forall>e \<in> set pre. r_last (fst e) < r_first er" "\<forall>e \<in> set rest. r_first er \<le> r_last (fst e)"
    using lower_bound_split [OF ok] by blast
  define vis where "vis = takeWhile (\<lambda>e. \<not> left_of er (fst e)) rest"
  define post where "post = dropWhile (\<lambda>e. \<not> left_of er (fst e)) rest"
  have rest: "rest = vis @ post" by (simp add: vis_def post_def)
  have okp: "rm_ok (pre @ post)" "rm_inv vok rest"
    and bef: "\<forall>x \<in> set pre. \<forall>y \<in> set vis. rm_before x y" "\<forall>x \<in> set vis. \<forall>y \<in> set post. rm_before x y"
    using assms by (auto simp: rm_inv_def sp(1) rest rm_ok_append)
  have nil: "\<forall>e \<in> set ([] :: ('a word, 'v) rmap). \<forall>x \<in> set rest. r_last (fst e) < r_first (fst x)"
    and len: "length pre + length rest = length m" by (simp_all add: sp(1))
  note L = erase_loop_residual [OF False okp(2) sp(4) disjI1 [OF refl] rm_ok_Nil nil len vis_def]
  obtain ins where loop: "erase_loop ops er (length m) (length pre) rest (length m) [] =
      Some (if vis = [] then length m else length pre, length pre + length vis, ins)"
    and F: "rm_ok ins" "\<forall>e \<in> set ins. vok (fst e) (snd e)"
      "\<forall>e \<in> set ins. \<exists>x \<in> set vis. set_of (fst e) \<subseteq> set_of (fst x)"
      "cells (set ins) = {(a, x) \<in> cells (set vis). a \<notin> set_of er}"
    using L by (auto simp only: list.set sup_bot_left simp_thms)
  have m1: "(if (if vis = [] then length m else length pre) \<noteq> length m
      then map_erase_between (if vis = [] then length m else length pre) (length pre + length vis) m
      else m) = pre @ post"
    by (simp add: map_erase_between_def sp(1) rest)
  have erase: "rm_erase ops m er = Some (map_insert_range ins (pre @ post))"
    using False loop m1 by (simp add: rm_erase_def sp(2) Let_def) (simp add: sp(1))
  have "set_of (fst e) \<inter> set_of (fst y) = {}" if "e \<in> set (pre @ post)" "y \<in> set vis" for e y
    using that bef rm_before_disjoint [of e y] rm_before_disjoint [of y e] by auto
  then have "\<forall>x \<in> set ins. \<forall>e \<in> set (pre @ post). set_of (fst e) \<inter> set_of (fst x) = {}"
    using F(3) by (metis (no_types, lifting) disjoint_iff subset_iff)
  then have res: "rm_ok (map_insert_range ins (pre @ post))"
    "set (map_insert_range ins (pre @ post)) = set ins \<union> set pre \<union> set post"
    using map_insert_range_ok [OF F(1) okp(1)] by auto
  have pre: "a \<notin> set_of er" if "(a, x) \<in> cells (set pre)" for a x
    using that sp(3) by (fastforce simp: rm_cells_def)
  have post: "a \<notin> set_of er" if "(a, x) \<in> cells (set post)" for a x
    using that dropWhile_left_of [of rest _ er] okp(2)
    by (fastforce simp: rm_cells_def post_def rm_inv_def)
  show ?thesis using erase res F(2) assms
    by (intro exI [of _ "map_insert_range ins (pre @ post)"])
      (auto simp: rm_inv_def sp(1) rest F(4) dest: pre post)
qed

text \<open>Merging moves an adjacent element of the map into the new element.\<close>

definition insert_ready :: "('a word, 'v) rmap \<Rightarrow> 'a word Range \<Rightarrow> 'v \<Rightarrow> bool" where
  "insert_ready m nr nv \<longleftrightarrow> rm_inv vok m \<and> \<not> range_empty nr \<and> vok nr nv \<and>
     (\<forall>e \<in> set m. set_of (fst e) \<inter> set_of nr = {})"

lemma absorb:
  assumes "insert_ready m nr nv" "i < length m"
    and J: "\<not> range_empty J" "set_of J = set_of (fst (m ! i)) \<union> set_of nr" "vok J v'"
      "\<forall>a \<in> set_of nr. cell J v' a = cell nr nv a"
      "\<forall>a \<in> set_of (fst (m ! i)). cell J v' a = cell (fst (m ! i)) (snd (m ! i)) a"
  shows "insert_ready (map_erase_at i m) J v' \<and>
    cells (insert (J, v') (set (map_erase_at i m))) = cells (insert (nr, nv) (set m)) \<and>
    set_of nr \<subseteq> set_of J"
proof -
  have ok: "rm_ok m" using assms(1) by (simp add: insert_ready_def rm_inv_def)
  note er = map_erase_at_ok [OF ok assms(2)]
  have rdy: "insert_ready (map_erase_at i m) J v'"
    using assms(1) J(1,2,3) er by (auto simp: insert_ready_def rm_inv_def)
  obtain s w where mi: "m ! i = (s, w)" by fastforce
  have "cells {(J, v')} = cells {(nr, nv)} \<union> cells {(s, w)}"
    using J(2,4,5) by (auto simp: mi simp del: mem_set_of)
  moreover have "set m = insert (s, w) (set m - {m ! i})"
    using nth_mem [OF assms(2)] by (auto simp: mi)
  ultimately have "cells (insert (J, v') (set m - {m ! i})) = cells (insert (nr, nv) (set m))"
    by (metis (no_types, lifting) insert_is_Un rm_cells_simps(3) sup_assoc)
  then show ?thesis using rdy J(2) er(2) by auto
qed

lemma merge_left_ok:
  assumes "insert_ready m nr nv"
  shows "\<exists>m' nr' nv'. merge_left ops m nr nv = Some (m', nr', nv') \<and> insert_ready m' nr' nv' \<and>
    cells (insert (nr', nv') (set m')) = cells (insert (nr, nv) (set m)) \<and> set_of nr \<subseteq> set_of nr'"
proof -
  have inv: "rm_ok m" "vok nr nv" using assms by (auto simp: insert_ready_def rm_inv_def)
  define i where "i = (if r_first nr > range_minimum then rm_find m (r_first nr - 1) else length m)"
  show ?thesis
  proof (cases "i \<noteq> length m \<and> abuts_gt nr (fst (m ! i))")
    case False
    then have "merge_left ops m nr nv = Some (m, nr, nv)" by (auto simp: merge_left_def i_def [symmetric] Let_def)
    then show ?thesis using assms by blast
  next
    case True
    obtain s w where mi: "m ! i = (s, w)" by fastforce
    have i: "i < length m" "r_first nr \<noteq> 0"
      using True find_cases [OF inv(1), of "r_first nr - 1"]
      by (auto simp: i_def range_minimum_def word_neq_0_conv split: if_splits)
    have ab: "abuts_lt s nr" using True by (auto simp: mi abuts_gt_def abuts_lt_def split: if_splits)
    have sw: "vok s w" using assms i(1) nth_mem [of i m] by (force simp: insert_ready_def rm_inv_def mi)
    note join = join_sets [OF ab i(2)]
    let ?J = "\<lparr>r_first = r_first s, r_last = r_last nr\<rparr>"
    obtain b v' where mg: "vo_merge ops nr s nv w = Some (b, v')"
      and law: "if b then vok ?J v' \<and> (\<forall>a \<in> set_of nr. cell ?J v' a = cell nr nv a) \<and>
          (\<forall>a \<in> set_of s. cell ?J v' a = cell s w a)
        else vok nr v' \<and> (\<forall>a \<in> set_of nr. cell nr v' a = cell nr nv a)"
      using merge_left_law [OF ab i(2) inv(2) sw] by blast
    show ?thesis
    proof (cases b)
      case False
      then have "merge_left ops m nr nv = Some (m, nr, v')"
        using True mg by (simp add: merge_left_def i_def [symmetric] Let_def mi)
      moreover have "insert_ready m nr v'" using assms law False by (simp add: insert_ready_def)
      moreover have "cells (insert (nr, v') (set m)) = cells (insert (nr, nv) (set m))"
        using law False by auto
      ultimately show ?thesis by blast
    next
      case b: True
      then have "merge_left ops m nr nv = Some (map_erase_at i m, ?J, v')"
        using True mg join(1) by (simp add: merge_left_def i_def [symmetric] Let_def mi)
      moreover have "\<not> range_empty ?J" using join(2,3) by (metis left_of_def set_of_empty_iff sup_eq_bot_iff)
      ultimately show ?thesis
        using absorb [OF assms i(1), of ?J v'] law b join(2) unfolding mi fst_conv snd_conv by metis
    qed
  qed
qed

lemma merge_right_ok:
  assumes "insert_ready m nr nv"
  shows "\<exists>m' nr' nv'. merge_right ops m nr nv = Some (m', nr', nv') \<and> insert_ready m' nr' nv' \<and>
    cells (insert (nr', nv') (set m')) = cells (insert (nr, nv) (set m)) \<and> set_of nr \<subseteq> set_of nr'"
proof -
  have inv: "rm_ok m" "vok nr nv" using assms by (auto simp: insert_ready_def rm_inv_def)
  define i where "i = (if r_last nr < range_maximum then rm_find m (r_last nr + 1) else length m)"
  show ?thesis
  proof (cases "i \<noteq> length m \<and> abuts_lt nr (fst (m ! i))")
    case False
    then have "merge_right ops m nr nv = Some (m, nr, nv)" by (auto simp: merge_right_def i_def [symmetric] Let_def)
    then show ?thesis using assms by blast
  next
    case True
    obtain s w where mi: "m ! i = (s, w)" by fastforce
    have ab: "abuts_lt nr s" using True by (simp add: mi)
    have lt: "r_last nr < range_maximum" and i: "i < length m"
      using True find_cases [OF inv(1), of "r_last nr + 1"] by (auto simp: i_def split: if_splits)
    have "r_last nr + 1 = r_first s" using ab by (auto simp: abuts_lt_def split: if_splits)
    then have i: "i < length m" "r_first s \<noteq> 0" using word_succ_iffs(3) [OF lt] i by simp_all
    have sw: "vok s w" using assms i(1) nth_mem [of i m] by (force simp: insert_ready_def rm_inv_def mi)
    note join = join_sets [OF ab i(2)]
    let ?J = "\<lparr>r_first = r_first nr, r_last = r_last s\<rparr>"
    obtain b v' where mg: "vo_merge ops nr s nv w = Some (b, v')"
      and law: "if b then vok ?J v' \<and> (\<forall>a \<in> set_of nr. cell ?J v' a = cell nr nv a) \<and>
          (\<forall>a \<in> set_of s. cell ?J v' a = cell s w a)
        else vok nr v' \<and> (\<forall>a \<in> set_of nr. cell nr v' a = cell nr nv a)"
      using merge_right_law [OF ab i(2) inv(2) sw] by blast
    show ?thesis
    proof (cases b)
      case False
      then have "merge_right ops m nr nv = Some (m, nr, v')"
        using True mg by (simp add: merge_right_def i_def [symmetric] Let_def mi)
      moreover have "insert_ready m nr v'" using assms law False by (simp add: insert_ready_def)
      moreover have "cells (insert (nr, v') (set m)) = cells (insert (nr, nv) (set m))"
        using law False by auto
      ultimately show ?thesis by blast
    next
      case b: True
      then have "merge_right ops m nr nv = Some (map_erase_at i m, ?J, v')"
        using True mg join(1) by (simp add: merge_right_def i_def [symmetric] Let_def mi)
      moreover have "\<not> range_empty ?J" using join(2,3) by (metis left_of_def set_of_empty_iff sup_eq_bot_iff)
      ultimately show ?thesis
        using absorb [OF assms i(1), of ?J v'] law b join(2) unfolding mi fst_conv snd_conv
        by (metis Un_commute)
    qed
  qed
qed

lemma insert_tail:
  assumes "insert_ready m nr nv"
  shows "\<exists>m1 nr1 nv1 m2 nr2 nv2. merge_left ops m nr nv = Some (m1, nr1, nv1) \<and>
    merge_right ops m1 nr1 nv1 = Some (m2, nr2, nv2) \<and>
    rm_inv vok (map_insert nr2 nv2 m2) \<and>
    cells (set (map_insert nr2 nv2 m2)) = cells (insert (nr, nv) (set m)) \<and>
    (let i = rm_lower_bound (map_insert nr2 nv2 m2) (r_last nr2)
     in i < length (map_insert nr2 nv2 m2) \<and> set_of nr \<subseteq> set_of (fst (map_insert nr2 nv2 m2 ! i)))"
proof -
  obtain m1 nr1 nv1 where 1: "merge_left ops m nr nv = Some (m1, nr1, nv1)" "insert_ready m1 nr1 nv1"
    "cells (insert (nr1, nv1) (set m1)) = cells (insert (nr, nv) (set m))" "set_of nr \<subseteq> set_of nr1"
    using merge_left_ok [OF assms] by blast
  obtain m2 nr2 nv2 where 2: "merge_right ops m1 nr1 nv1 = Some (m2, nr2, nv2)" "insert_ready m2 nr2 nv2"
    "cells (insert (nr2, nv2) (set m2)) = cells (insert (nr1, nv1) (set m1))" "set_of nr1 \<subseteq> set_of nr2"
    using merge_right_ok [OF 1(2)] by blast
  have ins: "rm_ok (map_insert nr2 nv2 m2) \<and> set (map_insert nr2 nv2 m2) = insert (nr2, nv2) (set m2)"
    using 2(2) by (intro map_insert_ok) (auto simp: insert_ready_def rm_inv_def)
  have mem: "(nr2, nv2) \<in> set (map_insert nr2 nv2 m2)" "r_last nr2 \<in> set_of (fst (nr2, nv2))"
    using ins 2(2) by (auto simp: insert_ready_def not_empty_le)
  note f = find_of_mem [OF conjunct1 [OF ins] mem]
  have inv: "rm_inv vok (map_insert nr2 nv2 m2)" using ins 2(2) by (auto simp: insert_ready_def rm_inv_def)
  have "cells (set (map_insert nr2 nv2 m2)) = cells (insert (nr, nv) (set m))"
    using ins 1(3) 2(3) by simp
  moreover have "set_of nr \<subseteq> set_of nr2" using 1(4) 2(4) by (rule subset_trans)
  ultimately show ?thesis using 1(1) 2(1) inv f by (simp add: Let_def)
qed

lemma insert_correct:
  assumes "rm_inv vok m" "\<not> range_empty nr" "vok nr nv"
    and "make_hole \<or> rm_dom m \<inter> set_of nr = {}"
  shows "\<exists>m' i. rm_insert ops m nr nv make_hole = Some (m', i) \<and> rm_inv vok m' \<and>
    cells (set m') = {(a, cell nr nv a) | a. a \<in> set_of nr} \<union> {(a, x) \<in> cells (set m). a \<notin> set_of nr} \<and>
    i < length m' \<and> set_of nr \<subseteq> set_of (fst (m' ! i))"
proof -
  have ok: "rm_ok m" using assms(1) by (simp add: rm_inv_def)
  obtain m0 where m0: "rm_erase ops m nr = Some m0" "rm_inv vok m0"
    "cells (set m0) = {(a, x) \<in> cells (set m). a \<notin> set_of nr}"
    using erase_correct [OF assms(1)] by blast
  define m1 where "m1 = (if make_hole then m0 else m)"
  have noov: "\<not> (\<not> make_hole \<and> rm_lower_bound m (r_first nr) \<noteq> length m \<and>
      range_overlaps nr (fst (m ! rm_lower_bound m (r_first nr))))"
    using assms(2,4) overlaps_range_iff [OF ok, of nr] by (auto simp: rm_overlaps_range_def Let_def)
  have c1: "cells (set m1) = {(a, x) \<in> cells (set m). a \<notin> set_of nr}"
    using m0(3) assms(4) by (auto simp: m1_def simp del: mem_set_of dest: cells_in_dom)
  have "set_of (fst e) \<inter> set_of nr = {}" if "e \<in> set m1" for e
  proof -
    have "(a, cell (fst e) (snd e) a) \<in> cells (set m1)" if "a \<in> set_of (fst e)" for a
      using that \<open>e \<in> set m1\<close> unfolding rm_cells_def by (metis (mono_tags, lifting) mem_Collect_eq prod.collapse)
    then show ?thesis using c1 by blast
  qed
  then have "insert_ready m1 nr nv"
    using assms(1-3) m0(2) by (auto simp: insert_ready_def m1_def simp del: mem_set_of)
  then obtain m2 nr2 nv2 m3 nr3 nv3 where t: "merge_left ops m1 nr nv = Some (m2, nr2, nv2)"
    "merge_right ops m2 nr2 nv2 = Some (m3, nr3, nv3)" "rm_inv vok (map_insert nr3 nv3 m3)"
    "cells (set (map_insert nr3 nv3 m3)) = cells (insert (nr, nv) (set m1))"
    "rm_lower_bound (map_insert nr3 nv3 m3) (r_last nr3) < length (map_insert nr3 nv3 m3)"
    "set_of nr \<subseteq> set_of (fst (map_insert nr3 nv3 m3 ! rm_lower_bound (map_insert nr3 nv3 m3) (r_last nr3)))"
    using insert_tail unfolding Let_def by meson
  have "(if make_hole then rm_erase ops m nr else Some m) = Some m1" by (simp add: m1_def m0(1))
  then have "rm_insert ops m nr nv make_hole =
      Some (map_insert nr3 nv3 m3, rm_lower_bound (map_insert nr3 nv3 m3) (r_last nr3))"
    using assms(2) noov t(1,2) by (auto simp: rm_insert_def Let_def)
  then show ?thesis using t(3-6) c1 by (auto simp del: mem_set_of)
qed

text \<open>The steps of an insertion that makes a hole, and the element that the iterator denotes.\<close>

lemma insert_decomposes:
  assumes "rm_inv vok m" "\<not> range_empty nr" "vok nr nv"
  shows "\<exists>m1 m2 nr2 nv2 m3 nr3 nv3 m' i. rm_erase ops m nr = Some m1 \<and>
    insert_ready m1 nr nv \<and> cells (set m1) = {(a, x) \<in> cells (set m). a \<notin> set_of nr} \<and>
    merge_left ops m1 nr nv = Some (m2, nr2, nv2) \<and> insert_ready m2 nr2 nv2 \<and>
    cells (insert (nr2, nv2) (set m2)) = cells (insert (nr, nv) (set m1)) \<and>
    merge_right ops m2 nr2 nv2 = Some (m3, nr3, nv3) \<and> set_of nr2 \<subseteq> set_of nr3 \<and>
    rm_insert ops m nr nv True = Some (m', i) \<and> i < length m' \<and> m' ! i = (nr3, nv3)"
proof -
  obtain m1 where m1: "rm_erase ops m nr = Some m1" "rm_inv vok m1"
    "cells (set m1) = {(a, x) \<in> cells (set m). a \<notin> set_of nr}" using erase_correct [OF assms(1)] by blast
  have "set_of (fst e) \<inter> set_of nr = {}" if e: "e \<in> set m1" for e
  proof -
    have "(a, cell (fst e) (snd e) a) \<in> cells (set m1)" if "a \<in> set_of (fst e)" for a
      using that e unfolding rm_cells_def by (metis (mono_tags, lifting) mem_Collect_eq prod.collapse)
    then show ?thesis using m1(3) by blast
  qed
  then have rdy: "insert_ready m1 nr nv" using assms(2,3) m1(2) by (simp add: insert_ready_def)
  obtain m2 nr2 nv2 where 2: "merge_left ops m1 nr nv = Some (m2, nr2, nv2)" "insert_ready m2 nr2 nv2"
    "cells (insert (nr2, nv2) (set m2)) = cells (insert (nr, nv) (set m1))" using merge_left_ok [OF rdy] by blast
  obtain m3 nr3 nv3 where 3: "merge_right ops m2 nr2 nv2 = Some (m3, nr3, nv3)" "insert_ready m3 nr3 nv3"
    "set_of nr2 \<subseteq> set_of nr3" using merge_right_ok [OF 2(2)] by blast
  let ?m = "map_insert nr3 nv3 m3"
  have ins: "rm_ok ?m \<and> set ?m = insert (nr3, nv3) (set m3)"
    using 3(2) by (intro map_insert_ok) (auto simp: insert_ready_def rm_inv_def)
  have mem: "(nr3, nv3) \<in> set ?m" "r_last nr3 \<in> set_of (fst (nr3, nv3))"
    using ins 3(2) by (auto simp: insert_ready_def not_empty_le)
  note f = find_of_mem [OF conjunct1 [OF ins] mem]
  have "rm_insert ops m nr nv True = Some (?m, rm_lower_bound ?m (r_last nr3))"
    using assms(2) m1(1) 2(1) 3(1) by (simp add: rm_insert_def Let_def)
  then show ?thesis using m1(1,3) rdy 2 3(1,3) f by (intro exI conjI) (assumption | simp)+
qed

lemma insert_refused:
  assumes "rm_inv vok m" "rm_dom m \<inter> set_of nr \<noteq> {}"
  shows "rm_insert ops m nr nv False = Some (m, length m)"
  using assms overlaps_range_iff [of m nr]
  by (auto simp: rm_insert_def rm_inv_def rm_overlaps_range_def Let_def simp del: mem_set_of)

text \<open>The operations on whole maps, and their effect on the lookup function.\<close>

lemma erase_ranges_correct:
  assumes "rm_inv vok m" "rm_ok other"
  shows "\<exists>m'. rm_erase_ranges ops m other = Some m' \<and> rm_inv vok m' \<and>
    cells (set m') = {(a, x) \<in> cells (set m). a \<notin> rm_dom other}"
  using assms
proof (induction other arbitrary: m)
  case (Cons e other)
  obtain r u where e: "e = (r, u)" by fastforce
  have r: "\<not> range_empty r" using Cons.prems(2) by (simp add: rm_ok_Cons e)
  then have inin: "range_inin (r_first r) (r_last r) = Some r"
    by (simp add: range_inin_Some_iff not_empty_le)
  obtain m1 where m1: "rm_erase ops m r = Some m1" "rm_inv vok m1"
    "cells (set m1) = {(a, x) \<in> cells (set m). a \<notin> set_of r}"
    using erase_correct [OF Cons.prems(1)] by blast
  obtain m2 where "rm_erase_ranges ops m1 other = Some m2" "rm_inv vok m2"
    "cells (set m2) = {(a, x) \<in> cells (set m1). a \<notin> rm_dom other}"
    using Cons.IH [OF m1(2)] Cons.prems(2) by (auto simp: rm_ok_Cons)
  then show ?case using m1 r inin
    by (auto simp: e range_first_def range_last_def rm_dom_def simp del: mem_set_of)
qed (simp add: rm_dom_def)

lemma erase_lookup:
  assumes "rm_inv vok m"
  shows "\<exists>m'. rm_erase ops m er = Some m' \<and> rm_inv vok m' \<and>
    (\<forall>a. rm_lookup cell m' a = (if a \<in> set_of er then None else rm_lookup cell m a))"
proof -
  obtain m' where m': "rm_erase ops m er = Some m'" "rm_inv vok m'"
    "cells (set m') = {(a, x) \<in> cells (set m). a \<notin> set_of er}"
    using erase_correct [OF assms] by blast
  have "rm_lookup cell m' a = Some x \<longleftrightarrow> a \<notin> set_of er \<and> rm_lookup cell m a = Some x" for a x
    using m' assms by (auto simp: rm_lookup_iff rm_inv_def simp del: mem_set_of)
  then have "rm_lookup cell m' a = (if a \<in> set_of er then None else rm_lookup cell m a)" for a
    by (metis not_None_eq)
  with m' show ?thesis by blast
qed

lemma insert_lookup:
  assumes "rm_inv vok m" "\<not> range_empty nr" "vok nr nv" "make_hole \<or> rm_dom m \<inter> set_of nr = {}"
  shows "\<exists>m' i. rm_insert ops m nr nv make_hole = Some (m', i) \<and> rm_inv vok m' \<and>
    i < length m' \<and> set_of nr \<subseteq> set_of (fst (m' ! i)) \<and>
    (\<forall>a. rm_lookup cell m' a = (if a \<in> set_of nr then Some (cell nr nv a) else rm_lookup cell m a))"
proof -
  obtain m' i where m': "rm_insert ops m nr nv make_hole = Some (m', i)" "rm_inv vok m'"
    "cells (set m') = {(a, cell nr nv a) | a. a \<in> set_of nr} \<union> {(a, x) \<in> cells (set m). a \<notin> set_of nr}"
    "i < length m'" "set_of nr \<subseteq> set_of (fst (m' ! i))"
    using insert_correct [OF assms] by blast
  have "rm_lookup cell m' a = Some x \<longleftrightarrow>
      (if a \<in> set_of nr then x = cell nr nv a else rm_lookup cell m a = Some x)" for a x
    using m'(2,3) assms(1) by (auto simp: rm_lookup_iff rm_inv_def simp del: mem_set_of)
  then have "rm_lookup cell m' a = (if a \<in> set_of nr then Some (cell nr nv a) else rm_lookup cell m a)" for a
    by (metis option.exhaust)
  with m' show ?thesis by blast
qed

lemma dom_cells: "a \<in> rm_dom m \<longleftrightarrow> (\<exists>x. (a, x) \<in> cells (set m))"
proof
  assume "a \<in> rm_dom m"
  then obtain r v where "(r, v) \<in> set m" "a \<in> set_of r" by (auto simp: rm_dom_def simp del: mem_set_of)
  then show "\<exists>x. (a, x) \<in> cells (set m)" unfolding rm_cells_def by blast
qed (auto dest: cells_in_dom)

lemma insert_dom:
  assumes "rm_inv vok m" "\<not> range_empty nr" "vok nr nv"
  shows "\<exists>m' i. rm_insert ops m nr nv True = Some (m', i) \<and> rm_inv vok m' \<and> rm_dom m' = rm_dom m \<union> set_of nr"
proof -
  obtain m' i where m': "rm_insert ops m nr nv True = Some (m', i)" "rm_inv vok m'"
    "cells (set m') = {(a, cell nr nv a) | a. a \<in> set_of nr} \<union> {(a, x) \<in> cells (set m). a \<notin> set_of nr}"
    using insert_correct [OF assms, of True] by blast
  have "rm_dom m' = rm_dom m \<union> set_of nr"
    by (rule set_eqI, unfold Un_iff dom_cells m'(3)) (simp del: mem_set_of, blast)
  with m'(1,2) show ?thesis by blast
qed

end

end
