(* ===== verification/RangeMapOps.thy ===== *)
theory RangeMapOps
  imports RangeMapCorrect
begin

text \<open>
  The value types of \<open>rangemap.h\<close> satisfy the contract \<open>rm_value\<close>, and the remaining operations of
  \<open>RangeMap\<close>: \<open>contains\<close>, \<open>size\<close>, \<open>min\<close>/\<open>max\<close>, \<open>find_prior\<close>, \<open>invert_within\<close> and \<open>check\<close>.
\<close>

section \<open>Interpretations\<close>

locale rm_value_default = rm_value ops vok cell
  for ops :: "('a::len word, 'v) rm_value_ops"
    and vok :: "'a word Range \<Rightarrow> 'v \<Rightarrow> bool"
    and cell :: "'a word Range \<Rightarrow> 'v \<Rightarrow> 'a word \<Rightarrow> 'c" +
  assumes default_ok: "\<not> range_empty r \<Longrightarrow> vok r (vo_default ops)"

lemma abuts_ltD: "abuts_lt r s \<Longrightarrow> \<not> range_empty r \<and> \<not> range_empty s"
  by (auto simp: abuts_lt_def split: if_splits)

lemma within_not_empty: "r_first r < e \<Longrightarrow> e \<le> r_last r \<Longrightarrow> \<not> range_empty (r :: 'a::len word Range)"
  by (simp add: range_empty_def not_less)

lemma void_ops:
  "\<not> range_empty r \<Longrightarrow> vo_removing range_map_void r v = Some v"
  "r_first r < e \<Longrightarrow> e \<le> r_last r \<Longrightarrow> vo_truncate range_map_void r e v = Some v"
  "r_first r < e \<Longrightarrow> e \<le> r_last r \<Longrightarrow> vo_split range_map_void r e v = Some (v, ())"
  "abuts_lt s r \<Longrightarrow> vo_merge range_map_void r s v w = Some (True, v)"
  "abuts_lt r s \<Longrightarrow> vo_merge range_map_void r s v w = Some (True, v)"
  by (simp_all add: range_map_void_def range_first_def range_last_def range_contains_def
      within_not_empty abuts_ltD)

lemma val_ops:
  "\<not> range_empty r \<Longrightarrow> vo_removing (range_map_value d) r v = Some v"
  "r_first r < e \<Longrightarrow> e \<le> r_last r \<Longrightarrow> vo_truncate (range_map_value d) r e v = Some v"
  "r_first r < e \<Longrightarrow> e \<le> r_last r \<Longrightarrow> vo_split (range_map_value d) r e v = Some (v, v)"
  "abuts_lt s r \<Longrightarrow> vo_merge (range_map_value d) r s v w = Some (v = w, v)"
  "abuts_lt r s \<Longrightarrow> vo_merge (range_map_value d) r s v w = Some (v = w, v)"
  by (simp_all add: range_map_value_def range_first_def range_last_def range_contains_def
      within_not_empty abuts_ltD)

interpretation void: rm_value_default range_map_void "\<lambda>_ _. True" "\<lambda>_ _ _. ()"
  by unfold_locales (auto simp: void_ops)

interpretation val: rm_value_default "range_map_value d" "\<lambda>_ _. True" "\<lambda>_ v _. v"
  by unfold_locales (simp_all add: val_ops)

section \<open>Containment and size\<close>

lemma rm_dom_Cons [simp]: "rm_dom (e # m) = set_of (fst e) \<union> rm_dom m"
  by (simp add: rm_dom_def)

lemma rm_dom_Nil [simp]: "rm_dom [] = {}"
  by (simp add: rm_dom_def)

lemma rm_dom_append [simp]: "rm_dom (m @ m') = rm_dom m \<union> rm_dom m'"
  by (simp add: rm_dom_def)

lemma rm_dom_after: "rm_ok (e # m) \<Longrightarrow> a \<in> rm_dom m \<Longrightarrow> r_last (fst e) < a"
  by (fastforce simp: rm_ok_Cons rm_before_def rm_dom_def)

lemma rm_last_mono: "rm_ok (e # m) \<Longrightarrow> x \<in> set m \<Longrightarrow> r_last (fst e) < r_last (fst x)"
  using rm_before_last [of e x] by (simp add: rm_ok_Cons rm_ok_def)

lemma contains_loop_correct:
  assumes "\<not> range_empty need" "rm_ok m" "\<forall>e \<in> set m. r_first need \<le> r_last (fst e)"
  shows "contains_loop need m = Some (set_of need \<subseteq> rm_dom m)"
  using assms
proof (induction need m rule: contains_loop.induct)
  case (1 need)
  then show ?case using set_of_empty_iff [of need] by simp
next
  case (2 need r v m)
  have ne: "r_first need \<le> r_last need" "r_first r \<le> r_last r" "r_first need \<le> r_last r"
    using "2.prems" by (auto simp: rm_ok_Cons range_empty_def)
  have nd: "\<not> range_empty need" "\<not> range_empty r" using ne by (simp_all add: not_empty_le)
  have after: "r_last r < a" if "a \<in> rm_dom m" for a using rm_dom_after "2.prems"(2) that by fastforce
  consider "r_first need < r_first r" | "r_first r \<le> r_first need" "r_last need \<le> r_last r"
    | "r_first r \<le> r_first need" "r_last r < r_last need" by fastforce
  then show ?case
  proof cases
    case 1
    then have "r_first need \<notin> rm_dom ((r, v) # m)" using after ne by fastforce
    moreover have "r_first need \<in> set_of need" using ne by simp
    ultimately have "\<not> set_of need \<subseteq> rm_dom ((r, v) # m)" by blast
    then show ?thesis using 1 by (simp add: nonempty_preds [OF nd])
  next
    case 2
    then have "set_of need \<subseteq> rm_dom ((r, v) # m)" by auto
    moreover have "\<not> begins_before need r True" "range_overlaps need r" "ends_before need r False"
      using 2 ne by (simp_all add: nonempty_preds [OF nd] not_less)
    ultimately show ?thesis by simp
  next
    case 3
    note w = word_succ_iffs [OF 3(2)]
    let ?N = "\<lparr>r_first = r_last r + 1, r_last = r_last need\<rparr>"
    have sp: "range_split_at need (r_last r + 1) = Some (\<lparr>r_first = r_first need, r_last = r_last r\<rparr>, ?N)"
      using split_at_Some [of need "r_last r + 1"] w ne 3 by simp
    have N: "\<not> range_empty ?N" "rm_ok m" "\<forall>e \<in> set m. r_first ?N \<le> r_last (fst e)"
      using w(1) 3 "2.prems"(2) rm_last_mono [OF "2.prems"(2)] by (simp_all add: rm_ok_Cons not_less)
    have cond: "\<not> begins_before need r True" "range_overlaps need r" "\<not> ends_before need r False"
      using 3 ne by (simp_all add: nonempty_preds [OF nd] not_less not_le)
    have "contains_loop ?N m = Some (set_of ?N \<subseteq> rm_dom m)"
      using "2.IH" [OF cond(1) _ cond(3)] sp N cond(2) by simp
    moreover note split_join(2) [OF sp, symmetric]
    moreover have "set_of ?N \<inter> set_of r = {}" using w(1) by fastforce
    moreover have "set_of \<lparr>r_first = r_first need, r_last = r_last r\<rparr> \<subseteq> set_of r" using 3 by auto
    ultimately have "contains_loop ?N m = Some (set_of need \<subseteq> rm_dom ((r, v) # m))"
      by (simp del: mem_set_of) blast
    then show ?thesis using cond sp by simp
  qed
qed

lemma contains_range_correct:
  assumes "rm_ok m"
  shows "rm_contains_range m need = Some (set_of need \<subseteq> rm_dom m)"
proof (cases "range_empty need")
  case True
  then have "set_of need = {}" by (simp only: set_of_empty_iff)
  with True show ?thesis by (simp add: rm_contains_range_def)
next
  case False
  then have mem: "r_first need \<in> set_of need" by (simp add: not_empty_le)
  obtain pre post where sp: "m = pre @ post" "rm_lower_bound m (r_first need) = length pre"
    "\<forall>e \<in> set pre. r_last (fst e) < r_first need" "\<forall>e \<in> set post. r_first need \<le> r_last (fst e)"
    using lower_bound_split [OF assms] by blast
  have pre: "rm_dom pre \<inter> set_of need = {}" using sp(3) by (fastforce simp: rm_dom_def)
  from find_cases [OF assms, of "r_first need"] show ?thesis
  proof
    assume "rm_find m (r_first need) < length m \<and> r_first need \<in> set_of (fst (m ! rm_find m (r_first need)))"
    then have "drop (rm_find m (r_first need)) m = post"
      using sp by (auto simp: rm_find_def Let_def split: if_splits)
    moreover have "contains_loop need post = Some (set_of need \<subseteq> rm_dom post)"
      using contains_loop_correct [OF False _ sp(4)] assms sp(1) by (simp add: rm_ok_append)
    ultimately show ?thesis using False pre sp(1) by (auto simp: rm_contains_range_def simp del: mem_set_of)
  next
    assume "rm_find m (r_first need) = length m \<and> r_first need \<notin> rm_dom m"
    then show ?thesis using False mem by (auto simp: rm_contains_range_def simp del: mem_set_of)
  qed
qed

lemma foldl_sum: "foldl (\<lambda>s e. s + f e) z m = z + (\<Sum>e\<leftarrow>m. f e :: 'a::comm_monoid_add)"
  by (induction m arbitrary: z) (simp_all add: add.assoc)

lemma rm_size_card:
  assumes "rm_ok m"
  shows "rm_size m = of_nat (card (rm_dom m))"
proof -
  have "(\<Sum>e\<leftarrow>m. range_size (fst e)) = of_nat (card (rm_dom m))"
    using assms
  proof (induction m)
    case (Cons e m)
    have "set_of (fst e) \<inter> rm_dom m = {}" using rm_dom_after [OF Cons.prems] by fastforce
    then have "card (rm_dom (e # m)) = card (set_of (fst e)) + card (rm_dom m)"
      by (simp add: card_Un_disjoint rm_dom_def)
    then show ?case using Cons by (simp add: rm_ok_Cons range_size_card)
  qed simp
  then show ?thesis by (simp add: rm_size_def foldl_sum)
qed

section \<open>Neighbours and bounds\<close>

lemma find_prior_correct:
  assumes "rm_ok m"
  shows "if \<exists>e \<in> set m. r_first (fst e) \<le> a
    then rm_find_prior m a < length m \<and> r_first (fst (m ! rm_find_prior m a)) \<le> a \<and>
      (\<forall>j. rm_find_prior m a < j \<and> j < length m \<longrightarrow> a < r_first (fst (m ! j)))
    else rm_find_prior m a = length m"
proof -
  obtain pre post where sp: "m = pre @ post" "rm_lower_bound m a = length pre"
    "\<forall>e \<in> set pre. r_last (fst e) < a" "\<forall>e \<in> set post. a \<le> r_last (fst e)"
    using lower_bound_split [OF assms] by blast
  have pre: "r_first (fst e) \<le> a" if "e \<in> set pre" for e
  proof -
    have "r_first (fst e) \<le> r_last (fst e)" "r_last (fst e) < a"
      using that sp(1,3) assms by (auto simp: rm_ok_def range_empty_def not_less)
    then show ?thesis by simp
  qed
  have last_pre: "r_first (fst ((pre @ post) ! (length pre - 1))) \<le> a" if "pre \<noteq> []"
    using that pre [of "last pre"] by (simp add: nth_append last_conv_nth)
  show ?thesis
  proof (cases post)
    case Nil
    then have m: "m = pre" using sp(1) by simp
    show ?thesis
    proof (cases "pre = []")
      case False
      then have "rm_find_prior m a = length pre - 1" using sp Nil by (simp add: rm_find_prior_def)
      moreover have "\<exists>e \<in> set m. r_first (fst e) \<le> a" using pre [of "last pre"] False m by auto
      ultimately show ?thesis using last_pre False Nil m by auto
    qed (simp add: m rm_find_prior_def)
  next
    case (Cons x xs)
    have x: "\<not> range_empty (fst x)" "a \<le> r_last (fst x)" "\<forall>y \<in> set xs. r_last (fst x) < r_first (fst y)"
      using assms sp Cons by (auto simp: rm_ok_append rm_ok_Cons rm_before_def)
    have later: "a < r_first (fst (m ! j))" if "length pre < j" "j < length m" for j
    proof -
      have "m ! j \<in> set xs" using that by (auto simp: sp(1) Cons nth_append nth_Cons')
      then show ?thesis using x by fastforce
    qed
    have xs: "\<forall>y \<in> set xs. a < r_first (fst y)" using x by fastforce
    show ?thesis
    proof (cases "r_first (fst x) \<le> a")
      case True
      then have "rm_find_prior m a = length pre"
        using sp Cons x(1) by (simp add: rm_find_prior_def Let_def begins_before_def)
      then show ?thesis using True later by (auto simp: sp(1) Cons)
    next
      case False
      then have fp: "rm_find_prior m a = (if pre = [] then length m else length pre - 1)"
        using sp Cons x(1) by (simp add: rm_find_prior_def Let_def begins_before_def)
      show ?thesis
      proof (cases "pre = []")
        case True
        then show ?thesis using fp False xs by (auto simp: sp(1) Cons)
      next
        case ne: False
        have "a < r_first (fst (m ! j))" if "length pre - 1 < j" "j < length m" for j
          using that later [of j] False by (cases "j = length pre") (auto simp: sp(1) Cons)
        moreover have "last pre \<in> set m" "r_first (fst (last pre)) \<le> a"
          using ne pre [of "last pre"] by (simp_all add: sp(1))
        moreover have "length pre - 1 < length m" using ne by (cases pre) (simp_all add: sp(1))
        ultimately show ?thesis using fp ne last_pre by (auto simp: sp(1))
      qed
    qed
  qed
qed

lemma minmax_correct:
  assumes "rm_ok m" "m \<noteq> []"
  shows "\<exists>r. rm_minmax m = Some r \<and> \<not> range_empty r \<and> r_first r \<in> rm_dom m \<and> r_last r \<in> rm_dom m \<and>
    rm_dom m \<subseteq> set_of r"
proof -
  have ne: "\<not> range_empty (fst (hd m))" "\<not> range_empty (fst (last m))"
    using assms by (auto simp: rm_ok_def)
  have lo: "r_first (fst (hd m)) \<le> r_first (fst e)" and hi: "r_last (fst e) \<le> r_last (fst (last m))"
    if "e \<in> set m" for e
  proof -
    obtain h t where h: "m = h # t" using assms(2) by (cases m) auto
    obtain t' l where l: "m = t' @ [l]" using assms(2) by (cases m rule: rev_cases) auto
    have e: "\<not> range_empty (fst e)" using assms(1) that by (simp add: rm_ok_def)
    have "e = hd m \<or> rm_before (hd m) e" using assms(1) that by (auto simp: h rm_ok_Cons)
    then show "r_first (fst (hd m)) \<le> r_first (fst e)"
      using ne(1) by (auto simp: rm_before_def range_empty_def)
    have "e = last m \<or> rm_before e (last m)"
      using assms(1) that by (auto simp: l rm_ok_append)
    then show "r_last (fst e) \<le> r_last (fst (last m))"
      using rm_before_last [of e "last m"] ne(2) by auto
  qed
  have le: "r_first (fst (hd m)) \<le> r_last (fst (last m))"
    using lo [of "last m"] ne(2) assms(2) by (auto simp: range_empty_def not_less intro: order_trans)
  have mem: "hd m \<in> set m" "last m \<in> set m" using assms(2) by simp_all
  let ?r = "\<lparr>r_first = r_first (fst (hd m)), r_last = r_last (fst (last m))\<rparr>"
  have "rm_minmax m = Some \<lparr>r_first = r_first (fst (hd m)), r_last = r_last (fst (last m))\<rparr>"
    using assms(2) ne le by (simp add: rm_minmax_def rm_min_def rm_max_def rm_empty_def range_first_def
        range_last_def range_inin_Some_iff)
  moreover have "r_first (fst (hd m)) \<in> rm_dom m" "r_last (fst (last m)) \<in> rm_dom m"
    using mem ne unfolding rm_dom_def not_empty_le by (meson UN_I mem_set_of order_refl)+
  moreover have "rm_dom m \<subseteq> set_of \<lparr>r_first = r_first (fst (hd m)), r_last = r_last (fst (last m))\<rparr>"
    using lo hi by (fastforce simp: rm_dom_def)
  ultimately show ?thesis using le by auto
qed

section \<open>Inversion\<close>

context rm_value_default
begin

lemma invert_loop_correct:
  assumes "\<not> range_empty limits" "rm_ok m" "\<forall>e \<in> set m. pending \<le> r_last (fst e)"
    and "\<forall>e \<in> set m. r_last (fst e) = -1 \<longrightarrow> r_last limits < r_first (fst e)"
    and "rm_inv vok ret"
  shows "\<exists>p ret'. invert_loop ops limits m pending ret = Some (p, ret') \<and> rm_inv vok ret' \<and>
    rm_dom ret' \<union> {p..r_last limits} = rm_dom ret \<union> ({pending..r_last limits} - rm_dom m)"
  using assms
proof (induction m arbitrary: pending ret)
  case (Cons e m)
  obtain r v where e: "e = (r, v)" by fastforce
  have ne: "r_first r \<le> r_last r" "pending \<le> r_last r"
    using Cons.prems(2,3) by (auto simp: rm_ok_Cons e range_empty_def not_less)
  have after: "r_last r < a" if "a \<in> rm_dom m" for a using rm_dom_after Cons.prems(2) that e by fastforce
  show ?case
  proof (cases "left_of limits r")
    case True
    then have "r_last limits < r_first r" by (auto simp: left_of_def split: if_splits)
    then have "a \<notin> rm_dom (e # m)" if "a \<le> r_last limits" for a
      using that after [of a] ne by (fastforce simp: e)
    then have "{pending..r_last limits} - rm_dom (e # m) = {pending..r_last limits}" by auto
    then show ?thesis using True Cons.prems(5) by (simp add: e del: rm_dom_Cons)
  next
    case False
    then have lim: "r_first r \<le> r_last limits"
      using Cons.prems(1) ne(1) by (simp add: left_of_def range_empty_def split: if_splits)
    then have "r_last r \<noteq> -1" using Cons.prems(4) by (auto simp: e)
    then have "r_last r < -1" by (simp add: less_max_word_iff)
    note w = word_succ_iffs [OF this]
    obtain ret1 where ret1: "(if pending < r_first r
         then do { g \<leftarrow> range_inin pending (r_first r - 1);
                   (m, _) \<leftarrow> rm_insert ops ret g (vo_default ops) True; Some m }
         else Some ret) = Some ret1" "rm_inv vok ret1"
      "rm_dom ret1 = rm_dom ret \<union> {a. pending \<le> a \<and> a < r_first r}"
    proof (cases "pending < r_first r")
      case True
      note p = word_pred_iffs [OF True]
      let ?g = "\<lparr>r_first = pending, r_last = r_first r - 1\<rparr>"
      have g: "range_inin pending (r_first r - 1) = Some ?g" "\<not> range_empty ?g"
        using True p by (simp_all add: range_inin_Some_iff not_less)
      obtain m' i where "rm_insert ops ret ?g (vo_default ops) True = Some (m', i)" "rm_inv vok m'"
        "rm_dom m' = rm_dom ret \<union> set_of ?g"
        using insert_dom [OF Cons.prems(5) g(2) default_ok [OF g(2)]] by blast
      moreover have "set_of ?g = {a. pending \<le> a \<and> a < r_first r}"
        by (rule set_eqI) (simp add: p(1))
      ultimately show ?thesis using that [of m'] True g(1) by simp
    next
      case False
      then have "{a. pending \<le> a \<and> a < r_first r} = {}" by fastforce
      then show ?thesis using that [of ret] False Cons.prems(5) by (simp only: if_False Un_empty_right)
    qed
    have "\<forall>x \<in> set m. r_last r + 1 \<le> r_last (fst x)"
      using w(1) rm_last_mono [OF Cons.prems(2)] by (simp add: e)
    then obtain p ret2 where ret2: "invert_loop ops limits m (r_last r + 1) ret1 = Some (p, ret2)"
      "rm_inv vok ret2"
      "rm_dom ret2 \<union> {p..r_last limits} = rm_dom ret1 \<union> ({r_last r + 1..r_last limits} - rm_dom m)"
      using Cons.IH [OF Cons.prems(1) _ _ _ ret1(2), of "r_last r + 1"] Cons.prems(2,4)
      by (simp add: rm_ok_Cons) blast
    have "{a. pending \<le> a \<and> a < r_first r} \<union> ({r_last r + 1..r_last limits} - rm_dom m) =
        {pending..r_last limits} - rm_dom (e # m)"
    proof (rule set_eqI)
      fix a
      consider "a < r_first r" | "r_first r \<le> a" "a \<le> r_last r" | "r_last r < a" by fastforce
      then show "a \<in> {a. pending \<le> a \<and> a < r_first r} \<union> ({r_last r + 1..r_last limits} - rm_dom m) \<longleftrightarrow>
          a \<in> {pending..r_last limits} - rm_dom (e # m)"
      proof cases
        case 1
        then have "\<not> r_last r < a" "a \<le> r_last limits" using ne lim by order+
        moreover from this have "a \<notin> rm_dom m" using after by blast
        ultimately show ?thesis using 1 w(1) [of a] by (simp add: e not_le [symmetric])
      next
        case 2
        then have "\<not> a < r_first r" "\<not> r_last r < a" by order+
        then show ?thesis using 2 w(1) [of a] by (simp add: e)
      next
        case 3
        then have "pending \<le> a" "\<not> a < r_first r" "\<not> a \<le> r_last r" using ne by order+
        then show ?thesis using 3 w(1) [of a] by (simp add: e)
      qed
    qed
    then have "rm_dom ret2 \<union> {p..r_last limits} = rm_dom ret \<union> ({pending..r_last limits} - rm_dom (e # m))"
      unfolding ret2(3) ret1(3) by (simp only: Un_assoc)
    moreover have "invert_loop ops limits (e # m) pending ret = Some (p, ret2)"
      using False ret1(1) ret2(1) ne(1) by (simp add: e range_first_def range_last_def range_empty_def not_less)
    ultimately show ?thesis using ret2(2) by blast
  qed
qed simp

lemma invert_within_correct:
  assumes "rm_ok m" "\<forall>e \<in> set m. r_last (fst e) = -1 \<longrightarrow> r_last limits < r_first (fst e)"
  shows "\<exists>inv. rm_invert_within ops m limits = Some inv \<and> rm_inv vok inv \<and>
    rm_dom inv = set_of limits - rm_dom m"
proof (cases "range_empty limits")
  case True
  then have "set_of limits = {}" by (simp only: set_of_empty_iff)
  with True show ?thesis by (simp add: rm_invert_within_def rm_inv_def)
next
  case False
  obtain pre post where sp: "m = pre @ post" "rm_lower_bound m (r_first limits) = length pre"
    "\<forall>e \<in> set pre. r_last (fst e) < r_first limits" "\<forall>e \<in> set post. r_first limits \<le> r_last (fst e)"
    using lower_bound_split [OF assms(1)] by blast
  have drop: "drop (rm_lower_bound m (r_first limits)) m = post" using sp(1,2) by simp
  have "rm_dom pre \<inter> set_of limits = {}" using sp(3) by (fastforce simp: rm_dom_def)
  then have dom: "{r_first limits..r_last limits} - rm_dom post = set_of limits - rm_dom m"
    unfolding set_of_def [symmetric] sp(1) rm_dom_append by blast
  have post: "rm_ok post" "\<forall>e \<in> set post. r_last (fst e) = -1 \<longrightarrow> r_last limits < r_first (fst e)"
    "rm_inv vok []" using assms by (simp_all add: sp(1) rm_ok_append rm_inv_def)
  obtain p ret where loop: "invert_loop ops limits post (r_first limits) [] = Some (p, ret)" "rm_inv vok ret"
    "rm_dom ret \<union> {p..r_last limits} = set_of limits - rm_dom m"
    using invert_loop_correct [OF False post(1) sp(4) post(2,3)] unfolding dom rm_dom_Nil Un_empty_left by blast
  obtain ret1 where ret1: "(if p \<le> r_last limits
       then do { g \<leftarrow> range_inin p (r_last limits);
                 (m, _) \<leftarrow> rm_insert ops ret g (vo_default ops) True; Some m }
       else Some ret) = Some ret1" "rm_inv vok ret1" "rm_dom ret1 = set_of limits - rm_dom m"
  proof (cases "p \<le> r_last limits")
    case True
    let ?g = "\<lparr>r_first = p, r_last = r_last limits\<rparr>"
    have g: "range_inin p (r_last limits) = Some ?g" "\<not> range_empty ?g"
      using True by (simp_all add: range_inin_Some_iff not_less)
    obtain m' i where "rm_insert ops ret ?g (vo_default ops) True = Some (m', i)" "rm_inv vok m'"
      "rm_dom m' = rm_dom ret \<union> set_of ?g"
      using insert_dom [OF loop(2) g(2) default_ok [OF g(2)]] by blast
    then show ?thesis using that [of m'] True g(1) loop(3) by (simp add: set_of_def)
  next
    case False
    then show ?thesis using that [of ret] loop by simp
  qed
  have "(if \<not> rm_empty ret1
         then do { mm \<leftarrow> rm_minmax ret1; assert_opt (contained_in mm limits False); Some ret1 }
         else Some ret1) = Some ret1"
  proof (cases "ret1 = []")
    case ne: False
    obtain mm where mm: "rm_minmax ret1 = Some mm" "\<not> range_empty mm" "r_first mm \<in> rm_dom ret1" "r_last mm \<in> rm_dom ret1"
      using minmax_correct [of ret1] ret1(2) ne by (auto simp: rm_inv_def simp del: mem_set_of)
    then have "contained_in mm limits False" using ret1(3) by (simp add: nonempty_preds [OF mm(2) False])
    then show ?thesis using mm(1) ne by (simp add: rm_empty_def)
  qed (simp add: rm_empty_def)
  then have "rm_invert_within ops m limits = Some ret1"
    using False loop(1) ret1(1) drop by (simp add: rm_invert_within_def)
  then show ?thesis using ret1(2,3) by blast
qed

end

section \<open>Consistency checks\<close>

lemma check_pair_iff:
  "check_pair r1 r2 \<longleftrightarrow>
     \<not> range_empty r1 \<and> \<not> range_empty r2 \<and> r_last r1 < r_first r2 \<and> \<not> (r_first r1 = 0 \<and> r_last r2 = -1)"
    (is "_ \<longleftrightarrow> ?ok")
proof
  assume c: "check_pair r1 r2"
  then have l: "left_of r1 r2" "\<not> abuts_gt r1 r2" by (simp_all add: check_pair_def)
  then have "\<not> range_empty r1 \<and> \<not> range_empty r2 \<and> r_last r1 < r_first r2"
    by (simp add: left_of_def split: if_splits)
  with l(2) show ?ok by (auto simp: abuts_gt_def)
next
  assume ok: ?ok
  then have ne: "r_first r1 \<le> r_last r1" "r_first r2 \<le> r_last r2" "r_last r1 < r_first r2"
    by (simp_all add: not_empty_le)
  have lt: "r_first r1 < r_first r2" "r_last r1 < r_last r2" "r_first r1 < r_last r2" using ne by order+
  have wrap: "r_first r1 \<noteq> r_last r2 + 1"
  proof
    assume eq: "r_first r1 = r_last r2 + 1"
    then have "r_last r2 + 1 \<le> r_last r2" using lt(3) by simp
    then have "r_last r2 = -1" by (rule inc_less_eq_triv_imp)
    with eq ok show False by simp
  qed
  have "\<not> range_empty r1" "\<not> range_empty r2" using ok by simp_all
  then show "check_pair r1 r2" using ne lt wrap
    by (simp add: check_pair_def range_pred_defs congruent_def range_first_def range_last_def)
      (auto dest: less_not_sym)
qed

lemma rm_ok_Cons2:
  assumes "\<not> range_empty (fst e1)"
  shows "rm_ok (e1 # e2 # m) \<longleftrightarrow> rm_before e1 e2 \<and> rm_ok (e2 # m)"
proof -
  have "rm_before e1 x" if "rm_before e1 e2" "rm_ok (e2 # m)" "x \<in> set m" for x
    using rm_before_last [of e1 e2] that by (auto simp: rm_ok_Cons rm_before_def)
  then show ?thesis using assms by (auto simp: rm_ok_Cons)
qed

lemma rm_check_iff:
  assumes "\<forall>e \<in> set m. \<not> range_empty (fst e)"
  shows "rm_check m \<longleftrightarrow>
    rm_ok m \<and> \<not> (length m = 2 \<and> r_first (fst (hd m)) = 0 \<and> r_last (fst (last m)) = -1)"
  using assms
proof (induction m rule: rm_check.induct)
  case (3 e1 e2 m)
  have ne: "\<not> range_empty (fst e1)" "\<not> range_empty (fst e2)" using "3.prems" by simp_all
  have first: "r_first (fst e2) \<noteq> 0" if "rm_before e1 e2" using that by (auto simp: rm_before_def)
  have top: "r_last (fst e2) \<noteq> -1" if "rm_ok (e2 # m)" "m \<noteq> []"
    using that rm_last_mono [of e2 m "hd m"] by (auto simp: less_max_word_iff [symmetric] intro: less_le_trans)
  have len: "length (e1 # e2 # m) = 2 \<longleftrightarrow> m = []" by simp
  have "rm_check (e1 # e2 # m) \<longleftrightarrow> check_pair (fst e1) (fst e2) \<and> rm_ok (e2 # m) \<and>
      \<not> (length (e2 # m) = 2 \<and> r_first (fst e2) = 0 \<and> r_last (fst (last (e2 # m))) = -1)"
    using 3 by simp
  then show ?case
    using rm_ok_Cons2 [OF ne(1)] ne first top
    by (cases "m = []") (auto simp: check_pair_iff rm_before_def)
qed (simp_all add: rm_ok_Cons)

section \<open>Properties\<close>

abbreviation value_at :: "('a::len word, 't) rmap \<Rightarrow> 'a word \<Rightarrow> 't option" where
  "value_at m a \<equiv> rm_lookup (\<lambda>_ v _. v) m a"

lemma rm_inv_True: "rm_inv (\<lambda>_ _. True) m \<longleftrightarrow> rm_ok m"
  by (simp add: rm_inv_def)

text \<open>Values of \<open>RangeMapValue\<close> are merged with an equal neighbour on either side.\<close>

lemma value_at_element:
  assumes "rm_ok m" "value_at m a = Some v"
  shows "rm_find m a < length m" "a \<in> set_of (fst (m ! rm_find m a))" "snd (m ! rm_find m a) = v"
    "m ! rm_find m a \<in> set m"
  using assms(2) find_cases [OF assms(1), of a] by (auto simp: rm_lookup_def split: if_splits)

lemma merge_left_absorbs:
  assumes "val.insert_ready m r v" "merge_left (range_map_value d) m r v = Some (m', r', v')"
  shows "v' = v" "r_last r' = r_last r"
    "r_first r \<noteq> 0 \<Longrightarrow> value_at m (r_first r - 1) = Some v \<Longrightarrow> r_first r - 1 \<in> set_of r'"
proof -
  define i where "i = (if r_first r > range_minimum then rm_find m (r_first r - 1) else length m)"
  have ok: "rm_ok m" "\<not> range_empty r" "\<forall>e \<in> set m. set_of (fst e) \<inter> set_of r = {}"
    using assms(1) by (auto simp: val.insert_ready_def rm_inv_def)
  have step: "(if i \<noteq> length m \<and> abuts_gt r (fst (m ! i)) then
        do { (merged, w) \<leftarrow> vo_merge (range_map_value d) r (fst (m ! i)) v (snd (m ! i));
             if merged then do { j \<leftarrow> range_join (fst (m ! i)) r; Some (map_erase_at i m, j, w) } else Some (m, r, w) }
      else Some (m, r, v)) = Some (m', r', v')"
    using assms(2) by (simp only: merge_left_def Let_def i_def [symmetric])
  show res: "v' = v" "r_last r' = r_last r"
    using step by (auto simp: range_map_value_def bind_eq_Some_conv range_join_def range_inin_Some_iff abuts_gt_def
        assert_opt_def split: if_splits)
  assume f: "r_first r \<noteq> 0" "value_at m (r_first r - 1) = Some v"
  then have i: "i = rm_find m (r_first r - 1)" by (simp add: i_def range_minimum_def word_neq_0_conv)
  note el = value_at_element [OF ok(1) f(2), folded i]
  let ?e = "fst (m ! i)"
  have dis: "set_of ?e \<inter> set_of r = {}" using ok(3) el(4) by blast
  have fl: "r_first r \<le> r_last r" "r_first ?e \<le> r_first r - 1" "r_first r - 1 \<le> r_last ?e" using ok(2) el(2) by (auto simp: not_empty_le)
  have "\<not> r_first r \<le> r_last ?e"
  proof
    assume "r_first r \<le> r_last ?e"
    moreover have "r_first ?e \<le> r_first r" using fl(2) f(1) by (simp add: less_eq_dec_iff)
    ultimately show False using dis fl(1) by auto
  qed
  then have "r_last ?e = r_first r - 1" using fl(3) f(1) by (metis less_eq_dec_iff not_le order_antisym)
  then have "abuts_gt r ?e" "\<not> range_empty ?e" using ok(2) fl(2) by (auto simp: abuts_gt_def range_empty_def)
  moreover have "r_first r - 1 < r_first r" using less_eq_dec_iff [of "r_first r - 1" "r_first r"] f(1) by simp
  then have "r_first r - 1 \<le> r_last r" using fl(1) by simp
  ultimately show "r_first r - 1 \<in> set_of r'"
    using step el(1,3) fl f(1) \<open>r_last ?e = r_first r - 1\<close>
    by (auto simp: range_map_value_def bind_eq_Some_conv range_join_def range_inin_Some_iff assert_opt_def split: if_splits)
qed

lemma merge_right_absorbs:
  assumes "val.insert_ready m r v" "merge_right (range_map_value d) m r v = Some (m', r', v')"
  shows "v' = v"
    "r_last r < range_maximum \<Longrightarrow> value_at m (r_last r + 1) = Some v \<Longrightarrow> r_last r + 1 \<in> set_of r'"
proof -
  define i where "i = (if r_last r < range_maximum then rm_find m (r_last r + 1) else length m)"
  have ok: "rm_ok m" "\<not> range_empty r" "\<forall>e \<in> set m. set_of (fst e) \<inter> set_of r = {}"
    using assms(1) by (auto simp: val.insert_ready_def rm_inv_def)
  have step: "(if i \<noteq> length m \<and> abuts_lt r (fst (m ! i)) then
        do { (merged, w) \<leftarrow> vo_merge (range_map_value d) r (fst (m ! i)) v (snd (m ! i));
             if merged then do { j \<leftarrow> range_join r (fst (m ! i)); Some (map_erase_at i m, j, w) } else Some (m, r, w) }
      else Some (m, r, v)) = Some (m', r', v')"
    using assms(2) by (simp only: merge_right_def Let_def i_def [symmetric])
  show "v' = v"
    using step by (auto simp: range_map_value_def bind_eq_Some_conv range_join_def range_inin_Some_iff abuts_lt_def
        assert_opt_def split: if_splits)
  assume f: "r_last r < range_maximum" "value_at m (r_last r + 1) = Some v"
  then have i: "i = rm_find m (r_last r + 1)" by (simp add: i_def)
  note el = value_at_element [OF ok(1) f(2), folded i]
  let ?e = "fst (m ! i)"
  have dis: "set_of ?e \<inter> set_of r = {}" using ok(3) el(4) by blast
  have lt: "r_last r < r_last r + 1" "\<And>x :: 'a word. r_last r + 1 \<le> x \<longleftrightarrow> r_last r < x"
    by (simp_all add: word_succ_iffs(1,2) [OF f(1)])
  have fl: "r_first r \<le> r_last r" "r_first ?e \<le> r_last r + 1" "r_last r + 1 \<le> r_last ?e" using ok(2) el(2) by (auto simp: not_empty_le)
  have "r_last r \<notin> set_of ?e" using dis fl(1) by auto
  then have "\<not> r_first ?e \<le> r_last r" using fl(3) lt(1) by auto
  then have "r_first ?e = r_last r + 1" using fl(2) lt(2) [of "r_first ?e"] by (simp add: not_le)
  then have "abuts_lt r ?e" "r_first ?e \<le> r_last ?e" using ok(2) fl(3) by (auto simp: abuts_lt_def range_empty_def)
  then show "r_last r + 1 \<in> set_of r'"
    using step el(1,3) fl lt \<open>r_first ?e = r_last r + 1\<close>
    by (auto simp: range_map_value_def bind_eq_Some_conv range_join_def range_inin_Some_iff assert_opt_def split: if_splits)
qed

text \<open>Property C24. \<open>RangeMap::find\<close>: in a map that satisfies the invariant, the iterator returned for an
  address points to the one element whose range contains the address, and is \<open>end()\<close> exactly when no range of
  the map contains it.\<close>

theorem find_spec:
  assumes "rm_ok m"
  shows "(rm_find m a < length m \<and> a \<in> set_of (fst (m ! rm_find m a)) \<and>
      (\<forall>i < length m. a \<in> set_of (fst (m ! i)) \<longrightarrow> m ! i = m ! rm_find m a)) \<or>
    (rm_find m a = length m \<and> (\<forall>i < length m. a \<notin> set_of (fst (m ! i))))"
  using find_cases [OF assms, of a]
proof
  assume "rm_find m a < length m \<and> a \<in> set_of (fst (m ! rm_find m a))"
  then show ?thesis using rm_ok_unique [OF assms] nth_mem by blast
next
  assume "rm_find m a = length m \<and> a \<notin> rm_dom m"
  then show ?thesis unfolding rm_dom_def using nth_mem by blast
qed

definition two_ranges :: "(64 word, int) rmap" where
  "two_ranges = [(\<lparr>r_first = 10, r_last = 19\<rparr>, 1), (\<lparr>r_first = 30, r_last = 39\<rparr>, 2)]"

lemma two_ranges_ok: "rm_ok two_ranges" and length_two_ranges: "length two_ranges = 2"
  by (simp_all add: two_ranges_def rm_ok_def rm_before_def)

theorem find_spec_witness: "rm_find two_ranges 35 = 1 \<and> rm_find two_ranges 25 = 2"
proof -
  have "rm_find two_ranges 35 = 1" "rm_find two_ranges 25 = 2" by code_simp+
  then show ?thesis using find_spec [OF two_ranges_ok, of 35] by (simp add: length_two_ranges)
qed

text \<open>Property C1. \<open>RangeMap::erase\<close> on a map of \<open>RangeMapValue\<close>s: no assertion fails, the invariant is kept, the
  addresses of the erased range have no value afterwards and every other address keeps its value, whatever
  ranges the erased one splits, truncates or removes.\<close>

theorem erase_spec:
  assumes "rm_ok m"
  shows "\<exists>m'. rm_erase (range_map_value d) m r = Some m' \<and> rm_ok m' \<and>
    (\<forall>a. value_at m' a = (if a \<in> set_of r then None else value_at m a))"
  using val.erase_lookup [where m = m and er = r and d = d] assms by (simp add: rm_inv_True)

theorem erase_spec_witness:
  "\<exists>m'. rm_erase (range_map_value 0) two_ranges \<lparr>r_first = 15, r_last = 32\<rparr> = Some m' \<and> rm_ok m' \<and>
    value_at m' 14 = Some 1 \<and> value_at m' 15 = None \<and> value_at m' 33 = Some 2"
proof -
  have v: "value_at two_ranges 14 = Some 1" "value_at two_ranges 33 = Some 2" by code_simp+
  obtain m' where m': "rm_erase (range_map_value 0) two_ranges \<lparr>r_first = 15, r_last = 32\<rparr> = Some m'" "rm_ok m'"
    "\<forall>a. value_at m' a = (if a \<in> set_of \<lparr>r_first = 15, r_last = 32\<rparr> then None else value_at two_ranges a)"
    using erase_spec [OF two_ranges_ok, of 0 "\<lparr>r_first = 15, r_last = 32\<rparr>"] by blast
  show ?thesis by (rule exI [of _ m']) (simp add: m' v)
qed

text \<open>Property C2. \<open>RangeMap::insert\<close> with \<open>make_hole\<close>: no assertion fails, the new range gets the new value, every other
  address keeps its value, and the invariant is kept. The returned iterator denotes one element that contains the new range
  and, merged with it, the address on either side of the range if that has the same value.\<close>

theorem insert_spec:
  assumes "rm_ok m" "\<not> range_empty r"
  shows "\<exists>m' i. rm_insert (range_map_value d) m r v True = Some (m', i) \<and> rm_ok m' \<and>
    i < length m' \<and> set_of r \<subseteq> set_of (fst (m' ! i)) \<and>
    (\<forall>a. value_at m' a = (if a \<in> set_of r then Some v else value_at m a)) \<and>
    (r_first r \<noteq> 0 \<and> value_at m (r_first r - 1) = Some v \<longrightarrow> r_first r - 1 \<in> set_of (fst (m' ! i))) \<and>
    (r_last r \<noteq> - 1 \<and> value_at m (r_last r + 1) = Some v \<longrightarrow> r_last r + 1 \<in> set_of (fst (m' ! i)))"
proof -
  have inv: "rm_inv (\<lambda>_ _. True) m" using assms(1) by (simp add: rm_inv_True)
  obtain m1 m2 nr2 nv2 m3 nr3 nv3 m' i where d: "val.insert_ready m1 r v"
    "rm_cells (\<lambda>_ v _. v) (set m1) = {(a, x) \<in> rm_cells (\<lambda>_ v _. v) (set m). a \<notin> set_of r}"
    "merge_left (range_map_value d) m1 r v = Some (m2, nr2, nv2)" "val.insert_ready m2 nr2 nv2"
    "rm_cells (\<lambda>_ v _. v) (insert (nr2, nv2) (set m2)) = rm_cells (\<lambda>_ v _. v) (insert (r, v) (set m1))"
    "merge_right (range_map_value d) m2 nr2 nv2 = Some (m3, nr3, nv3)" "set_of nr2 \<subseteq> set_of nr3"
    "rm_insert (range_map_value d) m r v True = Some (m', i)" "m' ! i = (nr3, nv3)"
    using val.insert_decomposes [OF inv assms(2) TrueI, of d v] by (elim exE conjE) (rule that)
  obtain m'' i' where s: "rm_insert (range_map_value d) m r v True = Some (m'', i')" "rm_ok m''" "i' < length m''"
    "set_of r \<subseteq> set_of (fst (m'' ! i'))" "\<forall>a. value_at m'' a = (if a \<in> set_of r then Some v else value_at m a)"
    using val.insert_lookup [where m = m and nr = r and nv = v and make_hole = True and d = d] assms
    by (auto simp: rm_inv_True)
  have eq: "m'' = m'" "i' = i" using s(1) d(8) by simp_all
  have ok: "rm_ok m1" "rm_ok m2" using d(1,4) by (simp_all add: val.insert_ready_def rm_inv_def)
  have kept: "value_at m1 a = value_at m a" if "a \<notin> set_of r" for a
  proof -
    have "value_at m1 a = Some x \<longleftrightarrow> value_at m a = Some x" for x
      unfolding rm_lookup_iff [OF ok(1)] rm_lookup_iff [OF assms(1)] d(2) using that by simp
    then show ?thesis by (metis not_None_eq)
  qed
  note L = merge_left_absorbs [OF d(1,3)]
  have d': "val.insert_ready m2 nr2 v" "merge_right (range_map_value d) m2 nr2 v = Some (m3, nr3, nv3)"
    using d(4,6) L(1) by simp_all
  note R = merge_right_absorbs [OF d']
  have "r_first r - 1 \<in> set_of nr3" if f: "r_first r \<noteq> 0" "value_at m (r_first r - 1) = Some v"
  proof -
    have "r_first r - 1 < r_first r" using less_eq_dec_iff [of "r_first r - 1" "r_first r"] f(1) by simp
    then have "r_first r - 1 \<notin> set_of r" by (simp add: not_le)
    then have "value_at m1 (r_first r - 1) = Some v" using kept f(2) by simp
    then show ?thesis using L(3) f(1) d(7) by blast
  qed
  moreover have "r_last r + 1 \<in> set_of nr3" if f: "r_last r \<noteq> - 1" "value_at m (r_last r + 1) = Some v"
  proof -
    have max: "r_last r < range_maximum" using f(1) by (simp add: range_maximum_def less_max_word_iff)
    then have gt: "r_last r < r_last r + 1" by (simp add: word_succ_iffs(2))
    then have "r_last r + 1 \<notin> set_of r" by (simp add: not_le)
    then have "value_at m1 (r_last r + 1) = Some v" using kept f(2) by simp
    then have "(r_last r + 1, v) \<in> rm_cells (\<lambda>_ v _. v) (insert (nr2, nv2) (set m2))"
      unfolding d(5) rm_lookup_iff [OF ok(1)] by (simp add: rm_cells_def) blast
    moreover have "r_last r + 1 \<notin> set_of nr2" using L(2) gt by (simp add: not_le)
    ultimately have "value_at m2 (r_last r + 1) = Some v" unfolding rm_lookup_iff [OF ok(2)] rm_cells_def by auto
    then show ?thesis using R(2) L(2) max by simp
  qed
  ultimately show ?thesis using s d(9) unfolding eq by (intro exI [of _ m'] exI [of _ i]) simp
qed

theorem insert_spec_witness:
  "\<exists>m' i. rm_insert (range_map_value 0) two_ranges \<lparr>r_first = 20, r_last = 24\<rparr> 1 True = Some (m', i) \<and> rm_ok m' \<and>
    {19..24} \<subseteq> set_of (fst (m' ! i)) \<and> value_at m' 10 = Some 1 \<and> value_at m' 24 = Some 1 \<and> value_at m' 25 = None"
proof -
  have v: "value_at two_ranges 10 = Some 1" "value_at two_ranges 19 = Some 1" "value_at two_ranges 25 = None" by code_simp+
  obtain m' i where m': "rm_insert (range_map_value 0) two_ranges \<lparr>r_first = 20, r_last = 24\<rparr> 1 True = Some (m', i)"
    "rm_ok m'" "\<forall>a. value_at m' a = (if a \<in> set_of \<lparr>r_first = 20, r_last = 24\<rparr> then Some 1 else value_at two_ranges a)"
    "19 \<in> set_of (fst (m' ! i))" "set_of \<lparr>r_first = 20, r_last = 24\<rparr> \<subseteq> set_of (fst (m' ! i))"
    using insert_spec [OF two_ranges_ok, of "\<lparr>r_first = 20, r_last = 24\<rparr>" 0 1] v(2) by auto
  have "24 \<in> set_of (fst (m' ! i))" by (rule subsetD [OF m'(5)]) simp
  then have "{19..24} \<subseteq> set_of (fst (m' ! i))" using m'(4) by auto
  then show ?thesis using m'(1-3) v by (intro exI [of _ m'] exI [of _ i]) simp
qed

text \<open>Property C26. \<open>RangeMap::insert\<close> without \<open>make_hole\<close>: if any address of the new range is already mapped the
  map is unchanged and \<open>end()\<close> is returned; otherwise the result is as with \<open>make_hole\<close>.\<close>

theorem insert_no_hole_spec:
  assumes "rm_ok m" "\<not> range_empty r"
  shows "if \<exists>a \<in> set_of r. value_at m a \<noteq> None
    then rm_insert (range_map_value d) m r v False = Some (m, length m)
    else \<exists>m' i. rm_insert (range_map_value d) m r v False = Some (m', i) \<and> rm_ok m' \<and> i < length m' \<and>
      (\<forall>a. value_at m' a = (if a \<in> set_of r then Some v else value_at m a))"
proof -
  have "value_at m a \<noteq> None \<longleftrightarrow> a \<in> rm_dom m" for a
    using rm_lookup_iff [OF assms(1), of "\<lambda>_ v _. v" a] val.dom_cells [of a m] by auto
  then have "(\<exists>a \<in> set_of r. value_at m a \<noteq> None) \<longleftrightarrow> rm_dom m \<inter> set_of r \<noteq> {}"
    by (auto simp del: mem_set_of)
  then show ?thesis
    using val.insert_refused [where m = m and nr = r and nv = v and d = d] val.insert_lookup [where m = m and nr = r and nv = v and make_hole = False and d = d] assms
    by (auto simp: rm_inv_True simp del: mem_set_of)
qed

theorem insert_no_hole_spec_witness:
  "rm_insert (range_map_value 0) two_ranges \<lparr>r_first = 5, r_last = 10\<rparr> 3 False = Some (two_ranges, 2)"
proof -
  have "value_at two_ranges 10 = Some 1" by code_simp
  then have "\<exists>a \<in> set_of \<lparr>r_first = 5, r_last = 10\<rparr>. value_at two_ranges a \<noteq> None"
    by (intro bexI [of _ 10]) simp_all
  then show ?thesis
    using insert_no_hole_spec [OF two_ranges_ok, of "\<lparr>r_first = 5, r_last = 10\<rparr>" 0 3] by (simp add: length_two_ranges)
qed

text \<open>Property C27. \<open>RangeMap::contains(Range)\<close> walks the map without failing an assertion and answers
  whether every value of the range is in the map, also when the range spans several adjacent elements.\<close>

theorem contains_spec:
  assumes "rm_ok m"
  shows "rm_contains_range m need = Some (\<forall>a \<in> set_of need. rm_find m a \<noteq> length m)"
proof -
  have "rm_find m a \<noteq> length m \<longleftrightarrow> a \<in> rm_dom m" for a
    using find_cases [OF assms, of a] nth_mem unfolding rm_dom_def by fastforce
  then show ?thesis using contains_range_correct [OF assms, of need] by (auto simp del: mem_set_of)
qed

theorem contains_spec_witness:
  "rm_contains_range two_ranges \<lparr>r_first = 12, r_last = 19\<rparr> =
     Some (\<forall>a \<in> set_of \<lparr>r_first = 12, r_last = 19\<rparr>. rm_find two_ranges a \<noteq> 2) \<and>
   rm_contains_range two_ranges \<lparr>r_first = 12, r_last = 19\<rparr> = Some True"
proof -
  have "rm_contains_range two_ranges \<lparr>r_first = 12, r_last = 19\<rparr> = Some True" by code_simp
  then show ?thesis using contains_spec [OF two_ranges_ok, of "\<lparr>r_first = 12, r_last = 19\<rparr>"]
    by (simp add: length_two_ranges)
qed

text \<open>\<open>RangeMap::size\<close> is the number of values in the map, modulo the size of the value type.\<close>

theorem size_spec:
  assumes "rm_ok m"
  shows "unat (rm_size m) = card (\<Union>e \<in> set m. set_of (fst (e :: 'a::len word Range \<times> 'v))) mod 2 ^ LENGTH('a)"
  using rm_size_card [OF assms] by (simp add: rm_dom_def unat_of_nat take_bit_eq_mod)

theorem size_spec_witness:
  "20 = card (\<Union>e \<in> set two_ranges. set_of (fst e)) mod 2 ^ 64"
proof -
  have "rm_size two_ranges = 20" by code_simp
  then show ?thesis using size_spec [OF two_ranges_ok] by simp
qed

text \<open>Property C28. \<open>RangeMap::invert_within\<close>: if no range of the map that meets the limits ends at the largest
  value, the result is a well-formed map of exactly the values of the limits that are not in the map.\<close>

theorem invert_within_spec:
  assumes "rm_ok m" "\<forall>e \<in> set m. r_last (fst e) = -1 \<longrightarrow> r_last limits < r_first (fst e)"
  shows "\<exists>inv. rm_invert_within range_map_void m limits = Some inv \<and> rm_ok inv \<and>
    (\<forall>a. rm_find inv a \<noteq> length inv \<longleftrightarrow> a \<in> set_of limits \<and> rm_find m a = length m)"
proof -
  obtain inv where inv: "rm_invert_within range_map_void m limits = Some inv" "rm_ok inv"
    "rm_dom inv = set_of limits - rm_dom m"
    using void.invert_within_correct [OF assms] by (auto simp: rm_inv_True)
  have "rm_find m' a \<noteq> length m' \<longleftrightarrow> a \<in> rm_dom m'" if "rm_ok m'" for a and m' :: "('a word, 'w) rmap"
    using find_cases [OF that, of a] nth_mem unfolding rm_dom_def by fastforce
  from this [OF inv(2)] this [OF assms(1)] show ?thesis using inv by blast
qed

theorem invert_within_spec_witness:
  "\<exists>inv. rm_invert_within range_map_void two_ranges \<lparr>r_first = 0, r_last = 50\<rparr> = Some inv \<and> rm_ok inv \<and>
    rm_find inv 25 \<noteq> length inv \<and> rm_find inv 35 = length inv"
proof -
  have f: "rm_find two_ranges 25 = 2" "rm_find two_ranges 35 = 1" by code_simp+
  obtain inv where inv: "rm_invert_within range_map_void two_ranges \<lparr>r_first = 0, r_last = 50\<rparr> = Some inv" "rm_ok inv"
    "\<forall>a. rm_find inv a \<noteq> length inv \<longleftrightarrow> a \<in> set_of \<lparr>r_first = 0, r_last = 50\<rparr> \<and> rm_find two_ranges a = length two_ranges"
    using invert_within_spec [OF two_ranges_ok, of "\<lparr>r_first = 0, r_last = 50\<rparr>"] by (auto simp: two_ranges_def)
  show ?thesis using inv(1,2) inv(3) [rule_format, of 25] inv(3) [rule_format, of 35]
    by (intro exI [of _ inv]) (simp add: f length_two_ranges)
qed

text \<open>When a range does end at the largest value, \<open>invert_within\<close> is wrong: \<open>pending\<close> wraps around to
  zero and the whole interval up to the limit is inserted, mapped values included.\<close>

theorem invert_within_wraps:
  "rm_invert_within range_map_void [(\<lparr>r_first = 5, r_last = -1\<rparr>, ())] \<lparr>r_first = 0, r_last = (10 :: 64 word)\<rparr> =
     Some [(\<lparr>r_first = 0, r_last = 10\<rparr>, ())]"
  by code_simp

text \<open>Property C29. \<open>RangeMap::check\<close>, run on non-empty ranges, accepts exactly the maps that satisfy the invariant,
  with one exception: it rejects a map of two ranges that begins at zero and ends at the largest value,
  because \<open>abuts_gt\<close> and \<open>abuts_lt\<close> wrap around.\<close>

theorem check_spec:
  assumes "\<forall>e \<in> set m. \<not> range_empty (fst e)"
  shows "rm_check m \<longleftrightarrow>
    rm_ok m \<and> \<not> (length m = 2 \<and> r_first (fst (hd m)) = range_minimum \<and> r_last (fst (last m)) = range_maximum)"
  using rm_check_iff [OF assms] by (simp add: range_minimum_def range_maximum_def)

theorem check_spec_witness:
  "rm_check two_ranges \<and> \<not> rm_check [(\<lparr>r_first = 0, r_last = 4\<rparr>, ()), (\<lparr>r_first = 9 :: 64 word, r_last = -1\<rparr>, ())]"
  using check_spec [of two_ranges] two_ranges_ok
    check_spec [of "[(\<lparr>r_first = 0, r_last = 4\<rparr>, ()), (\<lparr>r_first = 9 :: 64 word, r_last = -1\<rparr>, ())]"]
  by (simp add: range_minimum_def range_maximum_def two_ranges_def)

text \<open>Property C30. Joining the two halves that \<open>split_range_at\<close> returns gives the original range, the halves are
  disjoint and cover it; the split succeeds exactly for split points that leave neither half empty.\<close>

theorem split_join_spec:
  "(range_split_at r at \<noteq> None \<longleftrightarrow> r_first r < at \<and> at \<le> r_last r) \<and>
   (case range_split_at r at of None \<Rightarrow> True
    | Some (lt, rt) \<Rightarrow> range_join lt rt = Some r \<and> left_of lt rt \<and> r_first rt = at \<and>
        set_of lt \<union> set_of rt = set_of r)"
proof (cases "range_split_at r at")
  case None
  then show ?thesis using split_at_Some [of r at] by auto
next
  case (Some p)
  then show ?thesis using split_at_fails [of r at] split_join [of r at "fst p" "snd p"]
    by (cases p) auto
qed

end
