(* ===== verification/Registers.thy ===== *)
theory Registers
  imports Prelude "HOL-Library.Char_ord" "HOL-Library.List_Lexorder"
begin

unbundle bit_operations_syntax

text \<open>
  Register descriptors and the register dictionaries of \<^verbatim>\<open>src/frontend/Disassemblers/Registers.C\<close>: a map
  from names to descriptors together with a reverse map from descriptor hashes to names. The
  invariant ties the two maps together; insertion keeps it and never fails its assertions, so that
  reverse lookup is sound and complete. The forward map is the list of its entries in name order,
  which is the order in which one dictionary is copied into another.
\<close>

section \<open>Descriptors\<close>

record RegisterDescriptor =
  majr :: nat
  minr :: nat
  offset :: nat
  nbits :: nat

definition reg_desc :: "nat \<Rightarrow> nat \<Rightarrow> nat \<Rightarrow> nat \<Rightarrow> RegisterDescriptor" where
  "reg_desc mj mn off n = \<lparr>majr = mj, minr = mn, offset = off, nbits = n\<rparr>"

text \<open>The enumerations of \<open>InstructionEnumsX86.h\<close> that descriptors are built from.\<close>

abbreviation (input) "x86_regclass_gpr \<equiv> 0 :: nat"
abbreviation (input) "x86_regclass_segment \<equiv> 1 :: nat"
abbreviation (input) "x86_regclass_cr \<equiv> 2 :: nat"
abbreviation (input) "x86_regclass_dr \<equiv> 3 :: nat"
abbreviation (input) "x86_regclass_st \<equiv> 4 :: nat"
abbreviation (input) "x86_regclass_mm \<equiv> 5 :: nat"
abbreviation (input) "x86_regclass_xmm \<equiv> 6 :: nat"
abbreviation (input) "x86_regclass_ip \<equiv> 7 :: nat"
abbreviation (input) "x86_regclass_flags \<equiv> 8 :: nat"

abbreviation (input) "x86_segreg_es \<equiv> 0 :: nat"
abbreviation (input) "x86_segreg_cs \<equiv> 1 :: nat"
abbreviation (input) "x86_segreg_ss \<equiv> 2 :: nat"
abbreviation (input) "x86_segreg_ds \<equiv> 3 :: nat"
abbreviation (input) "x86_segreg_fs \<equiv> 4 :: nat"
abbreviation (input) "x86_segreg_gs \<equiv> 5 :: nat"
abbreviation (input) "x86_segreg_none \<equiv> 16 :: nat"

abbreviation (input) "x86_gpr_ax \<equiv> 0 :: nat"
abbreviation (input) "x86_gpr_cx \<equiv> 1 :: nat"
abbreviation (input) "x86_gpr_dx \<equiv> 2 :: nat"
abbreviation (input) "x86_gpr_bx \<equiv> 3 :: nat"
abbreviation (input) "x86_gpr_sp \<equiv> 4 :: nat"
abbreviation (input) "x86_gpr_bp \<equiv> 5 :: nat"
abbreviation (input) "x86_gpr_si \<equiv> 6 :: nat"
abbreviation (input) "x86_gpr_di \<equiv> 7 :: nat"

section \<open>Dictionaries\<close>

record RegisterDictionary =
  rd_name :: string
  rd_forward :: "(string \<times> RegisterDescriptor) list"
  rd_reverse :: "u64 \<Rightarrow> string list option"

text \<open>The members of a descriptor are 32-bit unsigned; the shifts are done at that width.\<close>

definition reg_hash :: "RegisterDescriptor \<Rightarrow> u64" where
  "reg_hash d =
     ucast (push_bit 24 (of_nat (majr d) :: u32)) XOR ucast (push_bit 16 (of_nat (minr d) :: u32)) XOR
     ucast (push_bit 8 (of_nat (offset d) :: u32)) XOR ucast (of_nat (nbits d) :: u32)"

fun entries_put :: "string \<Rightarrow> 'd \<Rightarrow> (string \<times> 'd) list \<Rightarrow> (string \<times> 'd) list" where
  "entries_put k v [] = [(k, v)]"
| "entries_put k v ((k', v') # m) =
     (if k' < k then (k', v') # entries_put k v m
      else if k = k' then (k, v) # m
      else (k, v) # (k', v') # m)"

definition dict_new :: "string \<Rightarrow> RegisterDictionary" where
  "dict_new name = \<lparr>rd_name = name, rd_forward = [], rd_reverse = (\<lambda>_. None)\<rparr>"

definition dict_insert :: "RegisterDictionary \<Rightarrow> string \<Rightarrow> RegisterDescriptor \<Rightarrow> RegisterDictionary option" where
  "dict_insert d name rdesc =
     do { rev \<leftarrow>
            (case map_of (rd_forward d) name of
               None \<Rightarrow> Some (rd_reverse d)
             | Some old \<Rightarrow>
                 (case rd_reverse d (reg_hash old) of
                    None \<Rightarrow> None
                  | Some names \<Rightarrow>
                      do { assert_opt (name \<in> set names);
                           Some ((rd_reverse d)(reg_hash old := Some (remove1 name names))) }));
          let names = (case rev (reg_hash rdesc) of None \<Rightarrow> [] | Some names \<Rightarrow> names)
          in Some (d\<lparr>rd_forward := entries_put name rdesc (rd_forward d),
                     rd_reverse := rev(reg_hash rdesc := Some (names @ [name]))\<rparr>) }"

fun dict_insert_list ::
  "(string \<times> RegisterDescriptor) list \<Rightarrow> RegisterDictionary \<Rightarrow> RegisterDictionary option" where
  "dict_insert_list [] d = Some d"
| "dict_insert_list ((name, desc) # es) d =
     do { d \<leftarrow> dict_insert d name desc; dict_insert_list es d }"

definition dict_insert_dict :: "RegisterDictionary \<Rightarrow> RegisterDictionary \<Rightarrow> RegisterDictionary option" where
  "dict_insert_dict d other = dict_insert_list (rd_forward other) d"

definition dict_lookup :: "RegisterDictionary \<Rightarrow> string \<Rightarrow> RegisterDescriptor option" where
  "dict_lookup d name = map_of (rd_forward d) name"

text \<open>Reverse lookup scans the names of the hash bucket from the latest to the earliest.\<close>

fun reverse_scan :: "RegisterDictionary \<Rightarrow> RegisterDescriptor \<Rightarrow> string list \<Rightarrow> string option" where
  "reverse_scan d rdesc [] = Some []"
| "reverse_scan d rdesc (name # names) =
     (case dict_lookup d name of
        None \<Rightarrow> None
      | Some desc \<Rightarrow> if desc = rdesc then Some name else reverse_scan d rdesc names)"

definition dict_lookup_desc :: "RegisterDictionary \<Rightarrow> RegisterDescriptor \<Rightarrow> string option" where
  "dict_lookup_desc d rdesc =
     (case rd_reverse d (reg_hash rdesc) of
        None \<Rightarrow> Some []
      | Some names \<Rightarrow> reverse_scan d rdesc (rev names))"

definition dict_resize :: "RegisterDictionary \<Rightarrow> string \<Rightarrow> nat \<Rightarrow> RegisterDictionary option" where
  "dict_resize d name new_nbits =
     do { old \<leftarrow> dict_lookup d name; dict_insert d name (old\<lparr>nbits := new_nbits\<rparr>) }"

section \<open>The dictionaries of the Intel processors\<close>

definition reg_entries :: "(string \<times> nat \<times> nat \<times> nat \<times> nat) list \<Rightarrow> (string \<times> RegisterDescriptor) list" where
  "reg_entries es = map (\<lambda>(name, mj, mn, off, n). (name, reg_desc mj mn off n)) es"

definition dict_extend ::
  "string \<Rightarrow> RegisterDictionary option \<Rightarrow> (string \<times> nat \<times> nat \<times> nat \<times> nat) list \<Rightarrow>
   RegisterDictionary option" where
  "dict_extend name base es =
     do { b \<leftarrow> base; d \<leftarrow> dict_insert_dict (dict_new name) b; dict_insert_list (reg_entries es) d }"

definition i8086_entries :: "(string \<times> nat \<times> nat \<times> nat \<times> nat) list" where
  "i8086_entries =
     [(''al'', x86_regclass_gpr, x86_gpr_ax, 0, 8), (''ah'', x86_regclass_gpr, x86_gpr_ax, 8, 8),
      (''ax'', x86_regclass_gpr, x86_gpr_ax, 0, 16),
      (''bl'', x86_regclass_gpr, x86_gpr_bx, 0, 8), (''bh'', x86_regclass_gpr, x86_gpr_bx, 8, 8),
      (''bx'', x86_regclass_gpr, x86_gpr_bx, 0, 16),
      (''cl'', x86_regclass_gpr, x86_gpr_cx, 0, 8), (''ch'', x86_regclass_gpr, x86_gpr_cx, 8, 8),
      (''cx'', x86_regclass_gpr, x86_gpr_cx, 0, 16),
      (''dl'', x86_regclass_gpr, x86_gpr_dx, 0, 8), (''dh'', x86_regclass_gpr, x86_gpr_dx, 8, 8),
      (''dx'', x86_regclass_gpr, x86_gpr_dx, 0, 16),
      (''cs'', x86_regclass_segment, x86_segreg_cs, 0, 16),
      (''ds'', x86_regclass_segment, x86_segreg_ds, 0, 16),
      (''ss'', x86_regclass_segment, x86_segreg_ss, 0, 16),
      (''es'', x86_regclass_segment, x86_segreg_es, 0, 16),
      (''sp'', x86_regclass_gpr, x86_gpr_sp, 0, 16),
      (''spl'', x86_regclass_gpr, x86_gpr_sp, 0, 8),
      (''bp'', x86_regclass_gpr, x86_gpr_bp, 0, 16),
      (''bpl'', x86_regclass_gpr, x86_gpr_bp, 0, 8), (''ip'', x86_regclass_ip, 0, 0, 16),
      (''ipl'', x86_regclass_ip, 0, 0, 8), (''si'', x86_regclass_gpr, x86_gpr_si, 0, 16),
      (''sil'', x86_regclass_gpr, x86_gpr_si, 0, 8),
      (''di'', x86_regclass_gpr, x86_gpr_di, 0, 16),
      (''dil'', x86_regclass_gpr, x86_gpr_di, 0, 8), (''flags'', x86_regclass_flags, 0, 0, 16),
      (''cf'', x86_regclass_flags, 0, 0, 1), (''pf'', x86_regclass_flags, 0, 2, 1),
      (''af'', x86_regclass_flags, 0, 4, 1), (''zf'', x86_regclass_flags, 0, 6, 1),
      (''sf'', x86_regclass_flags, 0, 7, 1), (''tf'', x86_regclass_flags, 0, 8, 1),
      (''if'', x86_regclass_flags, 0, 9, 1), (''df'', x86_regclass_flags, 0, 10, 1),
      (''of'', x86_regclass_flags, 0, 11, 1), (''nt'', x86_regclass_flags, 0, 14, 1)]"

definition dictionary_i8086 :: "RegisterDictionary option" where
  "dictionary_i8086 = dict_insert_list (reg_entries i8086_entries) (dict_new ''i8086'')"

definition dictionary_i8088 :: "RegisterDictionary option" where
  "dictionary_i8088 = dict_extend ''i8088'' dictionary_i8086 []"

definition i286_entries :: "(string \<times> nat \<times> nat \<times> nat \<times> nat) list" where
  "i286_entries =
     [(''iopl'', x86_regclass_flags, 0, 12, 2), (''nt'', x86_regclass_flags, 0, 14, 1)]"

definition dictionary_i286 :: "RegisterDictionary option" where
  "dictionary_i286 = dict_extend ''i286'' dictionary_i8086 i286_entries"

definition i386_entries :: "(string \<times> nat \<times> nat \<times> nat \<times> nat) list" where
  "i386_entries =
     [(''eax'', x86_regclass_gpr, x86_gpr_ax, 0, 32),
      (''ebx'', x86_regclass_gpr, x86_gpr_bx, 0, 32),
      (''ecx'', x86_regclass_gpr, x86_gpr_cx, 0, 32),
      (''edx'', x86_regclass_gpr, x86_gpr_dx, 0, 32),
      (''esp'', x86_regclass_gpr, x86_gpr_sp, 0, 32),
      (''ebp'', x86_regclass_gpr, x86_gpr_bp, 0, 32), (''eip'', x86_regclass_ip, 0, 0, 32),
      (''esi'', x86_regclass_gpr, x86_gpr_si, 0, 32),
      (''edi'', x86_regclass_gpr, x86_gpr_di, 0, 32), (''eflags'', x86_regclass_flags, 0, 0, 32),
      (''fs'', x86_regclass_segment, x86_segreg_fs, 0, 16),
      (''gs'', x86_regclass_segment, x86_segreg_gs, 0, 16),
      (''rf'', x86_regclass_flags, 0, 16, 1), (''vm'', x86_regclass_flags, 0, 17, 1),
      (''cr0'', x86_regclass_cr, 0, 0, 32), (''cr1'', x86_regclass_cr, 1, 0, 32),
      (''cr2'', x86_regclass_cr, 2, 0, 32), (''cr3'', x86_regclass_cr, 3, 0, 32),
      (''cr4'', x86_regclass_cr, 4, 0, 32), (''dr0'', x86_regclass_dr, 0, 0, 32),
      (''dr1'', x86_regclass_dr, 1, 0, 32), (''dr2'', x86_regclass_dr, 2, 0, 32),
      (''dr3'', x86_regclass_dr, 3, 0, 32), (''dr6'', x86_regclass_dr, 6, 0, 32),
      (''dr7'', x86_regclass_dr, 7, 0, 32)]"

definition dictionary_i386 :: "RegisterDictionary option" where
  "dictionary_i386 = dict_extend ''i386'' dictionary_i286 i386_entries"

definition i486_entries :: "(string \<times> nat \<times> nat \<times> nat \<times> nat) list" where
  "i486_entries =
     [(''ac'', x86_regclass_flags, 0, 18, 1), (''st(0)'', x86_regclass_st, 0, 0, 80),
      (''st(1)'', x86_regclass_st, 1, 0, 80), (''st(2)'', x86_regclass_st, 2, 0, 80),
      (''st(3)'', x86_regclass_st, 3, 0, 80), (''st(4)'', x86_regclass_st, 4, 0, 80),
      (''st(5)'', x86_regclass_st, 5, 0, 80), (''st(6)'', x86_regclass_st, 6, 0, 80),
      (''st(7)'', x86_regclass_st, 7, 0, 80)]"

definition dictionary_i486 :: "RegisterDictionary option" where
  "dictionary_i486 = dict_extend ''i486'' dictionary_i386 i486_entries"

definition pentium_entries :: "(string \<times> nat \<times> nat \<times> nat \<times> nat) list" where
  "pentium_entries =
     [(''vif'', x86_regclass_flags, 0, 19, 1), (''vip'', x86_regclass_flags, 0, 20, 1),
      (''id'', x86_regclass_flags, 0, 21, 1), (''mm0'', x86_regclass_mm, 0, 0, 64),
      (''mm1'', x86_regclass_mm, 1, 0, 64), (''mm2'', x86_regclass_mm, 2, 0, 64),
      (''mm3'', x86_regclass_mm, 3, 0, 64), (''mm4'', x86_regclass_mm, 4, 0, 64),
      (''mm5'', x86_regclass_mm, 5, 0, 64), (''mm6'', x86_regclass_mm, 6, 0, 64),
      (''mm7'', x86_regclass_mm, 7, 0, 64)]"

definition dictionary_pentium :: "RegisterDictionary option" where
  "dictionary_pentium = dict_extend ''pentium'' dictionary_i486 pentium_entries"

definition pentium4_entries :: "(string \<times> nat \<times> nat \<times> nat \<times> nat) list" where
  "pentium4_entries =
     [(''mmx0'', x86_regclass_xmm, 0, 0, 128), (''mmx1'', x86_regclass_xmm, 1, 0, 128),
      (''mmx2'', x86_regclass_xmm, 2, 0, 128), (''mmx3'', x86_regclass_xmm, 3, 0, 128),
      (''mmx4'', x86_regclass_xmm, 4, 0, 128), (''mmx5'', x86_regclass_xmm, 5, 0, 128),
      (''mmx6'', x86_regclass_xmm, 6, 0, 128), (''mmx7'', x86_regclass_xmm, 7, 0, 128)]"

definition dictionary_pentium4 :: "RegisterDictionary option" where
  "dictionary_pentium4 = dict_extend ''pentium4'' dictionary_pentium pentium4_entries"

section \<open>Invariant\<close>

definition dict_ok :: "RegisterDictionary \<Rightarrow> bool" where
  "dict_ok d \<longleftrightarrow>
     sorted_wrt (<) (map fst (rd_forward d)) \<and>
     (\<forall>name desc. dict_lookup d name = Some desc \<longrightarrow>
        (\<exists>names. rd_reverse d (reg_hash desc) = Some names \<and> name \<in> set names)) \<and>
     (\<forall>h names. rd_reverse d h = Some names \<longrightarrow> distinct names \<and>
        (\<forall>name \<in> set names. \<exists>desc. dict_lookup d name = Some desc \<and> reg_hash desc = h))"

lemma dict_okD:
  assumes "dict_ok d"
  shows "dict_lookup d name = Some desc \<Longrightarrow> \<exists>names. rd_reverse d (reg_hash desc) = Some names \<and> name \<in> set names"
    and "rd_reverse d h = Some names \<Longrightarrow> distinct names"
    and "rd_reverse d h = Some names \<Longrightarrow> name \<in> set names \<Longrightarrow> \<exists>desc. dict_lookup d name = Some desc \<and> reg_hash desc = h"
    and "sorted_wrt (<) (map fst (rd_forward d))"
  using assms by (auto simp: dict_ok_def)

lemma map_of_entries_put: "map_of (entries_put k v m) = (map_of m)(k \<mapsto> v)"
  by (induction k v m rule: entries_put.induct) auto

lemma set_entries_put: "fst ` set (entries_put k v m) = insert k (fst ` set m)"
  by (induction k v m rule: entries_put.induct) auto

lemma sorted_entries_put:
  "sorted_wrt (<) (map fst m) \<Longrightarrow> sorted_wrt (<) (map fst (entries_put k v m))"
proof (induction k v m rule: entries_put.induct)
  case (2 k v k' v' m)
  then show ?case using set_entries_put [of k v m] by (auto simp: image_iff)
qed simp

lemma dict_ok_new: "dict_ok (dict_new name)"
  by (simp add: dict_ok_def dict_new_def dict_lookup_def)

lemma dict_insert_ok:
  assumes "dict_ok d"
  shows "\<exists>d'. dict_insert d name desc = Some d' \<and> dict_ok d' \<and> rd_name d' = rd_name d \<and>
    (\<forall>n. dict_lookup d' n = (if n = name then Some desc else dict_lookup d n)) \<and>
    (\<exists>names. rd_reverse d' (reg_hash desc) = Some (names @ [name]))"
proof -
  define rv where "rv = (case dict_lookup d name of None \<Rightarrow> rd_reverse d
    | Some old \<Rightarrow> (rd_reverse d)(reg_hash old := Some (remove1 name (the (rd_reverse d (reg_hash old))))))"
  have rv_mem: "n \<in> set ns \<longleftrightarrow> n \<noteq> name \<and> (\<exists>dn. dict_lookup d n = Some dn \<and> reg_hash dn = h)"
    and rv_dist: "distinct ns" if "rv h = Some ns" for n h ns
  proof -
    have all: "n \<in> set ms \<longleftrightarrow> (\<exists>dn. dict_lookup d n = Some dn \<and> reg_hash dn = h)" "distinct ms"
      if "rd_reverse d h = Some ms" for ms h
      using dict_okD(1) [OF assms, of n] dict_okD(2,3) [OF assms that] that by fastforce+
    have "\<exists>ms. rd_reverse d h = Some ms \<and> distinct ns \<and> set ns = set ms - {name}"
    proof (cases "dict_lookup d name")
      case None
      then have "rd_reverse d h = Some ns" using that by (simp add: rv_def)
      then show ?thesis using None dict_okD(2,3) [OF assms \<open>rd_reverse d h = Some ns\<close>] by fastforce
    next
      case (Some old)
      then obtain ms where ms: "rd_reverse d (reg_hash old) = Some ms" using dict_okD(1) [OF assms Some] by blast
      show ?thesis
      proof (cases "h = reg_hash old")
        case True
        then show ?thesis using that Some ms all(2) [OF ms] by (auto simp: rv_def)
      next
        case False
        then have r: "rd_reverse d h = Some ns" using that Some by (simp add: rv_def)
        have "name \<notin> set ns" using dict_okD(3) [OF assms r] Some False by fastforce
        then show ?thesis using r dict_okD(2) [OF assms r] by auto
      qed
    qed
    then show "n \<in> set ns \<longleftrightarrow> n \<noteq> name \<and> (\<exists>dn. dict_lookup d n = Some dn \<and> reg_hash dn = h)" "distinct ns"
      using all by auto
  qed
  have rv_some: "\<exists>ns. rv (reg_hash dn) = Some ns" if "dict_lookup d n = Some dn" for n dn
    using dict_okD(1) [OF assms that] by (auto simp: rv_def split: option.splits)
  let ?names = "case rv (reg_hash desc) of None \<Rightarrow> [] | Some names \<Rightarrow> names"
  let ?d' = "d\<lparr>rd_forward := entries_put name desc (rd_forward d),
               rd_reverse := rv(reg_hash desc := Some (?names @ [name]))\<rparr>"
  have ins: "dict_insert d name desc = Some ?d'"
  proof (cases "dict_lookup d name")
    case None
    then show ?thesis by (simp add: dict_insert_def rv_def dict_lookup_def [symmetric])
  next
    case (Some old)
    then obtain ms where "rd_reverse d (reg_hash old) = Some ms" "name \<in> set ms"
      using dict_okD(1) [OF assms Some] by blast
    then show ?thesis using Some by (simp add: dict_insert_def rv_def dict_lookup_def [symmetric])
  qed
  have look: "dict_lookup ?d' n = (if n = name then Some desc else dict_lookup d n)" for n
    by (simp add: dict_lookup_def map_of_entries_put)
  have "dict_ok ?d'"
    unfolding dict_ok_def
  proof (intro conjI allI impI)
    show "sorted_wrt (<) (map fst (rd_forward ?d'))"
      using sorted_entries_put [OF dict_okD(4) [OF assms]] by simp
  next
    fix n dn assume l: "dict_lookup ?d' n = Some dn"
    show "\<exists>names. rd_reverse ?d' (reg_hash dn) = Some names \<and> n \<in> set names"
    proof (cases "n = name")
      case True
      then show ?thesis using l by (simp add: look)
    next
      case False
      then have ld: "dict_lookup d n = Some dn" using l by (simp add: look)
      obtain ns where ns: "rv (reg_hash dn) = Some ns" using rv_some [OF ld] by blast
      then have "n \<in> set ns" using rv_mem [OF ns] False ld by blast
      with ns show ?thesis by auto
    qed
  next
    fix h ns assume r: "rd_reverse ?d' h = Some ns"
    have nm: "name \<notin> set ?names" "distinct ?names"
      using rv_mem rv_dist by (auto split: option.splits)
    show "distinct ns" using r nm rv_dist by (auto split: if_splits)
    show "\<forall>n \<in> set ns. \<exists>dn. dict_lookup ?d' n = Some dn \<and> reg_hash dn = h"
      using r rv_mem by (fastforce simp: look split: if_splits option.splits)
  qed
  then show ?thesis using ins look by auto
qed

lemma dict_insert_list_ok:
  assumes "dict_ok d"
  shows "\<exists>d'. dict_insert_list es d = Some d' \<and> dict_ok d' \<and>
    dict_lookup d' = dict_lookup d ++ map_of (rev es)"
  using assms
proof (induction es arbitrary: d)
  case (Cons e es)
  obtain name desc where e: "e = (name, desc)" by fastforce
  obtain d1 where d1: "dict_insert d name desc = Some d1" "dict_ok d1"
    "\<forall>n. dict_lookup d1 n = (if n = name then Some desc else dict_lookup d n)"
    using dict_insert_ok [OF Cons.prems] by blast
  obtain d2 where d2: "dict_insert_list es d1 = Some d2" "dict_ok d2"
    "dict_lookup d2 = dict_lookup d1 ++ map_of (rev es)"
    using Cons.IH [OF d1(2)] by blast
  have "dict_lookup d1 = (dict_lookup d)(name \<mapsto> desc)" using d1(3) by auto
  then show ?case using d1(1) d2 by (auto simp: e map_add_assoc map_add_upd_left fun_eq_iff map_add_def split: option.splits)
qed simp

lemma dict_lookup_new: "dict_lookup (dict_new name) = Map.empty"
  by (simp add: dict_lookup_def dict_new_def fun_eq_iff)

lemma reverse_scan_correct:
  assumes "\<forall>n \<in> set names. dict_lookup d n \<noteq> None"
  shows "\<exists>r. reverse_scan d desc names = Some r \<and>
    (if \<exists>n \<in> set names. dict_lookup d n = Some desc then dict_lookup d r = Some desc \<and> r \<in> set names
     else r = [])"
  using assms
proof (induction names)
  case (Cons a names)
  then obtain y where y: "dict_lookup d a = Some y" by auto
  show ?case
  proof (cases "y = desc")
    case False
    obtain r where "reverse_scan d desc names = Some r"
      "if \<exists>n \<in> set names. dict_lookup d n = Some desc then dict_lookup d r = Some desc \<and> r \<in> set names else r = []"
      using Cons by auto
    then show ?thesis using y False by (intro exI [of _ r]) (auto split: if_splits)
  qed (simp add: y)
qed simp

lemma dict_lookup_desc_ok:
  assumes "dict_ok d"
  shows "\<exists>r. dict_lookup_desc d desc = Some r \<and>
    (if \<exists>n. dict_lookup d n = Some desc then dict_lookup d r = Some desc else r = [])"
proof (cases "rd_reverse d (reg_hash desc)")
  case None
  then have "\<not> (\<exists>n. dict_lookup d n = Some desc)" using dict_okD(1) [OF assms] by fastforce
  with None show ?thesis by (simp add: dict_lookup_desc_def)
next
  case (Some names)
  have "\<forall>n \<in> set (rev names). dict_lookup d n \<noteq> None" using dict_okD(3) [OF assms Some] by fastforce
  from reverse_scan_correct [OF this, of desc]
  obtain r where "reverse_scan d desc (rev names) = Some r"
    "if \<exists>n \<in> set names. dict_lookup d n = Some desc then dict_lookup d r = Some desc \<and> r \<in> set names else r = []"
    unfolding set_rev by blast
  moreover have "(\<exists>n \<in> set names. dict_lookup d n = Some desc) \<longleftrightarrow> (\<exists>n. dict_lookup d n = Some desc)"
    using dict_okD(1) [OF assms, of _ desc] Some by fastforce
  ultimately show ?thesis using Some by (auto simp: dict_lookup_desc_def split: if_splits)
qed

section \<open>The dictionaries are well formed\<close>

lemma dict_extend_ok:
  assumes "base = Some b" "dict_ok b"
  shows "\<exists>d. dict_extend name base es = Some d \<and> dict_ok d \<and>
    dict_lookup d = dict_lookup b ++ map_of (rev (reg_entries es))"
proof -
  have "distinct (map fst (rd_forward b))" using dict_okD(4) [OF assms(2)] strict_sorted_iff by blast
  then have "map_of (rev (rd_forward b)) = map_of (rd_forward b)"
    using map_of_inject_set [of "rev (rd_forward b)" "rd_forward b"] by (simp add: rev_map [symmetric])
  then have fwd: "map_of (rev (rd_forward b)) = dict_lookup b" by (simp add: dict_lookup_def [abs_def])
  obtain d1 where d1: "dict_insert_list (rd_forward b) (dict_new name) = Some d1" "dict_ok d1"
    "dict_lookup d1 = dict_lookup b"
    using dict_insert_list_ok [OF dict_ok_new, of "rd_forward b" name] fwd by (auto simp: dict_lookup_new)
  from dict_insert_list_ok [OF d1(2), of "reg_entries es"] show ?thesis
    using assms(1) d1 by (auto simp: dict_extend_def dict_insert_dict_def)
qed

lemma dict_chain:
  "\<exists>d. dictionary_i8086 = Some d \<and> dict_ok d \<and> dict_lookup d = map_of (rev (reg_entries i8086_entries))"
  "\<exists>d. dictionary_i286 = Some d \<and> dict_ok d \<and>
     dict_lookup d = map_of (rev (reg_entries (i8086_entries @ i286_entries)))"
  "\<exists>d. dictionary_i386 = Some d \<and> dict_ok d \<and>
     dict_lookup d = map_of (rev (reg_entries (i8086_entries @ i286_entries @ i386_entries)))"
  "\<exists>d. dictionary_i486 = Some d \<and> dict_ok d \<and>
     dict_lookup d = map_of (rev (reg_entries (i8086_entries @ i286_entries @ i386_entries @ i486_entries)))"
  "\<exists>d. dictionary_pentium = Some d \<and> dict_ok d \<and> dict_lookup d =
     map_of (rev (reg_entries (i8086_entries @ i286_entries @ i386_entries @ i486_entries @ pentium_entries)))"
  "\<exists>d. dictionary_pentium4 = Some d \<and> dict_ok d \<and> dict_lookup d =
     map_of (rev (reg_entries (i8086_entries @ i286_entries @ i386_entries @ i486_entries @ pentium_entries @
       pentium4_entries)))"
proof -
  have app: "reg_entries (xs @ ys) = reg_entries xs @ reg_entries ys" for xs ys by (simp add: reg_entries_def)
  note ext = app rev_append map_of_append map_add_assoc
  show 1: "\<exists>d. dictionary_i8086 = Some d \<and> dict_ok d \<and> dict_lookup d = map_of (rev (reg_entries i8086_entries))"
    using dict_insert_list_ok [OF dict_ok_new] by (simp add: dictionary_i8086_def dict_lookup_new)
  then obtain d1 where "dictionary_i8086 = Some d1" "dict_ok d1"
    "dict_lookup d1 = map_of (rev (reg_entries i8086_entries))" by blast
  then show 2: "\<exists>d. dictionary_i286 = Some d \<and> dict_ok d \<and>
     dict_lookup d = map_of (rev (reg_entries (i8086_entries @ i286_entries)))"
    unfolding dictionary_i286_def ext using dict_extend_ok by metis
  show 3: "\<exists>d. dictionary_i386 = Some d \<and> dict_ok d \<and>
     dict_lookup d = map_of (rev (reg_entries (i8086_entries @ i286_entries @ i386_entries)))"
    using 2 dict_extend_ok unfolding dictionary_i386_def ext by metis
  show 4: "\<exists>d. dictionary_i486 = Some d \<and> dict_ok d \<and>
     dict_lookup d = map_of (rev (reg_entries (i8086_entries @ i286_entries @ i386_entries @ i486_entries)))"
    using 3 dict_extend_ok unfolding dictionary_i486_def ext by metis
  show 5: "\<exists>d. dictionary_pentium = Some d \<and> dict_ok d \<and> dict_lookup d =
     map_of (rev (reg_entries (i8086_entries @ i286_entries @ i386_entries @ i486_entries @ pentium_entries)))"
    using 4 dict_extend_ok unfolding dictionary_pentium_def ext by metis
  show "\<exists>d. dictionary_pentium4 = Some d \<and> dict_ok d \<and> dict_lookup d =
     map_of (rev (reg_entries (i8086_entries @ i286_entries @ i386_entries @ i486_entries @ pentium_entries @
       pentium4_entries)))"
    using 5 dict_extend_ok unfolding dictionary_pentium4_def ext by metis
qed

lemmas intel_entries =
  i8086_entries_def i286_entries_def i386_entries_def i486_entries_def pentium_entries_def pentium4_entries_def

lemma pentium4_registers:
  assumes "dictionary_pentium4 = Some d"
  shows "dict_lookup d ''eax'' = Some (reg_desc x86_regclass_gpr x86_gpr_ax 0 32)"
    "dict_lookup d ''ebx'' = Some (reg_desc x86_regclass_gpr x86_gpr_bx 0 32)"
    "dict_lookup d ''ecx'' = Some (reg_desc x86_regclass_gpr x86_gpr_cx 0 32)"
    "dict_lookup d ''edx'' = Some (reg_desc x86_regclass_gpr x86_gpr_dx 0 32)"
    "dict_lookup d ''edi'' = Some (reg_desc x86_regclass_gpr x86_gpr_di 0 32)"
    "dict_lookup d ''esi'' = Some (reg_desc x86_regclass_gpr x86_gpr_si 0 32)"
    "dict_lookup d ''esp'' = Some (reg_desc x86_regclass_gpr x86_gpr_sp 0 32)"
    "dict_lookup d ''ebp'' = Some (reg_desc x86_regclass_gpr x86_gpr_bp 0 32)"
    "dict_lookup d ''eip'' = Some (reg_desc x86_regclass_ip 0 0 32)"
    "dict_lookup d ''ax'' = Some (reg_desc x86_regclass_gpr x86_gpr_ax 0 16)"
    "dict_lookup d ''cx'' = Some (reg_desc x86_regclass_gpr x86_gpr_cx 0 16)"
    "dict_lookup d ''dx'' = Some (reg_desc x86_regclass_gpr x86_gpr_dx 0 16)"
    "dict_lookup d ''al'' = Some (reg_desc x86_regclass_gpr x86_gpr_ax 0 8)"
    "dict_lookup d ''ah'' = Some (reg_desc x86_regclass_gpr x86_gpr_ax 8 8)"
    "dict_lookup d ''eflags'' = Some (reg_desc x86_regclass_flags 0 0 32)"
    "dict_lookup d ''flags'' = Some (reg_desc x86_regclass_flags 0 0 16)"
    "dict_lookup d ''cf'' = Some (reg_desc x86_regclass_flags 0 0 1)"
    "dict_lookup d ''pf'' = Some (reg_desc x86_regclass_flags 0 2 1)"
    "dict_lookup d ''af'' = Some (reg_desc x86_regclass_flags 0 4 1)"
    "dict_lookup d ''zf'' = Some (reg_desc x86_regclass_flags 0 6 1)"
    "dict_lookup d ''sf'' = Some (reg_desc x86_regclass_flags 0 7 1)"
    "dict_lookup d ''df'' = Some (reg_desc x86_regclass_flags 0 10 1)"
    "dict_lookup d ''of'' = Some (reg_desc x86_regclass_flags 0 11 1)"
proof -
  have L: "dict_lookup d = map_of (rev (reg_entries (i8086_entries @ i286_entries @ i386_entries @
      i486_entries @ pentium_entries @ pentium4_entries)))"
    using dict_chain(6) assms by (metis option.inject)
  have "map (map_of (rev (reg_entries (i8086_entries @ i286_entries @ i386_entries @
      i486_entries @ pentium_entries @ pentium4_entries)))) [''eax'', ''ebx'', ''ecx'', ''edx'', 
         ''edi'', ''esi'', ''esp'', ''ebp'', ''eip'', ''ax'', ''cx'', ''dx'', 
         ''al'', ''ah'', ''eflags'', ''flags'', ''cf'', ''pf'', ''af'', ''zf'', ''sf'', ''df'', ''of''] =
      [Some (reg_desc x86_regclass_gpr x86_gpr_ax 0 32),
       Some (reg_desc x86_regclass_gpr x86_gpr_bx 0 32),
       Some (reg_desc x86_regclass_gpr x86_gpr_cx 0 32),
       Some (reg_desc x86_regclass_gpr x86_gpr_dx 0 32),
       Some (reg_desc x86_regclass_gpr x86_gpr_di 0 32),
       Some (reg_desc x86_regclass_gpr x86_gpr_si 0 32),
       Some (reg_desc x86_regclass_gpr x86_gpr_sp 0 32),
       Some (reg_desc x86_regclass_gpr x86_gpr_bp 0 32),
       Some (reg_desc x86_regclass_ip 0 0 32),
       Some (reg_desc x86_regclass_gpr x86_gpr_ax 0 16),
       Some (reg_desc x86_regclass_gpr x86_gpr_cx 0 16),
       Some (reg_desc x86_regclass_gpr x86_gpr_dx 0 16),
       Some (reg_desc x86_regclass_gpr x86_gpr_ax 0 8),
       Some (reg_desc x86_regclass_gpr x86_gpr_ax 8 8),
       Some (reg_desc x86_regclass_flags 0 0 32),
       Some (reg_desc x86_regclass_flags 0 0 16),
       Some (reg_desc x86_regclass_flags 0 0 1),
       Some (reg_desc x86_regclass_flags 0 2 1),
       Some (reg_desc x86_regclass_flags 0 4 1),
       Some (reg_desc x86_regclass_flags 0 6 1),
       Some (reg_desc x86_regclass_flags 0 7 1),
       Some (reg_desc x86_regclass_flags 0 10 1),
       Some (reg_desc x86_regclass_flags 0 11 1)]"
    by code_simp
  then show "dict_lookup d ''eax'' = Some (reg_desc x86_regclass_gpr x86_gpr_ax 0 32)"
    "dict_lookup d ''ebx'' = Some (reg_desc x86_regclass_gpr x86_gpr_bx 0 32)"
    "dict_lookup d ''ecx'' = Some (reg_desc x86_regclass_gpr x86_gpr_cx 0 32)"
    "dict_lookup d ''edx'' = Some (reg_desc x86_regclass_gpr x86_gpr_dx 0 32)"
    "dict_lookup d ''edi'' = Some (reg_desc x86_regclass_gpr x86_gpr_di 0 32)"
    "dict_lookup d ''esi'' = Some (reg_desc x86_regclass_gpr x86_gpr_si 0 32)"
    "dict_lookup d ''esp'' = Some (reg_desc x86_regclass_gpr x86_gpr_sp 0 32)"
    "dict_lookup d ''ebp'' = Some (reg_desc x86_regclass_gpr x86_gpr_bp 0 32)"
    "dict_lookup d ''eip'' = Some (reg_desc x86_regclass_ip 0 0 32)"
    "dict_lookup d ''ax'' = Some (reg_desc x86_regclass_gpr x86_gpr_ax 0 16)"
    "dict_lookup d ''cx'' = Some (reg_desc x86_regclass_gpr x86_gpr_cx 0 16)"
    "dict_lookup d ''dx'' = Some (reg_desc x86_regclass_gpr x86_gpr_dx 0 16)"
    "dict_lookup d ''al'' = Some (reg_desc x86_regclass_gpr x86_gpr_ax 0 8)"
    "dict_lookup d ''ah'' = Some (reg_desc x86_regclass_gpr x86_gpr_ax 8 8)"
    "dict_lookup d ''eflags'' = Some (reg_desc x86_regclass_flags 0 0 32)"
    "dict_lookup d ''flags'' = Some (reg_desc x86_regclass_flags 0 0 16)"
    "dict_lookup d ''cf'' = Some (reg_desc x86_regclass_flags 0 0 1)"
    "dict_lookup d ''pf'' = Some (reg_desc x86_regclass_flags 0 2 1)"
    "dict_lookup d ''af'' = Some (reg_desc x86_regclass_flags 0 4 1)"
    "dict_lookup d ''zf'' = Some (reg_desc x86_regclass_flags 0 6 1)"
    "dict_lookup d ''sf'' = Some (reg_desc x86_regclass_flags 0 7 1)"
    "dict_lookup d ''df'' = Some (reg_desc x86_regclass_flags 0 10 1)"
    "dict_lookup d ''of'' = Some (reg_desc x86_regclass_flags 0 11 1)"
    unfolding L by simp_all
qed

section \<open>Properties\<close>

text \<open>Property C36. \<open>RegisterDictionary::insert\<close> on a well-formed dictionary fails none of its assertions, also when
  it replaces an entry, keeps the forward and reverse maps consistent, and binds exactly the given name.\<close>

theorem dict_insert_spec:
  assumes "dict_ok d"
  shows "\<exists>d'. dict_insert d name desc = Some d' \<and> dict_ok d' \<and>
    (\<forall>n. dict_lookup d' n = (if n = name then Some desc else dict_lookup d n))"
  using dict_insert_ok [OF assms] by blast

theorem dict_insert_spec_witness:
  "\<exists>d'. dict_insert (dict_new ''x'') ''eax'' (reg_desc 0 0 0 32) = Some d' \<and> dict_ok d' \<and>
     dict_lookup d' ''eax'' = Some (reg_desc 0 0 0 32) \<and> dict_lookup d' ''ebx'' = None"
  using dict_insert_spec [OF dict_ok_new, of "''x''" "''eax''" "reg_desc 0 0 0 32"] by (auto simp: dict_lookup_new)

text \<open>Property C37. Reverse lookup: for a descriptor that some name denotes, \<open>lookup(desc)\<close> returns a name that
  denotes it, namely the given name if that was the last one inserted for it; for any other descriptor
  it returns the empty string. It never meets a name that is missing from the forward map.\<close>

theorem dict_reverse_lookup_spec:
  assumes "dict_ok d"
  shows "(\<exists>r. dict_lookup_desc d desc = Some r \<and>
      (if \<exists>n. dict_lookup d n = Some desc then dict_lookup d r = Some desc else r = [])) \<and>
    (\<exists>d'. dict_insert d name desc = Some d' \<and> dict_lookup_desc d' desc = Some name)"
proof -
  obtain d' names where d': "dict_insert d name desc = Some d'" "dict_lookup d' name = Some desc"
    "rd_reverse d' (reg_hash desc) = Some (names @ [name])"
    using dict_insert_ok [OF assms, of name desc] by auto
  then have "dict_lookup_desc d' desc = Some name" by (simp add: dict_lookup_desc_def)
  with d'(1) dict_lookup_desc_ok [OF assms] show ?thesis by blast
qed

theorem dict_reverse_lookup_spec_witness:
  "dict_lookup_desc (dict_new ''x'') (reg_desc 0 0 0 32) = Some [] \<and>
   (\<exists>d'. dict_insert (dict_new ''x'') ''eax'' (reg_desc 0 0 0 32) = Some d' \<and>
      dict_lookup_desc d' (reg_desc 0 0 0 32) = Some ''eax'')"
  using dict_reverse_lookup_spec [OF dict_ok_new, of "''x''" "reg_desc 0 0 0 32" "''eax''"] by (auto simp: dict_lookup_new)

text \<open>Property C38. The dictionaries from the 8086 to the Pentium 4 are built without a failing assertion and are
  well formed. In the last one, which the semantic policies use, all registers that the constructor of the x86 semantics
  looks up, and \<open>flags\<close>, have their descriptors: the eight general-purpose registers with their numbers, \<open>ax\<close>, \<open>cx\<close>,
  \<open>dx\<close>, \<open>al\<close> and \<open>ah\<close> as parts of them, the instruction pointer, and the flags as bits of \<open>eflags\<close>.\<close>

theorem intel_dictionaries_ok:
  "\<exists>d86 d286 d386 d486 d5 d. dictionary_i8086 = Some d86 \<and> dictionary_i286 = Some d286 \<and>
     dictionary_i386 = Some d386 \<and> dictionary_i486 = Some d486 \<and> dictionary_pentium = Some d5 \<and>
     dictionary_pentium4 = Some d \<and> list_all dict_ok [d86, d286, d386, d486, d5, d] \<and>
     map (dict_lookup d) [''eax'', ''ecx'', ''edx'', ''ebx'', ''esp'', ''ebp'', ''esi'', ''edi''] =
       map (\<lambda>i. Some (reg_desc x86_regclass_gpr i 0 32))
         [x86_gpr_ax, x86_gpr_cx, x86_gpr_dx, x86_gpr_bx, x86_gpr_sp, x86_gpr_bp, x86_gpr_si, x86_gpr_di] \<and>
     map (dict_lookup d) [''ax'', ''cx'', ''dx''] =
       map (\<lambda>i. Some (reg_desc x86_regclass_gpr i 0 16)) [x86_gpr_ax, x86_gpr_cx, x86_gpr_dx] \<and>
     map (dict_lookup d) [''al'', ''ah''] =
       map (\<lambda>off. Some (reg_desc x86_regclass_gpr x86_gpr_ax off 8)) [0, 8] \<and>
     dict_lookup d ''eip'' = Some (reg_desc x86_regclass_ip 0 0 32) \<and>
     map (dict_lookup d) [''eflags'', ''flags'', ''cf'', ''pf'', ''af'', ''zf'', ''sf'', ''df'', ''of''] =
       map (\<lambda>(off, n). Some (reg_desc x86_regclass_flags 0 off n))
         [(0, 32), (0, 16), (0, 1), (2, 1), (4, 1), (6, 1), (7, 1), (10, 1), (11, 1)]"
proof -
  obtain d where d: "dictionary_pentium4 = Some d" "dict_ok d" using dict_chain(6) by blast
  obtain d86 d286 d386 d486 d5 where
    c: "dictionary_i8086 = Some d86" "dict_ok d86" "dictionary_i286 = Some d286" "dict_ok d286"
      "dictionary_i386 = Some d386" "dict_ok d386" "dictionary_i486 = Some d486" "dict_ok d486"
      "dictionary_pentium = Some d5" "dict_ok d5" using dict_chain(1-5) by blast
  show ?thesis
    by (intro exI [of _ d86] exI [of _ d286] exI [of _ d386] exI [of _ d486] exI [of _ d5] exI [of _ d])
      (simp add: c d pentium4_registers [OF d(1)])
qed

end
