(* ===== verification/SemanticActions.thy ===== *)
theory SemanticActions
  imports Registers
begin

text \<open>
  The interface between the instruction semantics and a semantic policy. A semantic action is a
  state transformer that can end in an error and keeps the state reached there: the sources change
  the policy in place, and an exception leaves the changes made so far. A policy is the record of
  the RISC-like operations that \<open>X86InstructionSemantics\<close> calls; the template arguments (bit widths)
  of the C++ methods are arguments of the operations. The lifted operations below take actions as
  arguments and run them from left to right, so that a nested C++ call is a nested term.
\<close>

section \<open>Actions\<close>

datatype sem_error =
  X86Exception string       \<comment> \<open>\<open>X86InstructionSemantics::Exception\<close>\<close>
| PolicyException string    \<comment> \<open>\<open>BaseSemantics::Policy::Exception\<close>\<close>
| Abort string              \<comment> \<open>\<open>abort()\<close>, a failed \<open>assert\<close>, or an access outside a vector\<close>

type_synonym ('s, 'a) sem = "'s \<Rightarrow> (sem_error + 'a) \<times> 's"

definition retS :: "'a \<Rightarrow> ('s, 'a) sem" where
  "retS a = (\<lambda>s. (Inr a, s))"

definition failS :: "sem_error \<Rightarrow> ('s, 'a) sem" where
  "failS e = (\<lambda>s. (Inl e, s))"

definition bindS :: "('s, 'a) sem \<Rightarrow> ('a \<Rightarrow> ('s, 'b) sem) \<Rightarrow> ('s, 'b) sem" where
  "bindS m f = (\<lambda>s. case m s of (Inl e, s') \<Rightarrow> (Inl e, s') | (Inr a, s') \<Rightarrow> f a s')"

definition seqS :: "('s, 'a) sem \<Rightarrow> ('s, 'b) sem \<Rightarrow> ('s, 'b) sem" where
  "seqS m n = bindS m (\<lambda>_. n)"

text \<open>A sequence of statements, and a statement under a guard.\<close>

fun blockS :: "('s, unit) sem list \<Rightarrow> ('s, unit) sem" where
  "blockS [] = retS ()"
| "blockS (m # ms) = seqS m (blockS ms)"

definition guardS :: "bool \<Rightarrow> sem_error \<Rightarrow> ('s, unit) sem" where
  "guardS b e = (if b then retS () else failS e)"

definition dropS :: "('s, 'a) sem \<Rightarrow> ('s, unit) sem" where
  "dropS m = bindS m (\<lambda>_. retS ())"

definition getS :: "('s \<Rightarrow> 'a) \<Rightarrow> ('s, 'a) sem" where
  "getS f = (\<lambda>s. (Inr (f s), s))"

definition modifyS :: "('s \<Rightarrow> 's) \<Rightarrow> ('s, unit) sem" where
  "modifyS f = (\<lambda>s. (Inr (), f s))"

definition ofOption :: "sem_error \<Rightarrow> 'a option \<Rightarrow> ('s, 'a) sem" where
  "ofOption e x = (case x of None \<Rightarrow> failS e | Some a \<Rightarrow> retS a)"

text \<open>The first two equations would be used on unapplied actions if their left-hand sides were the
  bare applications.\<close>

lemma run_simps [sem_simps]:
  "retS a s = r \<longleftrightarrow> r = (Inr a, s)"
  "failS e s = q \<longleftrightarrow> q = (Inl e, s)"
  "getS f s = (Inr (f s), s)"
  "modifyS g s = (Inr (), g s)"
  by (auto simp: retS_def failS_def getS_def modifyS_def)

lemma bind_run [sem_simps]:
  "m s = (Inr a, s') \<Longrightarrow> bindS m f s = f a s'"
  "m s = (Inl e, s') \<Longrightarrow> bindS m f s = (Inl e, s')"
  by (simp_all add: bindS_def)

lemma seq_run [sem_simps]:
  "m s = (Inr a, s') \<Longrightarrow> seqS m n s = n s'"
  "m s = (Inl e, s') \<Longrightarrow> seqS m n s = (Inl e, s')"
  by (simp_all add: seqS_def sem_simps)

lemma drop_run [sem_simps]:
  "m s = (Inr a, s') \<Longrightarrow> dropS m s = (Inr (), s')"
  "m s = (Inl e, s') \<Longrightarrow> dropS m s = (Inl e, s')"
  by (simp_all add: dropS_def bind_run sem_simps)

lemma guard_run [sem_simps]:
  "b \<Longrightarrow> guardS b e = retS ()"
  "\<not> b \<Longrightarrow> guardS b e = failS e"
  by (simp_all add: guardS_def)

lemma ofOption_simps [sem_simps]:
  "ofOption e (Some a) = retS a" "ofOption e None = failS e"
  by (simp_all add: ofOption_def)

lemma bind_ret [simp]: "bindS (retS a) f = f a"
  by (simp add: bindS_def retS_def)

lemma bind_fail [simp]: "bindS (failS e) f = failS e"
  by (simp add: bindS_def failS_def)

lemma seq_ret [simp]: "seqS (retS a) m = m"
  by (simp add: seqS_def)

lemma seq_fail [simp]: "seqS (failS e) m = failS e"
  by (simp add: seqS_def)

lemma bind_assoc: "bindS (bindS m f) g = bindS m (\<lambda>a. bindS (f a) g)"
  by (auto simp: bindS_def split: prod.splits sum.splits)

lemma seq_assoc: "seqS (seqS a b) c = seqS a (seqS b c)"
  by (simp add: seqS_def bind_assoc)

lemma bind_ret_right [simp]: "bindS m retS = m"
  by (auto simp: bindS_def retS_def fun_eq_iff split: prod.splits sum.splits)

section \<open>Policies\<close>

record ('s, 'v) policy =
  p_findRegister :: "string \<Rightarrow> nat \<Rightarrow> ('s, RegisterDescriptor) sem"
  p_readRegister :: "nat \<Rightarrow> RegisterDescriptor \<Rightarrow> ('s, 'v) sem"
  p_writeRegister :: "nat \<Rightarrow> RegisterDescriptor \<Rightarrow> 'v \<Rightarrow> ('s, unit) sem"
  p_readMemory :: "nat \<Rightarrow> nat \<Rightarrow> 'v \<Rightarrow> 'v \<Rightarrow> ('s, 'v) sem"
  p_writeMemory :: "nat \<Rightarrow> nat \<Rightarrow> 'v \<Rightarrow> 'v \<Rightarrow> 'v \<Rightarrow> ('s, unit) sem"
  p_number :: "nat \<Rightarrow> u64 \<Rightarrow> 'v"
  p_undefined :: "nat \<Rightarrow> ('s, 'v) sem"
  p_signExtend :: "nat \<Rightarrow> nat \<Rightarrow> 'v \<Rightarrow> ('s, 'v) sem"
  p_unsignedExtend :: "nat \<Rightarrow> nat \<Rightarrow> 'v \<Rightarrow> ('s, 'v) sem"
  p_extract :: "nat \<Rightarrow> nat \<Rightarrow> nat \<Rightarrow> 'v \<Rightarrow> ('s, 'v) sem"
  p_concat :: "nat \<Rightarrow> nat \<Rightarrow> 'v \<Rightarrow> 'v \<Rightarrow> ('s, 'v) sem"
  p_add :: "nat \<Rightarrow> 'v \<Rightarrow> 'v \<Rightarrow> ('s, 'v) sem"
  p_addWithCarries :: "nat \<Rightarrow> 'v \<Rightarrow> 'v \<Rightarrow> 'v \<Rightarrow> ('s, 'v \<times> 'v) sem"
  p_and :: "nat \<Rightarrow> 'v \<Rightarrow> 'v \<Rightarrow> ('s, 'v) sem"
  p_or :: "nat \<Rightarrow> 'v \<Rightarrow> 'v \<Rightarrow> ('s, 'v) sem"
  p_xor :: "nat \<Rightarrow> 'v \<Rightarrow> 'v \<Rightarrow> ('s, 'v) sem"
  p_invert :: "nat \<Rightarrow> 'v \<Rightarrow> ('s, 'v) sem"
  p_negate :: "nat \<Rightarrow> 'v \<Rightarrow> ('s, 'v) sem"
  p_equalToZero :: "nat \<Rightarrow> 'v \<Rightarrow> ('s, 'v) sem"
  p_ite :: "nat \<Rightarrow> 'v \<Rightarrow> 'v \<Rightarrow> 'v \<Rightarrow> ('s, 'v) sem"
  p_leastSignificantSetBit :: "nat \<Rightarrow> 'v \<Rightarrow> ('s, 'v) sem"
  p_mostSignificantSetBit :: "nat \<Rightarrow> 'v \<Rightarrow> ('s, 'v) sem"
  p_rotateLeft :: "nat \<Rightarrow> nat \<Rightarrow> 'v \<Rightarrow> 'v \<Rightarrow> ('s, 'v) sem"
  p_rotateRight :: "nat \<Rightarrow> nat \<Rightarrow> 'v \<Rightarrow> 'v \<Rightarrow> ('s, 'v) sem"
  p_shiftLeft :: "nat \<Rightarrow> nat \<Rightarrow> 'v \<Rightarrow> 'v \<Rightarrow> ('s, 'v) sem"
  p_shiftRight :: "nat \<Rightarrow> nat \<Rightarrow> 'v \<Rightarrow> 'v \<Rightarrow> ('s, 'v) sem"
  p_shiftRightArithmetic :: "nat \<Rightarrow> nat \<Rightarrow> 'v \<Rightarrow> 'v \<Rightarrow> ('s, 'v) sem"
  p_signedDivide :: "nat \<Rightarrow> nat \<Rightarrow> 'v \<Rightarrow> 'v \<Rightarrow> ('s, 'v) sem"
  p_signedModulo :: "nat \<Rightarrow> nat \<Rightarrow> 'v \<Rightarrow> 'v \<Rightarrow> ('s, 'v) sem"
  p_signedMultiply :: "nat \<Rightarrow> nat \<Rightarrow> 'v \<Rightarrow> 'v \<Rightarrow> ('s, 'v) sem"
  p_unsignedDivide :: "nat \<Rightarrow> nat \<Rightarrow> 'v \<Rightarrow> 'v \<Rightarrow> ('s, 'v) sem"
  p_unsignedModulo :: "nat \<Rightarrow> nat \<Rightarrow> 'v \<Rightarrow> 'v \<Rightarrow> ('s, 'v) sem"
  p_unsignedMultiply :: "nat \<Rightarrow> nat \<Rightarrow> 'v \<Rightarrow> 'v \<Rightarrow> ('s, 'v) sem"
  p_filterCallTarget :: "'v \<Rightarrow> ('s, 'v) sem"
  p_filterReturnTarget :: "'v \<Rightarrow> ('s, 'v) sem"
  p_filterIndirectJumpTarget :: "'v \<Rightarrow> ('s, 'v) sem"
  p_hlt :: "('s, unit) sem"
  p_cpuid :: "('s, unit) sem"
  p_rdtsc :: "('s, 'v) sem"
  p_interrupt :: "u8 \<Rightarrow> ('s, unit) sem"
  p_sysenter :: "('s, unit) sem"
  p_startInstruction :: "u64 \<Rightarrow> ('s, unit) sem"
  p_finishInstruction :: "('s, unit) sem"
  p_startBlock :: "u64 \<Rightarrow> ('s, unit) sem"
  p_finishBlock :: "u64 \<Rightarrow> ('s, unit) sem"

section \<open>Operations applied to actions\<close>

definition lift1 :: "('v \<Rightarrow> ('s, 'b) sem) \<Rightarrow> ('s, 'v) sem \<Rightarrow> ('s, 'b) sem" where
  "lift1 f a = bindS a f"

definition lift2 :: "('v \<Rightarrow> 'w \<Rightarrow> ('s, 'b) sem) \<Rightarrow> ('s, 'v) sem \<Rightarrow> ('s, 'w) sem \<Rightarrow> ('s, 'b) sem" where
  "lift2 f a b = bindS a (\<lambda>x. bindS b (\<lambda>y. f x y))"

definition lift3 ::
  "('v \<Rightarrow> 'w \<Rightarrow> 'u \<Rightarrow> ('s, 'b) sem) \<Rightarrow> ('s, 'v) sem \<Rightarrow> ('s, 'w) sem \<Rightarrow> ('s, 'u) sem \<Rightarrow> ('s, 'b) sem" where
  "lift3 f a b c = bindS a (\<lambda>x. bindS b (\<lambda>y. bindS c (\<lambda>z. f x y z)))"

lemma lift_ret [sem_simps]:
  "lift1 f (retS a) = f a"
  "lift2 g (retS a) (retS b) = g a b"
  "lift3 h (retS a) (retS b) (retS c) = h a b c"
  by (simp_all add: lift1_def lift2_def lift3_def)

lemma lift_run [sem_simps]:
  "a s = (Inr x, s1) \<Longrightarrow> lift1 f a s = f x s1"
  "a s = (Inr x, s1) \<Longrightarrow> b s1 = (Inr y, s2) \<Longrightarrow> lift2 g a b s = g x y s2"
  "a s = (Inr x, s1) \<Longrightarrow> b s1 = (Inr y, s2) \<Longrightarrow> c s2 = (Inr z, s3) \<Longrightarrow> lift3 h a b c s = h x y z s3"
  by (simp_all add: lift1_def lift2_def lift3_def bind_run)

text \<open>Short names for the lifted operations of a policy.\<close>

abbreviation (input) numberV where "numberV P n x \<equiv> retS (p_number P n x)"
abbreviation (input) trueV where "trueV P \<equiv> retS (p_number P 1 1)"
abbreviation (input) falseV where "falseV P \<equiv> retS (p_number P 1 0)"
abbreviation (input) undefinedV where "undefinedV P n \<equiv> p_undefined P n"
abbreviation (input) readRegister where "readRegister P n r \<equiv> p_readRegister P n r"
abbreviation (input) writeRegister where "writeRegister P n r a \<equiv> lift1 (p_writeRegister P n r) a"
abbreviation (input) readMemory where "readMemory P n seg addr cond \<equiv> lift2 (p_readMemory P n seg) addr cond"
abbreviation (input) writeMemory where
  "writeMemory P n seg addr data cond \<equiv> lift3 (p_writeMemory P n seg) addr data cond"
abbreviation (input) signExtendV where "signExtendV P m n a \<equiv> lift1 (p_signExtend P m n) a"
abbreviation (input) extractV where "extractV P i j n a \<equiv> lift1 (p_extract P i j n) a"
abbreviation (input) concatV where "concatV P m n a b \<equiv> lift2 (p_concat P m n) a b"
abbreviation (input) addV where "addV P n a b \<equiv> lift2 (p_add P n) a b"
abbreviation (input) andV where "andV P n a b \<equiv> lift2 (p_and P n) a b"
abbreviation (input) orV where "orV P n a b \<equiv> lift2 (p_or P n) a b"
abbreviation (input) xorV where "xorV P n a b \<equiv> lift2 (p_xor P n) a b"
abbreviation (input) invertV where "invertV P n a \<equiv> lift1 (p_invert P n) a"
abbreviation (input) negateV where "negateV P n a \<equiv> lift1 (p_negate P n) a"
abbreviation (input) equalToZero where "equalToZero P n a \<equiv> lift1 (p_equalToZero P n) a"
abbreviation (input) iteV where "iteV P n c a b \<equiv> lift3 (p_ite P n) c a b"
abbreviation (input) rotateLeftV where "rotateLeftV P n m a b \<equiv> lift2 (p_rotateLeft P n m) a b"
abbreviation (input) rotateRightV where "rotateRightV P n m a b \<equiv> lift2 (p_rotateRight P n m) a b"
abbreviation (input) shiftLeftV where "shiftLeftV P n m a b \<equiv> lift2 (p_shiftLeft P n m) a b"
abbreviation (input) shiftRightV where "shiftRightV P n m a b \<equiv> lift2 (p_shiftRight P n m) a b"
abbreviation (input) shiftRightArithmeticV where
  "shiftRightArithmeticV P n m a b \<equiv> lift2 (p_shiftRightArithmetic P n m) a b"
abbreviation (input) unsignedMultiply where "unsignedMultiply P m n a b \<equiv> lift2 (p_unsignedMultiply P m n) a b"
abbreviation (input) signedMultiply where "signedMultiply P m n a b \<equiv> lift2 (p_signedMultiply P m n) a b"
abbreviation (input) unsignedDivide where "unsignedDivide P m n a b \<equiv> lift2 (p_unsignedDivide P m n) a b"
abbreviation (input) unsignedModulo where "unsignedModulo P m n a b \<equiv> lift2 (p_unsignedModulo P m n) a b"
abbreviation (input) signedDivide where "signedDivide P m n a b \<equiv> lift2 (p_signedDivide P m n) a b"
abbreviation (input) signedModulo where "signedModulo P m n a b \<equiv> lift2 (p_signedModulo P m n) a b"

end
