(* ===== verification/X86Syntax.thy ===== *)
theory X86Syntax
  imports SemanticActions IntegerOps
begin

text \<open>
  The part of the binary AST that the x86 semantics reads: operand expressions, their types, and
  instructions. Node classes of the AST are constructors; the accessors of an instruction are fields.
\<close>

datatype asm_type = TypeByte | TypeWord | TypeDoubleWord | TypeQuadWord | TypeOther

datatype asm_expr =
  RegRef RegisterDescriptor asm_type     \<comment> \<open>\<open>SgAsmx86RegisterReferenceExpression\<close>\<close>
| BinaryAdd asm_expr asm_expr            \<comment> \<open>\<open>SgAsmBinaryAdd\<close>\<close>
| BinaryMultiply asm_expr asm_expr       \<comment> \<open>\<open>SgAsmBinaryMultiply\<close>\<close>
| MemRef asm_expr asm_expr asm_type      \<comment> \<open>\<open>SgAsmMemoryReferenceExpression\<close>: address, segment, type\<close>
| ByteValue u8
| WordValue "16 word"
| DoubleWordValue u32
| QuadWordValue u64
| OtherExpr                              \<comment> \<open>any other node class, and a null pointer\<close>

datatype insn_size = insnsize_none | insnsize_16 | insnsize_32 | insnsize_64

text \<open>
  The instruction kinds that the semantics names, in groups; every other kind is \<open>x86_other\<close>. The
  sixteen condition codes of the jumps, sets and conditional moves and the prefix, operation and width
  of the string instructions are arguments: \<open>x86_jne\<close> is \<open>Control (x86_j cc_ne)\<close>, \<open>x86_setne\<close> is
  \<open>Data (x86_set cc_ne)\<close>, \<open>x86_cmovne\<close> is \<open>Data (x86_cmov cc_ne)\<close>, and \<open>x86_repne_scasb\<close> is
  \<open>StringOp prefix_repne op_scas size_b\<close>.
\<close>

datatype x86_cc =
  cc_ne | cc_e | cc_no | cc_o | cc_po | cc_pe | cc_ns | cc_s
| cc_ae | cc_b | cc_be | cc_a | cc_le | cc_g | cc_ge | cc_l

datatype str_prefix = prefix_none | prefix_rep | prefix_repe | prefix_repne

datatype str_op = op_scas | op_cmps | op_movs | op_stos | op_lods | op_ins | op_outs

datatype str_size = size_b | size_w | size_d | size_q

datatype (plugins only: code size) data_kind =
  x86_mov | x86_xchg | x86_movzx | x86_movsx | x86_cbw | x86_cwde | x86_cwd | x86_cdq | x86_lea
| x86_bswap | x86_push | x86_pushad | x86_pushfd | x86_pop | x86_popad | x86_leave
| x86_set x86_cc | x86_cmov x86_cc

datatype (plugins only: code size) logic_kind =
  x86_and | x86_or | x86_test | x86_xor | x86_not | x86_shl | x86_sar | x86_shr | x86_rol | x86_ror
| x86_shld | x86_shrd | x86_bsf | x86_bsr | x86_bt | x86_btr | x86_bts

datatype (plugins only: code size) arith_kind =
  x86_xadd | x86_add | x86_adc | x86_sub | x86_sbb | x86_cmp | x86_neg | x86_inc | x86_dec
| x86_cmpxchg | x86_imul | x86_mul | x86_idiv | x86_div | x86_aaa | x86_aas | x86_aam | x86_aad

datatype (plugins only: code size) control_kind =
  x86_call | x86_ret | x86_loop | x86_loopz | x86_loopnz | x86_jmp | x86_j x86_cc | x86_jcxz | x86_jecxz
| x86_hlt | x86_int | x86_sysenter

datatype (plugins only: code size) misc_kind =
  x86_cld | x86_std | x86_clc | x86_stc | x86_cmc | x86_nop | x86_cpuid | x86_rdtsc
| x86_fnstcw | x86_fldcw | x86_other

datatype x86_kind =
  Data data_kind | Logic logic_kind | Arith arith_kind | Control control_kind | Misc misc_kind
| StringOp str_prefix str_op str_size

record x86_insn =
  insn_kind :: x86_kind
  insn_operands :: "asm_expr list"
  insn_size :: nat
  insn_address :: u64
  insn_addressSize :: insn_size
  insn_operandSize :: insn_size
  insn_segmentOverride :: nat

section \<open>Accessors\<close>

text \<open>\<open>get_type()\<close>: register and memory references carry a type, value expressions have the type of
  their size, and the base class asserts for everything else.\<close>

fun get_type :: "asm_expr \<Rightarrow> asm_type option" where
  "get_type (RegRef _ t) = Some t"
| "get_type (MemRef _ _ t) = Some t"
| "get_type (ByteValue _) = Some TypeByte"
| "get_type (WordValue _) = Some TypeWord"
| "get_type (DoubleWordValue _) = Some TypeDoubleWord"
| "get_type (QuadWordValue _) = Some TypeQuadWord"
| "get_type _ = None"

fun numBytesInAsmType :: "asm_type \<Rightarrow> nat option" where
  "numBytesInAsmType TypeByte = Some 1"
| "numBytesInAsmType TypeWord = Some 2"
| "numBytesInAsmType TypeDoubleWord = Some 4"
| "numBytesInAsmType TypeQuadWord = Some 8"
| "numBytesInAsmType TypeOther = None"

fun getAsmSignedConstant :: "asm_expr \<Rightarrow> u64 option" where
  "getAsmSignedConstant (ByteValue v) = Some (signExtend 8 64 (ucast v))"
| "getAsmSignedConstant (WordValue v) = Some (signExtend 16 64 (ucast v))"
| "getAsmSignedConstant (DoubleWordValue v) = Some (signExtend 32 64 (ucast v))"
| "getAsmSignedConstant (QuadWordValue v) = Some v"
| "getAsmSignedConstant _ = None"

definition getSegregFromMemoryReference :: "asm_expr \<Rightarrow> nat option" where
  "getSegregFromMemoryReference seg =
     (case seg of
        RegRef d _ \<Rightarrow>
          do { assert_opt (majr d = x86_regclass_segment);
               Some (if minr d = x86_segreg_none then x86_segreg_ds else minr d) }
      | _ \<Rightarrow> None)"

text \<open>\<open>operands[i]\<close>; an index outside the vector is an error of the model.\<close>

definition operand :: "x86_insn \<Rightarrow> nat \<Rightarrow> ('s, asm_expr) sem" where
  "operand insn i =
     (if i < length (insn_operands insn) then retS (insn_operands insn ! i) else failS (Abort ''operands''))"

definition operand_bytes :: "asm_expr \<Rightarrow> ('s, nat) sem" where
  "operand_bytes e =
     (case get_type e of
        None \<Rightarrow> failS (Abort ''get_type'')
      | Some t \<Rightarrow> ofOption (Abort ''numBytesInAsmType'') (numBytesInAsmType t))"

end
