(* ===== verification/X86Helpers.thy ===== *)
theory X86Helpers
  imports X86Syntax
begin

unbundle bit_operations_syntax

text \<open>
  The members of \<open>X86InstructionSemantics\<close> (\<^verbatim>\<open>x86InstructionSemantics.h\<close>) that \<open>translate\<close> uses: operand access,
  flag computation, addition with flags, shifts and the string instructions. The object is the
  policy it was built with extended by the register descriptors that its constructor looks up;
  \<open>orig_eip\<close>, which \<open>translate\<close> sets, is an argument where it is read.
\<close>

record ('s, 'v) x86sem = "('s, 'v) policy" +
  REG_EAX :: RegisterDescriptor
  REG_EBX :: RegisterDescriptor
  REG_ECX :: RegisterDescriptor
  REG_EDX :: RegisterDescriptor
  REG_EDI :: RegisterDescriptor
  REG_EIP :: RegisterDescriptor
  REG_ESI :: RegisterDescriptor
  REG_ESP :: RegisterDescriptor
  REG_EBP :: RegisterDescriptor
  REG_AX :: RegisterDescriptor
  REG_CX :: RegisterDescriptor
  REG_DX :: RegisterDescriptor
  REG_AL :: RegisterDescriptor
  REG_AH :: RegisterDescriptor
  REG_EFLAGS :: RegisterDescriptor
  REG_AF :: RegisterDescriptor
  REG_CF :: RegisterDescriptor
  REG_DF :: RegisterDescriptor
  REG_OF :: RegisterDescriptor
  REG_PF :: RegisterDescriptor
  REG_SF :: RegisterDescriptor
  REG_ZF :: RegisterDescriptor

text \<open>The constructor first reads \<open>eip\<close> for \<open>orig_eip\<close> (the value is overwritten by \<open>translate\<close>).\<close>

definition x86_new :: "('s, 'v) policy \<Rightarrow> ('s, ('s, 'v) x86sem) sem" where
  "x86_new P =
     bindS (p_findRegister P ''eip'' 0) (\<lambda>ip.
     bindS (p_readRegister P 32 ip) (\<lambda>_.
     bindS (p_findRegister P ''eax'' 32) (\<lambda>eax.
     bindS (p_findRegister P ''ebx'' 32) (\<lambda>ebx.
     bindS (p_findRegister P ''ecx'' 32) (\<lambda>ecx.
     bindS (p_findRegister P ''edx'' 32) (\<lambda>edx.
     bindS (p_findRegister P ''edi'' 32) (\<lambda>edi.
     bindS (p_findRegister P ''eip'' 32) (\<lambda>eip.
     bindS (p_findRegister P ''esi'' 32) (\<lambda>esi.
     bindS (p_findRegister P ''esp'' 32) (\<lambda>esp.
     bindS (p_findRegister P ''ebp'' 32) (\<lambda>ebp.
     bindS (p_findRegister P ''ax'' 16) (\<lambda>ax.
     bindS (p_findRegister P ''cx'' 16) (\<lambda>cx.
     bindS (p_findRegister P ''dx'' 16) (\<lambda>dx.
     bindS (p_findRegister P ''al'' 8) (\<lambda>al.
     bindS (p_findRegister P ''ah'' 8) (\<lambda>ah.
     bindS (p_findRegister P ''eflags'' 32) (\<lambda>eflags.
     bindS (p_findRegister P ''af'' 1) (\<lambda>af.
     bindS (p_findRegister P ''cf'' 1) (\<lambda>cf.
     bindS (p_findRegister P ''df'' 1) (\<lambda>df.
     bindS (p_findRegister P ''of'' 1) (\<lambda>fof.
     bindS (p_findRegister P ''pf'' 1) (\<lambda>pf.
     bindS (p_findRegister P ''sf'' 1) (\<lambda>sf.
     bindS (p_findRegister P ''zf'' 1) (\<lambda>zf.
     retS (policy.extend P
       \<lparr>REG_EAX = eax, REG_EBX = ebx, REG_ECX = ecx, REG_EDX = edx, REG_EDI = edi, REG_EIP = eip,
        REG_ESI = esi, REG_ESP = esp, REG_EBP = ebp, REG_AX = ax, REG_CX = cx, REG_DX = dx,
        REG_AL = al, REG_AH = ah, REG_EFLAGS = eflags, REG_AF = af, REG_CF = cf, REG_DF = df,
        REG_OF = fof, REG_PF = pf, REG_SF = sf, REG_ZF = zf\<rparr>)))))))))))))))))))))))))"

section \<open>Operands\<close>

text \<open>\<open>read8\<close>, \<open>read16\<close> and \<open>read32\<close> are one function of the width \<open>w\<close>: they call \<open>read8\<close> for the scale of a
  multiplication and \<open>read32\<close> for an address.\<close>

fun read_expr :: "('s, 'v) x86sem \<Rightarrow> nat \<Rightarrow> asm_expr \<Rightarrow> ('s, 'v) sem" where
  "read_expr X w (RegRef d t) = readRegister X w d"
| "read_expr X w (BinaryAdd l r) = addV X w (read_expr X w l) (read_expr X w r)"
| "read_expr X w (BinaryMultiply l r) =
     (case r of
        ByteValue b \<Rightarrow> extractV X 0 w (w + 8) (unsignedMultiply X w 8 (read_expr X w l) (read_expr X 8 r))
      | _ \<Rightarrow> failS (X86Exception ''byte value expression expected''))"
| "read_expr X w (MemRef addr seg t) =
     bindS (ofOption (Abort ''Bad segment expr'') (getSegregFromMemoryReference seg)) (\<lambda>segreg.
       readMemory X w segreg (read_expr X 32 addr) (trueV X))"
| "read_expr X w (ByteValue v) =
     bindS (ofOption (Abort '''') (getAsmSignedConstant (ByteValue v))) (\<lambda>n. numberV X w (n AND mask w))"
| "read_expr X w (WordValue v) =
     bindS (ofOption (Abort '''') (getAsmSignedConstant (WordValue v))) (\<lambda>n. numberV X w (n AND mask w))"
| "read_expr X w (DoubleWordValue v) =
     bindS (ofOption (Abort '''') (getAsmSignedConstant (DoubleWordValue v))) (\<lambda>n. numberV X w (n AND mask w))"
| "read_expr X w (QuadWordValue v) =
     bindS (ofOption (Abort '''') (getAsmSignedConstant (QuadWordValue v))) (\<lambda>n. numberV X w (n AND mask w))"
| "read_expr X w OtherExpr = failS (Abort ''Bad variant'')"

definition read8 :: "('s, 'v) x86sem \<Rightarrow> asm_expr \<Rightarrow> ('s, 'v) sem" where
  "read8 X e = read_expr X 8 e"

definition read16 :: "('s, 'v) x86sem \<Rightarrow> asm_expr \<Rightarrow> ('s, 'v) sem" where
  "read16 X e = read_expr X 16 e"

definition read32 :: "('s, 'v) x86sem \<Rightarrow> asm_expr \<Rightarrow> ('s, 'v) sem" where
  "read32 X e = read_expr X 32 e"

definition readEffectiveAddress :: "('s, 'v) x86sem \<Rightarrow> asm_expr \<Rightarrow> ('s, 'v) sem" where
  "readEffectiveAddress X e =
     (case e of MemRef addr seg t \<Rightarrow> read32 X addr | _ \<Rightarrow> failS (Abort ''readEffectiveAddress''))"

definition write_expr :: "('s, 'v) x86sem \<Rightarrow> nat \<Rightarrow> asm_expr \<Rightarrow> ('s, 'v) sem \<Rightarrow> ('s, unit) sem" where
  "write_expr X w e value =
     bindS value (\<lambda>v.
       case e of
         RegRef d t \<Rightarrow> p_writeRegister X w d v
       | MemRef addr seg t \<Rightarrow>
           bindS (ofOption (Abort ''Bad segment expr'') (getSegregFromMemoryReference seg)) (\<lambda>segreg.
             writeMemory X w segreg (readEffectiveAddress X e) (retS v) (trueV X))
       | _ \<Rightarrow> failS (Abort ''Bad variant''))"

definition write8 :: "('s, 'v) x86sem \<Rightarrow> asm_expr \<Rightarrow> ('s, 'v) sem \<Rightarrow> ('s, unit) sem" where
  "write8 X e value = write_expr X 8 e value"

definition write16 :: "('s, 'v) x86sem \<Rightarrow> asm_expr \<Rightarrow> ('s, 'v) sem \<Rightarrow> ('s, unit) sem" where
  "write16 X e value = write_expr X 16 e value"

definition write32 :: "('s, 'v) x86sem \<Rightarrow> asm_expr \<Rightarrow> ('s, 'v) sem \<Rightarrow> ('s, unit) sem" where
  "write32 X e value = write_expr X 32 e value"

section \<open>Flags and additions\<close>

definition invertMaybe :: "('s, 'v) x86sem \<Rightarrow> nat \<Rightarrow> ('s, 'v) sem \<Rightarrow> bool \<Rightarrow> ('s, 'v) sem" where
  "invertMaybe X n w invr = (if invr then invertV X n w else w)"

definition greaterOrEqualToTen :: "('s, 'v) x86sem \<Rightarrow> nat \<Rightarrow> ('s, 'v) sem \<Rightarrow> ('s, 'v) sem" where
  "greaterOrEqualToTen X n w =
     bindS w (\<lambda>w. bindS (p_addWithCarries X n w (p_number X n 6) (p_number X 1 0)) (\<lambda>(_, carries).
       extractV X (n - 1) n n (retS carries)))"

definition parity :: "('s, 'v) x86sem \<Rightarrow> ('s, 'v) sem \<Rightarrow> ('s, 'v) sem" where
  "parity X w =
     bindS w (\<lambda>w.
     bindS (xorV X 1 (extractV X 0 1 8 (retS w)) (extractV X 1 2 8 (retS w))) (\<lambda>p01.
     bindS (xorV X 1 (extractV X 2 3 8 (retS w)) (extractV X 3 4 8 (retS w))) (\<lambda>p23.
     bindS (xorV X 1 (extractV X 4 5 8 (retS w)) (extractV X 5 6 8 (retS w))) (\<lambda>p45.
     bindS (xorV X 1 (extractV X 6 7 8 (retS w)) (extractV X 7 8 8 (retS w))) (\<lambda>p67.
     bindS (xorV X 1 (retS p01) (retS p23)) (\<lambda>p0123.
     bindS (xorV X 1 (retS p45) (retS p67)) (\<lambda>p4567.
       invertV X 1 (xorV X 1 (retS p0123) (retS p4567)))))))))"

definition setFlagsForResult :: "('s, 'v) x86sem \<Rightarrow> nat \<Rightarrow> 'v \<Rightarrow> ('s, unit) sem" where
  "setFlagsForResult X n result =
     blockS
       [writeRegister X 1 (REG_PF X) (parity X (extractV X 0 8 n (retS result))),
        writeRegister X 1 (REG_SF X) (extractV X (n - 1) n n (retS result)),
        writeRegister X 1 (REG_ZF X) (equalToZero X n (retS result))]"

definition setFlagsForResult_cond :: "('s, 'v) x86sem \<Rightarrow> nat \<Rightarrow> 'v \<Rightarrow> 'v \<Rightarrow> ('s, unit) sem" where
  "setFlagsForResult_cond X n result cond =
     blockS
       [writeRegister X 1 (REG_PF X)
          (iteV X 1 (retS cond) (parity X (extractV X 0 8 n (retS result))) (readRegister X 1 (REG_PF X))),
        writeRegister X 1 (REG_SF X)
          (iteV X 1 (retS cond) (extractV X (n - 1) n n (retS result)) (readRegister X 1 (REG_SF X))),
        writeRegister X 1 (REG_ZF X)
          (iteV X 1 (retS cond) (equalToZero X n (retS result)) (readRegister X 1 (REG_ZF X)))]"

definition doAddOperation ::
  "('s, 'v) x86sem \<Rightarrow> nat \<Rightarrow> ('s, 'v) sem \<Rightarrow> ('s, 'v) sem \<Rightarrow> bool \<Rightarrow> ('s, 'v) sem \<Rightarrow> ('s, 'v) sem" where
  "doAddOperation X n a b invertCarries carryIn =
     bindS a (\<lambda>a. bindS b (\<lambda>b. bindS carryIn (\<lambda>carryIn.
     bindS (invertMaybe X 1 (retS carryIn) invertCarries) (\<lambda>c.
     bindS (p_addWithCarries X n a b c) (\<lambda>(result, carries).
     seqS (setFlagsForResult X n result)
     (seqS (writeRegister X 1 (REG_AF X) (invertMaybe X 1 (extractV X 3 4 n (retS carries)) invertCarries))
     (seqS (writeRegister X 1 (REG_CF X) (invertMaybe X 1 (extractV X (n - 1) n n (retS carries)) invertCarries))
     (seqS (writeRegister X 1 (REG_OF X)
              (xorV X 1 (extractV X (n - 1) n n (retS carries)) (extractV X (n - 2) (n - 1) n (retS carries))))
     (retS result)))))))))"

definition doAddOperation_cond ::
  "('s, 'v) x86sem \<Rightarrow> nat \<Rightarrow> ('s, 'v) sem \<Rightarrow> ('s, 'v) sem \<Rightarrow> bool \<Rightarrow> ('s, 'v) sem \<Rightarrow> 'v \<Rightarrow> ('s, 'v) sem" where
  "doAddOperation_cond X n a b invertCarries carryIn cond =
     bindS a (\<lambda>a. bindS b (\<lambda>b. bindS carryIn (\<lambda>carryIn.
     bindS (invertMaybe X 1 (retS carryIn) invertCarries) (\<lambda>c.
     bindS (p_addWithCarries X n a b c) (\<lambda>(result, carries).
     seqS (setFlagsForResult_cond X n result cond)
     (seqS (writeRegister X 1 (REG_AF X)
              (iteV X 1 (retS cond) (invertMaybe X 1 (extractV X 3 4 n (retS carries)) invertCarries)
                 (readRegister X 1 (REG_AF X))))
     (seqS (writeRegister X 1 (REG_CF X)
              (iteV X 1 (retS cond) (invertMaybe X 1 (extractV X (n - 1) n n (retS carries)) invertCarries)
                 (readRegister X 1 (REG_CF X))))
     (seqS (writeRegister X 1 (REG_OF X)
              (iteV X 1 (retS cond)
                 (xorV X 1 (extractV X (n - 1) n n (retS carries)) (extractV X (n - 2) (n - 1) n (retS carries)))
                 (readRegister X 1 (REG_OF X))))
     (retS result)))))))))"

definition doIncOperation :: "('s, 'v) x86sem \<Rightarrow> nat \<Rightarrow> ('s, 'v) sem \<Rightarrow> bool \<Rightarrow> bool \<Rightarrow> ('s, 'v) sem" where
  "doIncOperation X n a decr setCarry =
     bindS a (\<lambda>a.
     bindS (p_addWithCarries X n a (p_number X n (if decr then -1 else 1)) (p_number X 1 0)) (\<lambda>(result, carries).
     seqS (setFlagsForResult X n result)
     (seqS (writeRegister X 1 (REG_AF X) (invertMaybe X 1 (extractV X 3 4 n (retS carries)) decr))
     (seqS (writeRegister X 1 (REG_OF X)
              (xorV X 1 (extractV X (n - 1) n n (retS carries)) (extractV X (n - 2) (n - 1) n (retS carries))))
     (seqS (if setCarry
            then writeRegister X 1 (REG_CF X) (invertMaybe X 1 (extractV X (n - 1) n n (retS carries)) decr)
            else retS ())
     (retS result))))))"

section \<open>String instructions\<close>

text \<open>\<open>orig_eip\<close> is the value of the instruction pointer at the start of the instruction.\<close>

definition rep_enter :: "('s, 'v) x86sem \<Rightarrow> ('s, 'v) sem" where
  "rep_enter X = invertV X 1 (equalToZero X 32 (readRegister X 32 (REG_ECX X)))"

definition rep_repeat :: "('s, 'v) x86sem \<Rightarrow> 'v \<Rightarrow> 'v \<Rightarrow> 'v \<Rightarrow> ('s, unit) sem" where
  "rep_repeat X orig_eip repeat cond =
     bindS (addV X 32 (readRegister X 32 (REG_ECX X)) (iteV X 32 (retS cond) (numberV X 32 (- 1)) (numberV X 32 0))) (\<lambda>new_cx.
     seqS (writeRegister X 32 (REG_ECX X) (retS new_cx))
     (bindS (andV X 1 (retS repeat) (invertV X 1 (equalToZero X 32 (retS new_cx)))) (\<lambda>repeat.
       writeRegister X 32 (REG_EIP X)
         (iteV X 32 (andV X 1 (retS cond) (retS repeat)) (retS orig_eip) (readRegister X 32 (REG_EIP X))))))"

definition stringop_load_si :: "('s, 'v) x86sem \<Rightarrow> nat \<Rightarrow> x86_insn \<Rightarrow> 'v \<Rightarrow> ('s, 'v) sem" where
  "stringop_load_si X N insn cond =
     readMemory X (8 * N)
       (if insn_segmentOverride insn = x86_segreg_none then x86_segreg_ds else insn_segmentOverride insn)
       (readRegister X 32 (REG_ESI X)) (retS cond)"

definition stringop_load_di :: "('s, 'v) x86sem \<Rightarrow> nat \<Rightarrow> 'v \<Rightarrow> ('s, 'v) sem" where
  "stringop_load_di X N cond = readMemory X (8 * N) x86_segreg_es (readRegister X 32 (REG_EDI X)) (retS cond)"

text \<open>The two checks that open every string instruction.\<close>

definition string_checks :: "x86_insn \<Rightarrow> string \<Rightarrow> ('s, unit) sem" where
  "string_checks insn mesg =
     blockS
       [guardS (insn_operands insn = []) (X86Exception ''instruction must have no operands''),
        guardS (insn_addressSize insn = insnsize_32) (X86Exception mesg)]"

text \<open>The step of an index register: \<open>-N\<close> when the direction flag is set, else \<open>N\<close>.\<close>

definition string_step :: "('s, 'v) x86sem \<Rightarrow> nat \<Rightarrow> ('s, 'v) sem" where
  "string_step X N = iteV X 32 (readRegister X 1 (REG_DF X)) (numberV X 32 (- of_nat N)) (numberV X 32 (of_nat N))"

definition advance_if :: "('s, 'v) x86sem \<Rightarrow> nat \<Rightarrow> RegisterDescriptor \<Rightarrow> 'v \<Rightarrow> ('s, unit) sem" where
  "advance_if X N reg cond =
     writeRegister X 32 reg
       (iteV X 32 (retS cond) (addV X 32 (readRegister X 32 reg) (string_step X N)) (readRegister X 32 reg))"

definition stos_semantics :: "('s, 'v) x86sem \<Rightarrow> nat \<Rightarrow> x86_insn \<Rightarrow> 'v \<Rightarrow> ('s, unit) sem" where
  "stos_semantics X N insn cond =
     blockS
       [string_checks insn ''address size must be 32 bits'',
        writeMemory X (8 * N) x86_segreg_es (readRegister X 32 (REG_EDI X))
          (extractV X 0 (8 * N) 32 (readRegister X 32 (REG_EAX X))) (retS cond),
        advance_if X N (REG_EDI X) cond]"

definition rep_stos_semantics :: "('s, 'v) x86sem \<Rightarrow> nat \<Rightarrow> x86_insn \<Rightarrow> 'v \<Rightarrow> ('s, unit) sem" where
  "rep_stos_semantics X N insn orig_eip =
     bindS (rep_enter X) (\<lambda>in_loop.
     seqS (stos_semantics X N insn in_loop)
     (bindS (trueV X) (\<lambda>repeat. rep_repeat X orig_eip repeat in_loop)))"

definition movs_advance :: "('s, 'v) x86sem \<Rightarrow> nat \<Rightarrow> RegisterDescriptor \<Rightarrow> 'v \<Rightarrow> ('s, unit) sem" where
  "movs_advance X N reg cond =
     writeRegister X 32 reg
       (addV X 32 (readRegister X 32 reg) (iteV X 32 (retS cond) (string_step X N) (numberV X 32 0)))"

definition movs_semantics :: "('s, 'v) x86sem \<Rightarrow> nat \<Rightarrow> x86_insn \<Rightarrow> 'v \<Rightarrow> ('s, unit) sem" where
  "movs_semantics X N insn cond =
     blockS
       [string_checks insn ''size not implemented'',
        writeMemory X (8 * N) x86_segreg_es (readRegister X 32 (REG_EDI X)) (stringop_load_si X N insn cond) (retS cond),
        movs_advance X N (REG_ESI X) cond,
        movs_advance X N (REG_EDI X) cond]"

definition rep_movs_semantics :: "('s, 'v) x86sem \<Rightarrow> nat \<Rightarrow> x86_insn \<Rightarrow> 'v \<Rightarrow> ('s, unit) sem" where
  "rep_movs_semantics X N insn orig_eip =
     bindS (rep_enter X) (\<lambda>in_loop.
     seqS (movs_semantics X N insn in_loop)
     (bindS (trueV X) (\<lambda>repeat. rep_repeat X orig_eip repeat in_loop)))"

definition cmps_semantics :: "('s, 'v) x86sem \<Rightarrow> nat \<Rightarrow> x86_insn \<Rightarrow> 'v \<Rightarrow> ('s, unit) sem" where
  "cmps_semantics X N insn cond =
     blockS
       [string_checks insn ''size not implemented'',
        dropS (doAddOperation_cond X (8 * N) (stringop_load_si X N insn cond)
                 (invertV X (8 * N) (stringop_load_di X N cond)) True (falseV X) cond),
        advance_if X N (REG_ESI X) cond,
        advance_if X N (REG_EDI X) cond]"

definition repe_cmps_semantics :: "('s, 'v) x86sem \<Rightarrow> nat \<Rightarrow> x86_insn \<Rightarrow> 'v \<Rightarrow> ('s, unit) sem" where
  "repe_cmps_semantics X N insn orig_eip =
     bindS (rep_enter X) (\<lambda>in_loop.
     seqS (cmps_semantics X N insn in_loop)
     (bindS (readRegister X 1 (REG_ZF X)) (\<lambda>repeat. rep_repeat X orig_eip repeat in_loop)))"

definition repne_cmps_semantics :: "('s, 'v) x86sem \<Rightarrow> nat \<Rightarrow> x86_insn \<Rightarrow> 'v \<Rightarrow> ('s, unit) sem" where
  "repne_cmps_semantics X N insn orig_eip =
     bindS (rep_enter X) (\<lambda>in_loop.
     seqS (cmps_semantics X N insn in_loop)
     (bindS (invertV X 1 (readRegister X 1 (REG_ZF X))) (\<lambda>repeat. rep_repeat X orig_eip repeat in_loop)))"

definition scas_semantics :: "('s, 'v) x86sem \<Rightarrow> nat \<Rightarrow> x86_insn \<Rightarrow> 'v \<Rightarrow> ('s, unit) sem" where
  "scas_semantics X N insn cond =
     blockS
       [string_checks insn ''size not implemented'',
        dropS (doAddOperation_cond X (8 * N) (extractV X 0 (8 * N) 32 (readRegister X 32 (REG_EAX X)))
                 (invertV X (8 * N) (stringop_load_di X N cond)) True (falseV X) cond),
        advance_if X N (REG_EDI X) cond]"

definition repe_scas_semantics :: "('s, 'v) x86sem \<Rightarrow> nat \<Rightarrow> x86_insn \<Rightarrow> 'v \<Rightarrow> ('s, unit) sem" where
  "repe_scas_semantics X N insn orig_eip =
     bindS (rep_enter X) (\<lambda>in_loop.
     seqS (scas_semantics X N insn in_loop)
     (bindS (readRegister X 1 (REG_ZF X)) (\<lambda>repeat. rep_repeat X orig_eip repeat in_loop)))"

definition repne_scas_semantics :: "('s, 'v) x86sem \<Rightarrow> nat \<Rightarrow> x86_insn \<Rightarrow> 'v \<Rightarrow> ('s, unit) sem" where
  "repne_scas_semantics X N insn orig_eip =
     bindS (rep_enter X) (\<lambda>in_loop.
     seqS (scas_semantics X N insn in_loop)
     (bindS (invertV X 1 (readRegister X 1 (REG_ZF X))) (\<lambda>repeat. rep_repeat X orig_eip repeat in_loop)))"

text \<open>\<open>lods_semantics_regupdate\<close> is overloaded on the width of its argument.\<close>

definition lods_semantics_regupdate :: "('s, 'v) x86sem \<Rightarrow> nat \<Rightarrow> ('s, 'v) sem \<Rightarrow> ('s, unit) sem" where
  "lods_semantics_regupdate X w v =
     (if w = 8 then writeRegister X 8 (REG_AL X) v
      else if w = 16 then writeRegister X 16 (REG_AX X) v
      else writeRegister X 32 (REG_EAX X) v)"

definition lods_semantics :: "('s, 'v) x86sem \<Rightarrow> nat \<Rightarrow> x86_insn \<Rightarrow> ('s, unit) sem" where
  "lods_semantics X N insn =
     blockS
       [string_checks insn ''size not implemented'',
        lods_semantics_regupdate X (8 * N) (bindS (trueV X) (stringop_load_si X N insn)),
        writeRegister X 32 (REG_ESI X) (addV X 32 (readRegister X 32 (REG_ESI X)) (string_step X N))]"

section \<open>Shifts\<close>

text \<open>
  \<open>shift_semantics<n, k>\<close>, where \<open>k\<close> is the number of significant bits of the shift count. The parts are
  in the order of the source: the result, the last bit shifted off, the new carry flag and the new
  overflow flag. \<open>bitPosition\<close> is declared without an initialiser and so starts as an undefined value.
\<close>

definition shift_result ::
  "('s, 'v) x86sem \<Rightarrow> nat \<Rightarrow> nat \<Rightarrow> logic_kind \<Rightarrow> 'v \<Rightarrow> 'v \<Rightarrow> 'v \<Rightarrow> 'v \<Rightarrow> 'v \<Rightarrow> ('s, 'v) sem" where
  "shift_result X n k kind opnd source_bits maskedShiftCount isZeroShiftCount isLargeShift =
     (case kind of
        x86_shr \<Rightarrow> shiftRightV X n k (retS opnd) (retS maskedShiftCount)
      | x86_sar \<Rightarrow> shiftRightArithmeticV X n k (retS opnd) (retS maskedShiftCount)
      | x86_shl \<Rightarrow> shiftLeftV X n k (retS opnd) (retS maskedShiftCount)
      | x86_shrd \<Rightarrow>
          iteV X n (retS isLargeShift) (undefinedV X n)
            (orV X n (shiftRightV X n k (retS opnd) (retS maskedShiftCount))
               (iteV X n (retS isZeroShiftCount) (numberV X n 0)
                  (shiftLeftV X n k (retS source_bits) (negateV X k (retS maskedShiftCount)))))
      | x86_shld \<Rightarrow>
          iteV X n (retS isLargeShift) (undefinedV X n)
            (orV X n (shiftLeftV X n k (retS opnd) (retS maskedShiftCount))
               (iteV X n (retS isZeroShiftCount) (numberV X n 0)
                  (shiftRightV X n k (retS source_bits) (negateV X k (retS maskedShiftCount)))))
      | _ \<Rightarrow> failS (Abort ''abort''))"

definition shifted_off_bit ::
  "('s, 'v) x86sem \<Rightarrow> nat \<Rightarrow> nat \<Rightarrow> logic_kind \<Rightarrow> 'v \<Rightarrow> 'v \<Rightarrow> 'v \<Rightarrow> ('s, 'v) sem" where
  "shifted_off_bit X n k kind opnd maskedShiftCount msk =
     seqS (undefinedV X k)
     (bindS (if kind = x86_shr \<or> kind = x86_sar
             then addV X k (retS maskedShiftCount) (retS msk)
             else addV X k (numberV X k (of_nat n AND mask k))
                    (addV X k (invertV X k (retS maskedShiftCount)) (numberV X k 1))) (\<lambda>bitPosition.
       extractV X 0 1 n (shiftRightV X n k (retS opnd) (retS bitPosition))))"

definition shift_newCF ::
  "('s, 'v) x86sem \<Rightarrow> nat \<Rightarrow> logic_kind \<Rightarrow> 'v \<Rightarrow> 'v \<Rightarrow> 'v \<Rightarrow> 'v \<Rightarrow> ('s, 'v) sem" where
  "shift_newCF X n kind opnd isZeroShiftCount isLargeShift shifted_off =
     iteV X 1 (retS isZeroShiftCount) (readRegister X 1 (REG_CF X))
       (iteV X 1 (retS isLargeShift)
          (if kind = x86_sar then extractV X (n - 1) n n (retS opnd) else undefinedV X 1)
          (retS shifted_off))"

definition shift_newOF ::
  "('s, 'v) x86sem \<Rightarrow> nat \<Rightarrow> logic_kind \<Rightarrow> 'v \<Rightarrow> 'v \<Rightarrow> 'v \<Rightarrow> 'v \<Rightarrow> 'v \<Rightarrow> ('s, 'v) sem" where
  "shift_newOF X n kind opnd retval isOneBitShift isZeroShiftCount newCF =
     seqS (undefinedV X 1)
     (iteV X 1 (retS isOneBitShift)
       (case kind of
          x86_shr \<Rightarrow> extractV X (n - 1) n n (retS opnd)
        | x86_sar \<Rightarrow> falseV X
        | _ \<Rightarrow> xorV X 1 (retS newCF) (extractV X (n - 1) n n (retS retval)))
       (iteV X 1 (retS isZeroShiftCount) (readRegister X 1 (REG_OF X)) (undefinedV X 1)))"

definition shift_semantics ::
  "('s, 'v) x86sem \<Rightarrow> nat \<Rightarrow> nat \<Rightarrow> logic_kind \<Rightarrow> ('s, 'v) sem \<Rightarrow> ('s, 'v) sem \<Rightarrow> ('s, 'v) sem \<Rightarrow> ('s, 'v) sem" where
  "shift_semantics X n k kind opnd source_bits total_shift =
     bindS opnd (\<lambda>opnd. bindS source_bits (\<lambda>source_bits. bindS total_shift (\<lambda>total_shift.
     seqS (guardS (kind \<in> {x86_shr, x86_sar, x86_shl, x86_shld, x86_shrd}) (Abort ''kind''))
     (bindS (extractV X 0 k 8 (retS total_shift)) (\<lambda>maskedShiftCount.
     bindS (equalToZero X k (retS maskedShiftCount)) (\<lambda>isZeroShiftCount.
     bindS (invertV X 1 (equalToZero X (8 - k) (extractV X k 8 8 (retS total_shift)))) (\<lambda>isLargeShift.
     bindS (numberV X k (mask k)) (\<lambda>msk.
     bindS (equalToZero X k (addV X k (retS maskedShiftCount) (retS msk))) (\<lambda>isOneBitShift.
     seqS (undefinedV X n)
     (bindS (shift_result X n k kind opnd source_bits maskedShiftCount isZeroShiftCount isLargeShift) (\<lambda>retval.
     seqS (writeRegister X 1 (REG_AF X)
             (iteV X 1 (retS isZeroShiftCount) (readRegister X 1 (REG_AF X)) (undefinedV X 1)))
     (bindS (shifted_off_bit X n k kind opnd maskedShiftCount msk) (\<lambda>shifted_off.
     bindS (shift_newCF X n kind opnd isZeroShiftCount isLargeShift shifted_off) (\<lambda>newCF.
     seqS (writeRegister X 1 (REG_CF X) (retS newCF))
     (bindS (shift_newOF X n kind opnd retval isOneBitShift isZeroShiftCount newCF) (\<lambda>newOF.
     seqS (writeRegister X 1 (REG_OF X) (retS newOF))
     (bindS (invertV X 1 (retS isZeroShiftCount)) (\<lambda>cond.
     seqS (setFlagsForResult_cond X n retval cond)
     (retS retval)))))))))))))))))))"

end
