(* ===== verification/X86Data.thy ===== *)
theory X86Data
  imports X86Helpers
begin

text \<open>
  The cases of \<open>X86InstructionSemantics::translate\<close> that move data, combine bits, and shift: one
  definition per \<open>case\<close> label, in the order of the source. Each runs after \<open>translate\<close> has advanced the
  instruction pointer. The source repeats the body of most cases for the operand widths 8, 16 and 32;
  the body here is a function of the width.
\<close>

section \<open>Operand counts and operand widths\<close>

definition operands0 :: "x86_insn \<Rightarrow> ('s, unit) sem \<Rightarrow> ('s, unit) sem" where
  "operands0 insn body =
     (case insn_operands insn of [] \<Rightarrow> body | _ \<Rightarrow> failS (X86Exception ''instruction must have no operands''))"

definition operands1 :: "x86_insn \<Rightarrow> (asm_expr \<Rightarrow> ('s, unit) sem) \<Rightarrow> ('s, unit) sem" where
  "operands1 insn body =
     (case insn_operands insn of [a] \<Rightarrow> body a | _ \<Rightarrow> failS (X86Exception ''instruction must have one operand''))"

definition operands2 :: "x86_insn \<Rightarrow> (asm_expr \<Rightarrow> asm_expr \<Rightarrow> ('s, unit) sem) \<Rightarrow> ('s, unit) sem" where
  "operands2 insn body =
     (case insn_operands insn of [a, b] \<Rightarrow> body a b | _ \<Rightarrow> failS (X86Exception ''instruction must have two operands''))"

text \<open>\<open>switch (numBytesInAsmType(e->get_type()))\<close> with the cases 1, 2, 4 or only 2, 4.\<close>

definition size_not_implemented :: "('s, 'a) sem" where
  "size_not_implemented = failS (X86Exception ''size not implemented'')"

definition switch124 :: "asm_expr \<Rightarrow> (nat \<Rightarrow> ('s, unit) sem) \<Rightarrow> ('s, unit) sem" where
  "switch124 e body =
     bindS (operand_bytes e) (\<lambda>b.
       if b = 1 then body 8 else if b = 2 then body 16 else if b = 4 then body 32 else size_not_implemented)"

definition switch24 :: "asm_expr \<Rightarrow> (nat \<Rightarrow> ('s, unit) sem) \<Rightarrow> ('s, unit) sem" where
  "switch24 e body =
     bindS (operand_bytes e) (\<lambda>b. if b = 2 then body 16 else if b = 4 then body 32 else size_not_implemented)"

definition undefine :: "('s, 'v) x86sem \<Rightarrow> RegisterDescriptor \<Rightarrow> ('s, unit) sem" where
  "undefine X flag = writeRegister X 1 flag (undefinedV X 1)"

text \<open>The test that opens the stack and loop instructions.\<close>

definition sizes32 :: "x86_insn \<Rightarrow> bool" where
  "sizes32 insn \<longleftrightarrow> insn_addressSize insn = insnsize_32 \<and> insn_operandSize insn = insnsize_32"

section \<open>Moves\<close>

definition x86_mov_case :: "('s, 'v) x86sem \<Rightarrow> x86_insn \<Rightarrow> ('s, unit) sem" where
  "x86_mov_case X insn = operands2 insn (\<lambda>a b. switch124 a (\<lambda>n. write_expr X n a (read_expr X n b)))"

definition x86_xchg_case :: "('s, 'v) x86sem \<Rightarrow> x86_insn \<Rightarrow> ('s, unit) sem" where
  "x86_xchg_case X insn =
     operands2 insn (\<lambda>a b. switch124 a (\<lambda>n.
       bindS (read_expr X n b) (\<lambda>temp.
       seqS (write_expr X n b (read_expr X n a))
       (write_expr X n a (retS temp)))))"

definition x86_movzx_case :: "('s, 'v) x86sem \<Rightarrow> x86_insn \<Rightarrow> ('s, unit) sem" where
  "x86_movzx_case X insn =
     operands2 insn (\<lambda>a b.
       bindS (operand_bytes a) (\<lambda>m.
         if m = 2 then write16 X a (concatV X 8 8 (read8 X b) (numberV X 8 0))
         else if m = 4 then
           bindS (operand_bytes b) (\<lambda>k.
             if k = 1 then write32 X a (concatV X 8 24 (read8 X b) (numberV X 24 0))
             else if k = 2 then write32 X a (concatV X 16 16 (read16 X b) (numberV X 16 0))
             else size_not_implemented)
         else size_not_implemented))"

definition x86_movsx_case :: "('s, 'v) x86sem \<Rightarrow> x86_insn \<Rightarrow> ('s, unit) sem" where
  "x86_movsx_case X insn =
     operands2 insn (\<lambda>a b.
       bindS (operand_bytes a) (\<lambda>m.
         if m = 2 then write16 X a (signExtendV X 8 16 (read8 X b))
         else if m = 4 then
           bindS (operand_bytes b) (\<lambda>k.
             if k = 1 then write32 X a (signExtendV X 8 32 (read8 X b))
             else if k = 2 then write32 X a (signExtendV X 16 32 (read16 X b))
             else size_not_implemented)
         else size_not_implemented))"

definition x86_cbw_case :: "('s, 'v) x86sem \<Rightarrow> x86_insn \<Rightarrow> ('s, unit) sem" where
  "x86_cbw_case X insn =
     operands0 insn (writeRegister X 16 (REG_AX X) (signExtendV X 8 16 (readRegister X 8 (REG_AL X))))"

definition x86_cwde_case :: "('s, 'v) x86sem \<Rightarrow> x86_insn \<Rightarrow> ('s, unit) sem" where
  "x86_cwde_case X insn =
     operands0 insn (writeRegister X 32 (REG_EAX X) (signExtendV X 16 32 (readRegister X 16 (REG_AX X))))"

definition x86_cwd_case :: "('s, 'v) x86sem \<Rightarrow> x86_insn \<Rightarrow> ('s, unit) sem" where
  "x86_cwd_case X insn =
     operands0 insn
       (writeRegister X 16 (REG_DX X) (extractV X 16 32 32 (signExtendV X 16 32 (readRegister X 16 (REG_AX X)))))"

text \<open>The source reads 32 bits through the descriptor of \<open>ax\<close>.\<close>

definition x86_cdq_case :: "('s, 'v) x86sem \<Rightarrow> x86_insn \<Rightarrow> ('s, unit) sem" where
  "x86_cdq_case X insn =
     operands0 insn
       (writeRegister X 32 (REG_EDX X) (extractV X 32 64 64 (signExtendV X 32 64 (readRegister X 32 (REG_AX X)))))"

definition x86_lea_case :: "('s, 'v) x86sem \<Rightarrow> x86_insn \<Rightarrow> ('s, unit) sem" where
  "x86_lea_case X insn = operands2 insn (\<lambda>a b. write32 X a (readEffectiveAddress X b))"

section \<open>Bitwise logic\<close>

text \<open>The flags that the logical instructions clear or leave undefined.\<close>

definition logic_flags :: "('s, 'v) x86sem \<Rightarrow> ('s, unit) sem" where
  "logic_flags X =
     blockS
       [writeRegister X 1 (REG_OF X) (falseV X),
        undefine X (REG_AF X),
        writeRegister X 1 (REG_CF X) (falseV X)]"

definition x86_and_case :: "('s, 'v) x86sem \<Rightarrow> x86_insn \<Rightarrow> ('s, unit) sem" where
  "x86_and_case X insn =
     operands2 insn (\<lambda>a b.
       seqS (switch124 a (\<lambda>n.
         bindS (andV X n (read_expr X n a) (read_expr X n b)) (\<lambda>result.
         seqS (setFlagsForResult X n result) (write_expr X n a (retS result)))))
       (logic_flags X))"

definition x86_or_case :: "('s, 'v) x86sem \<Rightarrow> x86_insn \<Rightarrow> ('s, unit) sem" where
  "x86_or_case X insn =
     operands2 insn (\<lambda>a b.
       seqS (switch124 a (\<lambda>n.
         bindS (orV X n (read_expr X n a) (read_expr X n b)) (\<lambda>result.
         seqS (setFlagsForResult X n result) (write_expr X n a (retS result)))))
       (logic_flags X))"

definition x86_test_case :: "('s, 'v) x86sem \<Rightarrow> x86_insn \<Rightarrow> ('s, unit) sem" where
  "x86_test_case X insn =
     operands2 insn (\<lambda>a b.
       seqS (switch124 a (\<lambda>n.
         bindS (andV X n (read_expr X n a) (read_expr X n b)) (\<lambda>result. setFlagsForResult X n result)))
       (logic_flags X))"

definition x86_xor_case :: "('s, 'v) x86sem \<Rightarrow> x86_insn \<Rightarrow> ('s, unit) sem" where
  "x86_xor_case X insn =
     operands2 insn (\<lambda>a b.
       seqS (switch124 a (\<lambda>n.
         bindS (xorV X n (read_expr X n a) (read_expr X n b)) (\<lambda>result.
         seqS (setFlagsForResult X n result) (write_expr X n a (retS result)))))
       (logic_flags X))"

definition x86_not_case :: "('s, 'v) x86sem \<Rightarrow> x86_insn \<Rightarrow> ('s, unit) sem" where
  "x86_not_case X insn =
     operands1 insn (\<lambda>a. switch124 a (\<lambda>n.
       bindS (invertV X n (read_expr X n a)) (\<lambda>result. write_expr X n a (retS result))))"

section \<open>Shifts and rotations\<close>

text \<open>These cases do not check the number of operands before they index the vector.\<close>

definition x86_shift_case :: "('s, 'v) x86sem \<Rightarrow> logic_kind \<Rightarrow> x86_insn \<Rightarrow> ('s, unit) sem" where
  "x86_shift_case X kind insn =
     bindS (operand insn 0) (\<lambda>a. switch124 a (\<lambda>n.
       bindS (operand insn 1) (\<lambda>b.
       bindS (shift_semantics X n 5 kind (read_expr X n a) (undefinedV X n) (read8 X b)) (\<lambda>output.
         write_expr X n a (retS output)))))"

text \<open>A flag that keeps its value when the shift count is zero.\<close>

definition flag_unless_zero :: "('s, 'v) x86sem \<Rightarrow> RegisterDescriptor \<Rightarrow> 'v \<Rightarrow> ('s, 'v) sem \<Rightarrow> ('s, 'v) sem" where
  "flag_unless_zero X flag shiftCount new =
     iteV X 1 (equalToZero X 5 (retS shiftCount)) (readRegister X 1 flag) new"

definition x86_rol_case :: "('s, 'v) x86sem \<Rightarrow> x86_insn \<Rightarrow> ('s, unit) sem" where
  "x86_rol_case X insn =
     bindS (operand insn 0) (\<lambda>a. switch124 a (\<lambda>n.
       bindS (read_expr X n a) (\<lambda>opnd.
       bindS (operand insn 1) (\<lambda>b.
       bindS (extractV X 0 5 8 (read8 X b)) (\<lambda>shiftCount.
       bindS (rotateLeftV X n 5 (retS opnd) (retS shiftCount)) (\<lambda>output.
       blockS
         [writeRegister X 1 (REG_CF X) (flag_unless_zero X (REG_CF X) shiftCount (extractV X 0 1 n (retS output))),
          writeRegister X 1 (REG_OF X)
            (flag_unless_zero X (REG_OF X) shiftCount
               (xorV X 1 (extractV X 0 1 n (retS output)) (extractV X (n - 1) n n (retS output)))),
          write_expr X n a (retS output)]))))))"

definition x86_ror_case :: "('s, 'v) x86sem \<Rightarrow> x86_insn \<Rightarrow> ('s, unit) sem" where
  "x86_ror_case X insn =
     bindS (operand insn 0) (\<lambda>a. switch124 a (\<lambda>n.
       bindS (read_expr X n a) (\<lambda>opnd.
       bindS (operand insn 1) (\<lambda>b.
       bindS (extractV X 0 5 8 (read8 X b)) (\<lambda>shiftCount.
       bindS (rotateRightV X n 5 (retS opnd) (retS shiftCount)) (\<lambda>output.
       blockS
         [writeRegister X 1 (REG_CF X)
            (flag_unless_zero X (REG_CF X) shiftCount (extractV X (n - 1) n n (retS output))),
          writeRegister X 1 (REG_OF X)
            (flag_unless_zero X (REG_OF X) shiftCount
               (xorV X 1 (extractV X (n - 2) (n - 1) n (retS output)) (extractV X (n - 1) n n (retS output)))),
          write_expr X n a (retS output)]))))))"

text \<open>The end of the double shifts: write the result, set the flags, and \<open>AF\<close>.\<close>

definition double_shift_end :: "('s, 'v) x86sem \<Rightarrow> nat \<Rightarrow> asm_expr \<Rightarrow> 'v \<Rightarrow> 'v \<Rightarrow> ('s, unit) sem" where
  "double_shift_end X n a shiftCount output =
     blockS
       [write_expr X n a (retS output),
        setFlagsForResult X n output,
        writeRegister X 1 (REG_AF X) (flag_unless_zero X (REG_AF X) shiftCount (undefinedV X 1))]"

text \<open>The 32-bit branch computes the shift count a second time.\<close>

definition x86_shld_case :: "('s, 'v) x86sem \<Rightarrow> x86_insn \<Rightarrow> ('s, unit) sem" where
  "x86_shld_case X insn =
     bindS (operand insn 2) (\<lambda>c.
     bindS (extractV X 0 5 8 (read8 X c)) (\<lambda>shiftCount0.
     bindS (operand insn 0) (\<lambda>a. switch24 a (\<lambda>n.
       bindS (read_expr X n a) (\<lambda>op1.
       bindS (bindS (operand insn 1) (read_expr X n)) (\<lambda>op2.
       bindS (if n = 32 then extractV X 0 5 8 (read8 X c) else retS shiftCount0) (\<lambda>shiftCount.
       bindS (shiftLeftV X n 5 (retS op1) (retS shiftCount)) (\<lambda>output1.
       bindS (iteV X n (equalToZero X 5 (retS shiftCount)) (numberV X n 0)
                (shiftRightV X n 5 (retS op2) (negateV X 5 (retS shiftCount)))) (\<lambda>output2.
       bindS (orV X n (retS output1) (retS output2)) (\<lambda>output.
       bindS (flag_unless_zero X (REG_CF X) shiftCount
                (extractV X (n - 1) n n
                   (shiftLeftV X n 5 (retS op1) (addV X 5 (retS shiftCount) (numberV X 5 (of_nat (n - 1))))))) (\<lambda>newCf.
       seqS (writeRegister X 1 (REG_CF X) (retS newCf))
       (bindS (flag_unless_zero X (REG_OF X) shiftCount
                (xorV X 1 (extractV X (n - 1) n n (retS output)) (retS newCf))) (\<lambda>newOf.
       seqS (writeRegister X 1 (REG_OF X) (retS newOf))
       (double_shift_end X n a shiftCount output))))))))))))))"

definition x86_shrd_case :: "('s, 'v) x86sem \<Rightarrow> x86_insn \<Rightarrow> ('s, unit) sem" where
  "x86_shrd_case X insn =
     bindS (operand insn 2) (\<lambda>c.
     bindS (extractV X 0 5 8 (read8 X c)) (\<lambda>shiftCount.
     bindS (operand insn 0) (\<lambda>a. switch24 a (\<lambda>n.
       if n = 16 then
         bindS (operand insn 1) (\<lambda>b.
         bindS (shift_semantics X 16 5 x86_shrd (read16 X a) (read16 X b) (read8 X c)) (\<lambda>output.
           write16 X a (retS output)))
       else
         bindS (read32 X a) (\<lambda>op1.
         bindS (bindS (operand insn 1) (read32 X)) (\<lambda>op2.
         bindS (shiftRightV X 32 5 (retS op1) (retS shiftCount)) (\<lambda>output1.
         bindS (iteV X 32 (equalToZero X 5 (retS shiftCount)) (numberV X 32 0)
                  (shiftLeftV X 32 5 (retS op2) (negateV X 5 (retS shiftCount)))) (\<lambda>output2.
         bindS (orV X 32 (retS output1) (retS output2)) (\<lambda>output.
         bindS (flag_unless_zero X (REG_CF X) shiftCount
                  (extractV X 0 1 32
                     (shiftRightV X 32 5 (retS op1) (addV X 5 (retS shiftCount) (numberV X 5 31))))) (\<lambda>newCf.
         seqS (writeRegister X 1 (REG_CF X) (retS newCf))
         (bindS (flag_unless_zero X (REG_OF X) shiftCount
                  (xorV X 1 (extractV X 31 32 32 (retS output)) (extractV X 31 32 32 (retS op1)))) (\<lambda>newOf.
         seqS (writeRegister X 1 (REG_OF X) (retS newOf))
         (double_shift_end X 32 a shiftCount output)))))))))))))"

section \<open>Bit scans and bit tests\<close>

definition scan_flags :: "('s, 'v) x86sem \<Rightarrow> ('s, unit) sem" where
  "scan_flags X =
     blockS
       [undefine X (REG_OF X), undefine X (REG_SF X), undefine X (REG_AF X), undefine X (REG_PF X),
        undefine X (REG_CF X)]"

definition x86_bsf_case :: "('s, 'v) x86sem \<Rightarrow> x86_insn \<Rightarrow> ('s, unit) sem" where
  "x86_bsf_case X insn =
     seqS (scan_flags X)
     (bindS (operand insn 0) (\<lambda>a. switch24 a (\<lambda>n.
       bindS (bindS (operand insn 1) (read_expr X n)) (\<lambda>opnd.
       seqS (writeRegister X 1 (REG_ZF X) (equalToZero X n (retS opnd)))
       (bindS (iteV X n (readRegister X 1 (REG_ZF X)) (read_expr X n a) (lift1 (p_leastSignificantSetBit X n) (retS opnd)))
         (\<lambda>result. write_expr X n a (retS result)))))))"

definition x86_bsr_case :: "('s, 'v) x86sem \<Rightarrow> x86_insn \<Rightarrow> ('s, unit) sem" where
  "x86_bsr_case X insn =
     seqS (scan_flags X)
     (bindS (operand insn 0) (\<lambda>a. switch24 a (\<lambda>n.
       bindS (bindS (operand insn 1) (read_expr X n)) (\<lambda>opnd.
       seqS (writeRegister X 1 (REG_ZF X) (equalToZero X n (retS opnd)))
       (bindS (iteV X n (readRegister X 1 (REG_ZF X)) (read_expr X n a) (lift1 (p_mostSignificantSetBit X n) (retS opnd)))
         (\<lambda>result. write_expr X n a (retS result)))))))"

definition bit_test_flags :: "('s, 'v) x86sem \<Rightarrow> ('s, unit) sem" where
  "bit_test_flags X =
     blockS
       [undefine X (REG_OF X), undefine X (REG_SF X), undefine X (REG_ZF X), undefine X (REG_AF X),
        undefine X (REG_PF X)]"

text \<open>
  The bit tests share their two shapes: a bit string in memory addressed by a register, one byte of
  which is read (and, when \<open>update\<close> gives a new value, written back), and the simple case of an operand
  of 16 or 32 bits. \<open>update n v k\<close> computes the new value from the old value and the bit number, of \<open>j\<close> bits.
\<close>

definition bit_test_memory ::
  "('s, 'v) x86sem \<Rightarrow> asm_expr \<Rightarrow> asm_expr \<Rightarrow> (nat \<Rightarrow> nat \<Rightarrow> 'v \<Rightarrow> 'v \<Rightarrow> ('s, 'v) sem) option \<Rightarrow> ('s, unit) sem" where
  "bit_test_memory X a b update =
     bindS (readEffectiveAddress X a) (\<lambda>addr.
     bindS (operand_bytes b) (\<lambda>numBytes.
     bindS (if numBytes = 2 then signExtendV X 16 32 (read16 X b) else read32 X b) (\<lambda>bitnum.
     bindS (addV X 32 (retS addr) (signExtendV X 29 32 (extractV X 3 32 32 (retS bitnum)))) (\<lambda>adjustedAddr.
     bindS (case a of MemRef _ seg _ \<Rightarrow> ofOption (Abort ''Bad segment expr'') (getSegregFromMemoryReference seg)
                    | _ \<Rightarrow> failS (Abort ''Bad segment expr'')) (\<lambda>segreg.
     bindS (readMemory X 8 segreg (retS adjustedAddr) (trueV X)) (\<lambda>val.
     bindS (extractV X 0 1 8 (rotateRightV X 8 3 (retS val) (extractV X 0 3 32 (retS bitnum)))) (\<lambda>bitval.
     case update of
       None \<Rightarrow> writeRegister X 1 (REG_CF X) (retS bitval)
     | Some f \<Rightarrow>
         bindS (bindS (extractV X 0 3 32 (retS bitnum)) (f 8 3 val)) (\<lambda>result.
         seqS (writeRegister X 1 (REG_CF X) (retS bitval))
         (writeMemory X 8 segreg (retS adjustedAddr) (retS result) (trueV X))))))))))"

definition bit_test_simple ::
  "('s, 'v) x86sem \<Rightarrow> asm_expr \<Rightarrow> asm_expr \<Rightarrow> (nat \<Rightarrow> nat \<Rightarrow> 'v \<Rightarrow> 'v \<Rightarrow> ('s, 'v) sem) option \<Rightarrow> ('s, unit) sem" where
  "bit_test_simple X a b update =
     switch24 a (\<lambda>n. let j = (if n = 16 then 4 else 5) in
       bindS (read_expr X n a) (\<lambda>op0.
       bindS (extractV X 0 j n (read_expr X n b)) (\<lambda>bitnum.
       bindS (extractV X 0 1 n (rotateRightV X n j (retS op0) (retS bitnum))) (\<lambda>bitval.
       case update of
         None \<Rightarrow> writeRegister X 1 (REG_CF X) (retS bitval)
       | Some f \<Rightarrow>
           bindS (f n j op0 bitnum) (\<lambda>result.
           seqS (writeRegister X 1 (REG_CF X) (retS bitval))
           (write_expr X n a (retS result)))))))"

definition bit_test ::
  "('s, 'v) x86sem \<Rightarrow> (nat \<Rightarrow> nat \<Rightarrow> 'v \<Rightarrow> 'v \<Rightarrow> ('s, 'v) sem) option \<Rightarrow> x86_insn \<Rightarrow> ('s, unit) sem" where
  "bit_test X update insn =
     operands2 insn (\<lambda>a b.
       seqS (bit_test_flags X)
       (case (a, b) of
          (MemRef _ _ _, RegRef _ _) \<Rightarrow> bit_test_memory X a b update
        | _ \<Rightarrow> bit_test_simple X a b update))"

definition x86_bt_case :: "('s, 'v) x86sem \<Rightarrow> x86_insn \<Rightarrow> ('s, unit) sem" where
  "x86_bt_case X insn = bit_test X None insn"

definition x86_btr_case :: "('s, 'v) x86sem \<Rightarrow> x86_insn \<Rightarrow> ('s, unit) sem" where
  "x86_btr_case X insn =
     bit_test X (Some (\<lambda>n j v k. andV X n (retS v) (invertV X n (rotateLeftV X n j (numberV X n 1) (retS k))))) insn"

definition x86_bts_case :: "('s, 'v) x86sem \<Rightarrow> x86_insn \<Rightarrow> ('s, unit) sem" where
  "x86_bts_case X insn =
     bit_test X (Some (\<lambda>n j v k. orV X n (retS v) (rotateLeftV X n j (numberV X n 1) (retS k)))) insn"

end
