(* ===== verification/X86Arith.thy ===== *)
theory X86Arith
  imports X86Data
begin

text \<open>
  The arithmetic, stack, control-flow, flag, string and system cases of \<open>X86InstructionSemantics::translate\<close>,
  in the order of the source.
\<close>

section \<open>Addition and subtraction\<close>

definition x86_xadd_case :: "('s, 'v) x86sem \<Rightarrow> x86_insn \<Rightarrow> ('s, unit) sem" where
  "x86_xadd_case X insn =
     operands2 insn (\<lambda>a b. switch124 a (\<lambda>n.
       bindS (doAddOperation X n (read_expr X n a) (read_expr X n b) False (falseV X)) (\<lambda>result.
       seqS (write_expr X n b (read_expr X n a))
       (write_expr X n a (retS result)))))"

definition x86_add_case :: "('s, 'v) x86sem \<Rightarrow> x86_insn \<Rightarrow> ('s, unit) sem" where
  "x86_add_case X insn =
     operands2 insn (\<lambda>a b. switch124 a (\<lambda>n.
       bindS (doAddOperation X n (read_expr X n a) (read_expr X n b) False (falseV X)) (\<lambda>result.
       write_expr X n a (retS result))))"

definition x86_adc_case :: "('s, 'v) x86sem \<Rightarrow> x86_insn \<Rightarrow> ('s, unit) sem" where
  "x86_adc_case X insn =
     operands2 insn (\<lambda>a b. switch124 a (\<lambda>n.
       bindS (doAddOperation X n (read_expr X n a) (read_expr X n b) False (readRegister X 1 (REG_CF X))) (\<lambda>result.
       write_expr X n a (retS result))))"

definition x86_sub_case :: "('s, 'v) x86sem \<Rightarrow> x86_insn \<Rightarrow> ('s, unit) sem" where
  "x86_sub_case X insn =
     operands2 insn (\<lambda>a b. switch124 a (\<lambda>n.
       bindS (doAddOperation X n (read_expr X n a) (invertV X n (read_expr X n b)) True (falseV X)) (\<lambda>result.
       write_expr X n a (retS result))))"

definition x86_sbb_case :: "('s, 'v) x86sem \<Rightarrow> x86_insn \<Rightarrow> ('s, unit) sem" where
  "x86_sbb_case X insn =
     operands2 insn (\<lambda>a b. switch124 a (\<lambda>n.
       bindS (doAddOperation X n (read_expr X n a) (invertV X n (read_expr X n b)) True
                (readRegister X 1 (REG_CF X))) (\<lambda>result.
       write_expr X n a (retS result))))"

definition x86_cmp_case :: "('s, 'v) x86sem \<Rightarrow> x86_insn \<Rightarrow> ('s, unit) sem" where
  "x86_cmp_case X insn =
     operands2 insn (\<lambda>a b. switch124 a (\<lambda>n.
       dropS (doAddOperation X n (read_expr X n a) (invertV X n (read_expr X n b)) True (falseV X))))"

definition x86_neg_case :: "('s, 'v) x86sem \<Rightarrow> x86_insn \<Rightarrow> ('s, unit) sem" where
  "x86_neg_case X insn =
     operands1 insn (\<lambda>a. switch124 a (\<lambda>n.
       bindS (doAddOperation X n (numberV X n 0) (invertV X n (read_expr X n a)) True (falseV X)) (\<lambda>result.
       write_expr X n a (retS result))))"

definition x86_inc_case :: "('s, 'v) x86sem \<Rightarrow> x86_insn \<Rightarrow> ('s, unit) sem" where
  "x86_inc_case X insn =
     operands1 insn (\<lambda>a. switch124 a (\<lambda>n.
       bindS (doIncOperation X n (read_expr X n a) False False) (\<lambda>result. write_expr X n a (retS result))))"

definition x86_dec_case :: "('s, 'v) x86sem \<Rightarrow> x86_insn \<Rightarrow> ('s, unit) sem" where
  "x86_dec_case X insn =
     operands1 insn (\<lambda>a. switch124 a (\<lambda>n.
       bindS (doIncOperation X n (read_expr X n a) True False) (\<lambda>result. write_expr X n a (retS result))))"

text \<open>The accumulator of each width.\<close>

definition accumulator :: "('s, 'v) x86sem \<Rightarrow> nat \<Rightarrow> RegisterDescriptor" where
  "accumulator X n = (if n = 8 then REG_AL X else if n = 16 then REG_AX X else REG_EAX X)"

definition x86_cmpxchg_case :: "('s, 'v) x86sem \<Rightarrow> x86_insn \<Rightarrow> ('s, unit) sem" where
  "x86_cmpxchg_case X insn =
     operands2 insn (\<lambda>a b. switch124 a (\<lambda>n.
       bindS (read_expr X n a) (\<lambda>op0.
       bindS (readRegister X n (accumulator X n)) (\<lambda>oldAx.
       blockS
         [dropS (doAddOperation X n (retS oldAx) (invertV X n (retS op0)) True (falseV X)),
          write_expr X n a (iteV X n (readRegister X 1 (REG_ZF X)) (read_expr X n b) (retS op0)),
          writeRegister X n (accumulator X n) (iteV X n (readRegister X 1 (REG_ZF X)) (retS oldAx) (retS op0))]))))"

section \<open>Multiplication and division\<close>

definition mul_flags :: "('s, 'v) x86sem \<Rightarrow> ('s, unit) sem" where
  "mul_flags X =
     blockS [undefine X (REG_SF X), undefine X (REG_ZF X), undefine X (REG_AF X), undefine X (REG_PF X)]"

text \<open>The registers of the high half of a double-width result.\<close>

definition high_register :: "('s, 'v) x86sem \<Rightarrow> nat \<Rightarrow> RegisterDescriptor" where
  "high_register X n = (if n = 16 then REG_DX X else REG_EDX X)"

text \<open>For every width the carry is computed from bit 7 upwards.\<close>

definition imul_carry :: "('s, 'v) x86sem \<Rightarrow> nat \<Rightarrow> 'v \<Rightarrow> ('s, 'v) sem" where
  "imul_carry X n mulResult =
     invertV X 1
       (orV X 1 (equalToZero X (2 * n - 7) (invertV X (2 * n - 7) (extractV X 7 (2 * n) (2 * n) (retS mulResult))))
          (equalToZero X (2 * n - 7) (extractV X 7 (2 * n) (2 * n) (retS mulResult))))"

definition x86_imul_case :: "('s, 'v) x86sem \<Rightarrow> x86_insn \<Rightarrow> ('s, unit) sem" where
  "x86_imul_case X insn =
     (let N = length (insn_operands insn) in
      bindS (operand insn 0) (\<lambda>a.
      seqS (switch124 a (\<lambda>n.
        if n = 8 then
          bindS (readRegister X 8 (REG_AL X)) (\<lambda>op0.
          bindS (read8 X a) (\<lambda>op1.
          bindS (signedMultiply X 8 8 (retS op0) (retS op1)) (\<lambda>mulResult.
          seqS (writeRegister X 16 (REG_AX X) (retS mulResult))
          (bindS (imul_carry X 8 mulResult) (\<lambda>carry.
          blockS [writeRegister X 1 (REG_CF X) (retS carry), writeRegister X 1 (REG_OF X) (retS carry)])))))
        else
          bindS (if N = 1 then readRegister X n (accumulator X n) else bindS (operand insn (N - 2)) (read_expr X n)) (\<lambda>op0.
          bindS (bindS (operand insn (N - 1)) (read_expr X n)) (\<lambda>op1.
          bindS (signedMultiply X n n (retS op0) (retS op1)) (\<lambda>mulResult.
          seqS (if N = 1
                then blockS
                  [writeRegister X n (accumulator X n) (extractV X 0 n (2 * n) (retS mulResult)),
                   writeRegister X n (high_register X n) (extractV X n (2 * n) (2 * n) (retS mulResult))]
                else write_expr X n a (extractV X 0 n (2 * n) (retS mulResult)))
          (bindS (imul_carry X n mulResult) (\<lambda>carry.
          blockS [writeRegister X 1 (REG_CF X) (retS carry), writeRegister X 1 (REG_OF X) (retS carry)])))))))
      (mul_flags X)))"

definition x86_mul_case :: "('s, 'v) x86sem \<Rightarrow> x86_insn \<Rightarrow> ('s, unit) sem" where
  "x86_mul_case X insn =
     bindS (operand insn 0) (\<lambda>a.
     seqS (switch124 a (\<lambda>n.
       bindS (readRegister X n (accumulator X n)) (\<lambda>op0.
       bindS (read_expr X n a) (\<lambda>op1.
       bindS (unsignedMultiply X n n (retS op0) (retS op1)) (\<lambda>mulResult.
       seqS (if n = 8
             then writeRegister X 16 (REG_AX X) (retS mulResult)
             else blockS
               [writeRegister X n (accumulator X n) (extractV X 0 n (2 * n) (retS mulResult)),
                writeRegister X n (high_register X n) (extractV X n (2 * n) (2 * n) (retS mulResult))])
       (bindS (invertV X 1 (equalToZero X n (extractV X n (2 * n) (2 * n) (retS mulResult)))) (\<lambda>carry.
       blockS [writeRegister X 1 (REG_CF X) (retS carry), writeRegister X 1 (REG_OF X) (retS carry)])))))))
     (mul_flags X))"

definition div_flags :: "('s, 'v) x86sem \<Rightarrow> ('s, unit) sem" where
  "div_flags X = blockS [mul_flags X, undefine X (REG_CF X), undefine X (REG_OF X)]"

text \<open>The dividend: \<open>ax\<close>, \<open>dx:ax\<close> or \<open>edx:eax\<close>.\<close>

definition dividend :: "('s, 'v) x86sem \<Rightarrow> nat \<Rightarrow> ('s, 'v) sem" where
  "dividend X n =
     (if n = 8 then readRegister X 16 (REG_AX X)
      else concatV X n n (readRegister X n (accumulator X n)) (readRegister X n (high_register X n)))"

definition store_quotient :: "('s, 'v) x86sem \<Rightarrow> nat \<Rightarrow> 'v \<Rightarrow> 'v \<Rightarrow> ('s, unit) sem" where
  "store_quotient X n divResult modResult =
     (if n = 8
      then writeRegister X 16 (REG_AX X) (concatV X 8 8 (extractV X 0 8 16 (retS divResult)) (retS modResult))
      else blockS
        [writeRegister X n (accumulator X n) (extractV X 0 n (2 * n) (retS divResult)),
         writeRegister X n (high_register X n) (retS modResult)])"

definition x86_idiv_case :: "('s, 'v) x86sem \<Rightarrow> x86_insn \<Rightarrow> ('s, unit) sem" where
  "x86_idiv_case X insn =
     bindS (operand insn 0) (\<lambda>a.
     seqS (switch124 a (\<lambda>n.
       bindS (dividend X n) (\<lambda>op0.
       bindS (read_expr X n a) (\<lambda>op1.
       bindS (signedDivide X (2 * n) n (retS op0) (retS op1)) (\<lambda>divResult.
       bindS (signedModulo X (2 * n) n (retS op0) (retS op1)) (\<lambda>modResult.
       store_quotient X n divResult modResult))))))
     (div_flags X))"

definition x86_div_case :: "('s, 'v) x86sem \<Rightarrow> x86_insn \<Rightarrow> ('s, unit) sem" where
  "x86_div_case X insn =
     bindS (operand insn 0) (\<lambda>a.
     seqS (switch124 a (\<lambda>n.
       bindS (dividend X n) (\<lambda>op0.
       bindS (read_expr X n a) (\<lambda>op1.
       bindS (unsignedDivide X (2 * n) n (retS op0) (retS op1)) (\<lambda>divResult.
       bindS (unsignedModulo X (2 * n) n (retS op0) (retS op1)) (\<lambda>modResult.
       store_quotient X n divResult modResult))))))
     (div_flags X))"

section \<open>Decimal adjustment\<close>

definition x86_aaa_case :: "('s, 'v) x86sem \<Rightarrow> x86_insn \<Rightarrow> ('s, unit) sem" where
  "x86_aaa_case X insn =
     operands0 insn
       (bindS (orV X 1 (readRegister X 1 (REG_AF X))
                 (greaterOrEqualToTen X 4 (extractV X 0 4 8 (readRegister X 8 (REG_AL X))))) (\<lambda>incAh.
        blockS
          [writeRegister X 16 (REG_AX X)
             (concatV X 4 12
                (addV X 4 (iteV X 4 (retS incAh) (numberV X 4 6) (numberV X 4 0))
                   (extractV X 0 4 8 (readRegister X 8 (REG_AL X))))
                (concatV X 4 8 (numberV X 4 0)
                   (addV X 8 (iteV X 8 (retS incAh) (numberV X 8 1) (numberV X 8 0)) (readRegister X 8 (REG_AH X))))),
           undefine X (REG_OF X), undefine X (REG_SF X), undefine X (REG_ZF X), undefine X (REG_PF X),
           writeRegister X 1 (REG_AF X) (retS incAh),
           writeRegister X 1 (REG_CF X) (retS incAh)]))"

definition x86_aas_case :: "('s, 'v) x86sem \<Rightarrow> x86_insn \<Rightarrow> ('s, unit) sem" where
  "x86_aas_case X insn =
     operands0 insn
       (bindS (orV X 1 (readRegister X 1 (REG_AF X))
                 (greaterOrEqualToTen X 4 (extractV X 0 4 8 (readRegister X 8 (REG_AL X))))) (\<lambda>decAh.
        blockS
          [writeRegister X 16 (REG_AX X)
             (concatV X 4 12
                (addV X 4 (iteV X 4 (retS decAh) (numberV X 4 (- 6)) (numberV X 4 0))
                   (extractV X 0 4 8 (readRegister X 8 (REG_AL X))))
                (concatV X 4 8 (numberV X 4 0)
                   (addV X 8 (iteV X 8 (retS decAh) (numberV X 8 (- 1)) (numberV X 8 0)) (readRegister X 8 (REG_AH X))))),
           undefine X (REG_OF X), undefine X (REG_SF X), undefine X (REG_ZF X), undefine X (REG_PF X),
           writeRegister X 1 (REG_AF X) (retS decAh),
           writeRegister X 1 (REG_CF X) (retS decAh)]))"

definition x86_aam_case :: "('s, 'v) x86sem \<Rightarrow> x86_insn \<Rightarrow> ('s, unit) sem" where
  "x86_aam_case X insn =
     operands1 insn (\<lambda>a.
       bindS (readRegister X 8 (REG_AL X)) (\<lambda>al.
       bindS (read8 X a) (\<lambda>divisor.
       bindS (unsignedDivide X 8 8 (retS al) (retS divisor)) (\<lambda>newAh.
       bindS (unsignedModulo X 8 8 (retS al) (retS divisor)) (\<lambda>newAl.
       blockS
         [writeRegister X 16 (REG_AX X) (concatV X 8 8 (retS newAl) (retS newAh)),
          undefine X (REG_OF X), undefine X (REG_AF X), undefine X (REG_CF X),
          setFlagsForResult X 8 newAl])))))"

definition x86_aad_case :: "('s, 'v) x86sem \<Rightarrow> x86_insn \<Rightarrow> ('s, unit) sem" where
  "x86_aad_case X insn =
     operands1 insn (\<lambda>a.
       bindS (readRegister X 8 (REG_AL X)) (\<lambda>al.
       bindS (readRegister X 8 (REG_AH X)) (\<lambda>ah.
       bindS (read8 X a) (\<lambda>divisor.
       bindS (addV X 8 (retS al) (extractV X 0 8 16 (unsignedMultiply X 8 8 (retS ah) (retS divisor)))) (\<lambda>newAl.
       blockS
         [writeRegister X 16 (REG_AX X) (concatV X 8 8 (retS newAl) (numberV X 8 0)),
          undefine X (REG_OF X), undefine X (REG_AF X), undefine X (REG_CF X),
          setFlagsForResult X 8 newAl])))))"

definition x86_bswap_case :: "('s, 'v) x86sem \<Rightarrow> x86_insn \<Rightarrow> ('s, unit) sem" where
  "x86_bswap_case X insn =
     operands1 insn (\<lambda>a.
       bindS (read32 X a) (\<lambda>oldVal.
       bindS (concatV X 8 24 (extractV X 24 32 32 (retS oldVal))
                (concatV X 8 16 (extractV X 16 24 32 (retS oldVal))
                   (concatV X 8 8 (extractV X 8 16 32 (retS oldVal)) (extractV X 0 8 32 (retS oldVal))))) (\<lambda>newVal.
       write32 X a (retS newVal))))"

section \<open>The stack\<close>

definition x86_push_case :: "('s, 'v) x86sem \<Rightarrow> x86_insn \<Rightarrow> ('s, unit) sem" where
  "x86_push_case X insn =
     operands1 insn (\<lambda>a.
       if \<not> sizes32 insn then size_not_implemented
       else
         bindS (readRegister X 32 (REG_ESP X)) (\<lambda>oldSp.
         bindS (addV X 32 (retS oldSp) (numberV X 32 (- 4))) (\<lambda>newSp.
         blockS
           [writeMemory X 32 x86_segreg_ss (retS newSp) (read32 X a) (trueV X),
            writeRegister X 32 (REG_ESP X) (retS newSp)])))"

text \<open>A store at a distance from the new stack pointer, and a load at a distance from the old one.\<close>

definition stack_store :: "('s, 'v) x86sem \<Rightarrow> 'v \<Rightarrow> u64 \<Rightarrow> ('s, 'v) sem \<Rightarrow> ('s, unit) sem" where
  "stack_store X newSp d value = writeMemory X 32 x86_segreg_ss (addV X 32 (retS newSp) (numberV X 32 d)) value (trueV X)"

definition stack_load :: "('s, 'v) x86sem \<Rightarrow> 'v \<Rightarrow> u64 \<Rightarrow> ('s, 'v) sem" where
  "stack_load X oldSp d = readMemory X 32 x86_segreg_ss (addV X 32 (retS oldSp) (numberV X 32 d)) (trueV X)"

definition x86_pushad_case :: "('s, 'v) x86sem \<Rightarrow> x86_insn \<Rightarrow> ('s, unit) sem" where
  "x86_pushad_case X insn =
     operands0 insn
       (if insn_addressSize insn \<noteq> insnsize_32 then size_not_implemented
        else
          bindS (readRegister X 32 (REG_ESP X)) (\<lambda>oldSp.
          bindS (addV X 32 (retS oldSp) (numberV X 32 (- 32))) (\<lambda>newSp.
          blockS
            [writeMemory X 32 x86_segreg_ss (retS newSp) (readRegister X 32 (REG_EDI X)) (trueV X),
             stack_store X newSp 4 (readRegister X 32 (REG_ESI X)),
             stack_store X newSp 8 (readRegister X 32 (REG_EBP X)),
             stack_store X newSp 12 (retS oldSp),
             stack_store X newSp 16 (readRegister X 32 (REG_EBX X)),
             stack_store X newSp 20 (readRegister X 32 (REG_EDX X)),
             stack_store X newSp 24 (readRegister X 32 (REG_ECX X)),
             stack_store X newSp 28 (readRegister X 32 (REG_EAX X)),
             writeRegister X 32 (REG_ESP X) (retS newSp)])))"

definition x86_pushfd_case :: "('s, 'v) x86sem \<Rightarrow> x86_insn \<Rightarrow> ('s, unit) sem" where
  "x86_pushfd_case X insn =
     operands0 insn
       (if insn_addressSize insn \<noteq> insnsize_32 then size_not_implemented
        else
          bindS (readRegister X 32 (REG_ESP X)) (\<lambda>oldSp.
          bindS (addV X 32 (retS oldSp) (numberV X 32 (- 4))) (\<lambda>newSp.
          blockS
            [writeMemory X 32 x86_segreg_ss (retS newSp) (readRegister X 32 (REG_EFLAGS X)) (trueV X),
             writeRegister X 32 (REG_ESP X) (retS newSp)])))"

definition x86_pop_case :: "('s, 'v) x86sem \<Rightarrow> x86_insn \<Rightarrow> ('s, unit) sem" where
  "x86_pop_case X insn =
     operands1 insn (\<lambda>a.
       if \<not> sizes32 insn then size_not_implemented
       else
         bindS (readRegister X 32 (REG_ESP X)) (\<lambda>oldSp.
         bindS (addV X 32 (retS oldSp) (numberV X 32 4)) (\<lambda>newSp.
         blockS
           [writeRegister X 32 (REG_ESP X) (retS newSp),
            write32 X a (readMemory X 32 x86_segreg_ss (retS oldSp) (trueV X))])))"

definition x86_popad_case :: "('s, 'v) x86sem \<Rightarrow> x86_insn \<Rightarrow> ('s, unit) sem" where
  "x86_popad_case X insn =
     operands0 insn
       (if insn_addressSize insn \<noteq> insnsize_32 then size_not_implemented
        else
          bindS (readRegister X 32 (REG_ESP X)) (\<lambda>oldSp.
          bindS (addV X 32 (retS oldSp) (numberV X 32 32)) (\<lambda>newSp.
          blockS
            [writeRegister X 32 (REG_EDI X) (readMemory X 32 x86_segreg_ss (retS oldSp) (trueV X)),
             writeRegister X 32 (REG_ESI X) (stack_load X oldSp 4),
             writeRegister X 32 (REG_EBP X) (stack_load X oldSp 8),
             writeRegister X 32 (REG_EBX X) (stack_load X oldSp 16),
             writeRegister X 32 (REG_EDX X) (stack_load X oldSp 20),
             writeRegister X 32 (REG_ECX X) (stack_load X oldSp 24),
             writeRegister X 32 (REG_EAX X) (stack_load X oldSp 28),
             dropS (stack_load X oldSp 12),
             writeRegister X 32 (REG_ESP X) (retS newSp)])))"

text \<open>The sizes are checked only after \<open>esp\<close> has been written.\<close>

definition x86_leave_case :: "('s, 'v) x86sem \<Rightarrow> x86_insn \<Rightarrow> ('s, unit) sem" where
  "x86_leave_case X insn =
     operands0 insn
       (seqS (writeRegister X 32 (REG_ESP X) (readRegister X 32 (REG_EBP X)))
        (if \<not> sizes32 insn then size_not_implemented
         else
           bindS (readRegister X 32 (REG_ESP X)) (\<lambda>oldSp.
           bindS (addV X 32 (retS oldSp) (numberV X 32 4)) (\<lambda>newSp.
           blockS
             [writeRegister X 32 (REG_EBP X) (readMemory X 32 x86_segreg_ss (retS oldSp) (trueV X)),
              writeRegister X 32 (REG_ESP X) (retS newSp)]))))"

definition x86_call_case :: "('s, 'v) x86sem \<Rightarrow> x86_insn \<Rightarrow> ('s, unit) sem" where
  "x86_call_case X insn =
     operands1 insn (\<lambda>a.
       if \<not> sizes32 insn then size_not_implemented
       else
         bindS (readRegister X 32 (REG_ESP X)) (\<lambda>oldSp.
         bindS (addV X 32 (retS oldSp) (numberV X 32 (- 4))) (\<lambda>newSp.
         blockS
           [writeMemory X 32 x86_segreg_ss (retS newSp) (readRegister X 32 (REG_EIP X)) (trueV X),
            writeRegister X 32 (REG_EIP X) (lift1 (p_filterCallTarget X) (read32 X a)),
            writeRegister X 32 (REG_ESP X) (retS newSp)])))"

definition x86_ret_case :: "('s, 'v) x86sem \<Rightarrow> x86_insn \<Rightarrow> ('s, unit) sem" where
  "x86_ret_case X insn =
     (if length (insn_operands insn) > 1
      then failS (X86Exception ''instruction must have zero or one operand'')
      else if \<not> sizes32 insn then size_not_implemented
      else
        bindS (if length (insn_operands insn) = 1 then read32 X (insn_operands insn ! 0) else numberV X 32 0) (\<lambda>extraBytes.
        bindS (readRegister X 32 (REG_ESP X)) (\<lambda>oldSp.
        bindS (addV X 32 (retS oldSp) (addV X 32 (numberV X 32 4) (retS extraBytes))) (\<lambda>newSp.
        blockS
          [writeRegister X 32 (REG_EIP X)
             (lift1 (p_filterReturnTarget X) (readMemory X 32 x86_segreg_ss (retS oldSp) (trueV X))),
           writeRegister X 32 (REG_ESP X) (retS newSp)]))))"

end
