(* ===== verification/X86Semantics.thy ===== *)
theory X86Semantics
  imports X86Arith
begin

text \<open>
  The control-flow, flag, string and system cases of \<open>translate\<close>, \<open>translate\<close> itself, and the functions that
  run it: \<open>processInstruction\<close> and the two \<open>processBlock\<close>s. A basic block is cut into pieces at the repeated
  string instructions and after \<open>hlt\<close> and \<open>int\<close>; the last section shows what the pieces are.
\<close>

section \<open>Loops and jumps\<close>

text \<open>\<open>loop\<close>, \<open>loopz\<close> and \<open>loopnz\<close> differ in the condition computed from the new count.\<close>

definition loop_with :: "('s, 'v) x86sem \<Rightarrow> ('v \<Rightarrow> ('s, 'v) sem) \<Rightarrow> x86_insn \<Rightarrow> ('s, unit) sem" where
  "loop_with X again insn =
     operands1 insn (\<lambda>a.
       if \<not> sizes32 insn then size_not_implemented
       else
         bindS (readRegister X 32 (REG_ECX X)) (\<lambda>oldCx.
         bindS (addV X 32 (numberV X 32 (- 1)) (retS oldCx)) (\<lambda>newCx.
         seqS (writeRegister X 32 (REG_ECX X) (retS newCx))
         (bindS (again newCx) (\<lambda>doLoop.
           writeRegister X 32 (REG_EIP X) (iteV X 32 (retS doLoop) (read32 X a) (readRegister X 32 (REG_EIP X))))))))"

definition x86_loop_case :: "('s, 'v) x86sem \<Rightarrow> x86_insn \<Rightarrow> ('s, unit) sem" where
  "x86_loop_case X insn = loop_with X (\<lambda>newCx. invertV X 1 (equalToZero X 32 (retS newCx))) insn"

definition x86_loopz_case :: "('s, 'v) x86sem \<Rightarrow> x86_insn \<Rightarrow> ('s, unit) sem" where
  "x86_loopz_case X insn =
     loop_with X (\<lambda>newCx. andV X 1 (invertV X 1 (equalToZero X 32 (retS newCx))) (readRegister X 1 (REG_ZF X))) insn"

definition x86_loopnz_case :: "('s, 'v) x86sem \<Rightarrow> x86_insn \<Rightarrow> ('s, unit) sem" where
  "x86_loopnz_case X insn =
     loop_with X (\<lambda>newCx. andV X 1 (invertV X 1 (equalToZero X 32 (retS newCx)))
                             (invertV X 1 (readRegister X 1 (REG_ZF X)))) insn"

definition x86_jmp_case :: "('s, 'v) x86sem \<Rightarrow> x86_insn \<Rightarrow> ('s, unit) sem" where
  "x86_jmp_case X insn =
     operands1 insn (\<lambda>a. writeRegister X 32 (REG_EIP X) (lift1 (p_filterIndirectJumpTarget X) (read32 X a)))"

text \<open>The macros \<open>FLAGCOMBO_*\<close>.\<close>

fun FLAGCOMBO :: "('s, 'v) x86sem \<Rightarrow> x86_cc \<Rightarrow> ('s, 'v) sem" where
  "FLAGCOMBO X cc_ne = invertV X 1 (readRegister X 1 (REG_ZF X))"
| "FLAGCOMBO X cc_e = readRegister X 1 (REG_ZF X)"
| "FLAGCOMBO X cc_no = invertV X 1 (readRegister X 1 (REG_OF X))"
| "FLAGCOMBO X cc_o = readRegister X 1 (REG_OF X)"
| "FLAGCOMBO X cc_ns = invertV X 1 (readRegister X 1 (REG_SF X))"
| "FLAGCOMBO X cc_s = readRegister X 1 (REG_SF X)"
| "FLAGCOMBO X cc_po = invertV X 1 (readRegister X 1 (REG_PF X))"
| "FLAGCOMBO X cc_pe = readRegister X 1 (REG_PF X)"
| "FLAGCOMBO X cc_ae = invertV X 1 (readRegister X 1 (REG_CF X))"
| "FLAGCOMBO X cc_b = readRegister X 1 (REG_CF X)"
| "FLAGCOMBO X cc_be = orV X 1 (readRegister X 1 (REG_CF X)) (readRegister X 1 (REG_ZF X))"
| "FLAGCOMBO X cc_a =
     andV X 1 (invertV X 1 (readRegister X 1 (REG_CF X))) (invertV X 1 (readRegister X 1 (REG_ZF X)))"
| "FLAGCOMBO X cc_l = xorV X 1 (readRegister X 1 (REG_SF X)) (readRegister X 1 (REG_OF X))"
| "FLAGCOMBO X cc_ge = invertV X 1 (xorV X 1 (readRegister X 1 (REG_SF X)) (readRegister X 1 (REG_OF X)))"
| "FLAGCOMBO X cc_le =
     orV X 1 (readRegister X 1 (REG_ZF X)) (xorV X 1 (readRegister X 1 (REG_SF X)) (readRegister X 1 (REG_OF X)))"
| "FLAGCOMBO X cc_g =
     andV X 1 (invertV X 1 (xorV X 1 (readRegister X 1 (REG_SF X)) (readRegister X 1 (REG_OF X))))
       (invertV X 1 (readRegister X 1 (REG_ZF X)))"

definition FLAGCOMBO_cxz :: "('s, 'v) x86sem \<Rightarrow> ('s, 'v) sem" where
  "FLAGCOMBO_cxz X = equalToZero X 16 (readRegister X 16 (REG_CX X))"

definition FLAGCOMBO_ecxz :: "('s, 'v) x86sem \<Rightarrow> ('s, 'v) sem" where
  "FLAGCOMBO_ecxz X = equalToZero X 32 (readRegister X 32 (REG_ECX X))"

definition JUMP :: "('s, 'v) x86sem \<Rightarrow> ('s, 'v) sem \<Rightarrow> x86_insn \<Rightarrow> ('s, unit) sem" where
  "JUMP X cond insn =
     operands1 insn (\<lambda>a.
       writeRegister X 32 (REG_EIP X) (iteV X 32 cond (read32 X a) (readRegister X 32 (REG_EIP X))))"

definition SET :: "('s, 'v) x86sem \<Rightarrow> ('s, 'v) sem \<Rightarrow> x86_insn \<Rightarrow> ('s, unit) sem" where
  "SET X cond insn = operands1 insn (\<lambda>a. write8 X a (concatV X 1 7 cond (numberV X 7 0)))"

definition CMOV :: "('s, 'v) x86sem \<Rightarrow> ('s, 'v) sem \<Rightarrow> x86_insn \<Rightarrow> ('s, unit) sem" where
  "CMOV X cond insn =
     operands2 insn (\<lambda>a b. switch24 a (\<lambda>n. write_expr X n a (iteV X n cond (read_expr X n b) (read_expr X n a))))"

section \<open>Flags, strings and system instructions\<close>

definition x86_flag_case :: "('s, 'v) x86sem \<Rightarrow> RegisterDescriptor \<Rightarrow> ('s, 'v) sem \<Rightarrow> x86_insn \<Rightarrow> ('s, unit) sem" where
  "x86_flag_case X flag value insn = operands0 insn (writeRegister X 1 flag value)"

definition instruction_not_implemented :: "('s, 'a) sem" where
  "instruction_not_implemented = failS (X86Exception ''instruction not implemented'')"

text \<open>\<open>None\<close> for the 64-bit string instructions, which have no case.\<close>

fun str_bytes :: "str_size \<Rightarrow> nat option" where
  "str_bytes size_b = Some 1"
| "str_bytes size_w = Some 2"
| "str_bytes size_d = Some 4"
| "str_bytes size_q = None"

text \<open>Only the combinations of prefix and operation that the source lists have a case.\<close>

definition x86_string_case ::
  "('s, 'v) x86sem \<Rightarrow> 'v \<Rightarrow> str_prefix \<Rightarrow> str_op \<Rightarrow> str_size \<Rightarrow> x86_insn \<Rightarrow> ('s, unit) sem" where
  "x86_string_case X orig_eip pre opr sz insn =
     (case str_bytes sz of
        None \<Rightarrow> instruction_not_implemented
      | Some N \<Rightarrow>
          (case (pre, opr) of
             (prefix_repne, op_scas) \<Rightarrow> repne_scas_semantics X N insn orig_eip
           | (prefix_repe, op_scas) \<Rightarrow> repe_scas_semantics X N insn orig_eip
           | (prefix_none, op_scas) \<Rightarrow> bindS (trueV X) (scas_semantics X N insn)
           | (prefix_repne, op_cmps) \<Rightarrow> repne_cmps_semantics X N insn orig_eip
           | (prefix_repe, op_cmps) \<Rightarrow> repe_cmps_semantics X N insn orig_eip
           | (prefix_none, op_cmps) \<Rightarrow>
               if sz = size_d \<and> insn_operands insn \<noteq> [] then instruction_not_implemented
               else bindS (trueV X) (cmps_semantics X N insn)
           | (prefix_none, op_movs) \<Rightarrow> bindS (trueV X) (movs_semantics X N insn)
           | (prefix_rep, op_movs) \<Rightarrow> rep_movs_semantics X N insn orig_eip
           | (prefix_none, op_stos) \<Rightarrow> bindS (trueV X) (stos_semantics X N insn)
           | (prefix_rep, op_stos) \<Rightarrow> rep_stos_semantics X N insn orig_eip
           | (prefix_none, op_lods) \<Rightarrow> lods_semantics X N insn
           | _ \<Rightarrow> instruction_not_implemented))"

definition x86_hlt_case :: "('s, 'v) x86sem \<Rightarrow> 'v \<Rightarrow> x86_insn \<Rightarrow> ('s, unit) sem" where
  "x86_hlt_case X orig_eip insn =
     operands0 insn (blockS [p_hlt X, writeRegister X 32 (REG_EIP X) (retS orig_eip)])"

definition x86_cpuid_case :: "('s, 'v) x86sem \<Rightarrow> x86_insn \<Rightarrow> ('s, unit) sem" where
  "x86_cpuid_case X insn = operands0 insn (p_cpuid X)"

definition x86_rdtsc_case :: "('s, 'v) x86sem \<Rightarrow> x86_insn \<Rightarrow> ('s, unit) sem" where
  "x86_rdtsc_case X insn =
     operands0 insn
       (bindS (p_rdtsc X) (\<lambda>tsc.
        blockS
          [writeRegister X 32 (REG_EAX X) (extractV X 0 32 64 (retS tsc)),
           writeRegister X 32 (REG_EDX X) (extractV X 32 64 64 (retS tsc))]))"

definition x86_int_case :: "('s, 'v) x86sem \<Rightarrow> x86_insn \<Rightarrow> ('s, unit) sem" where
  "x86_int_case X insn =
     operands1 insn (\<lambda>a.
       case a of
         ByteValue bv \<Rightarrow> p_interrupt X bv
       | _ \<Rightarrow> failS (X86Exception ''operand must be a byte value expression''))"

definition x86_fnstcw_case :: "('s, 'v) x86sem \<Rightarrow> x86_insn \<Rightarrow> ('s, unit) sem" where
  "x86_fnstcw_case X insn = operands1 insn (\<lambda>a. write16 X a (numberV X 16 0x37f))"

definition x86_fldcw_case :: "('s, 'v) x86sem \<Rightarrow> x86_insn \<Rightarrow> ('s, unit) sem" where
  "x86_fldcw_case X insn = operands1 insn (\<lambda>a. dropS (read16 X a))"

definition x86_sysenter_case :: "('s, 'v) x86sem \<Rightarrow> x86_insn \<Rightarrow> ('s, unit) sem" where
  "x86_sysenter_case X insn = operands0 insn (p_sysenter X)"

section \<open>\<open>translate\<close>\<close>

fun translate_data :: "('s, 'v) x86sem \<Rightarrow> data_kind \<Rightarrow> x86_insn \<Rightarrow> ('s, unit) sem" where
  "translate_data X x86_mov insn = x86_mov_case X insn"
| "translate_data X x86_xchg insn = x86_xchg_case X insn"
| "translate_data X x86_movzx insn = x86_movzx_case X insn"
| "translate_data X x86_movsx insn = x86_movsx_case X insn"
| "translate_data X x86_cbw insn = x86_cbw_case X insn"
| "translate_data X x86_cwde insn = x86_cwde_case X insn"
| "translate_data X x86_cwd insn = x86_cwd_case X insn"
| "translate_data X x86_cdq insn = x86_cdq_case X insn"
| "translate_data X x86_lea insn = x86_lea_case X insn"
| "translate_data X x86_bswap insn = x86_bswap_case X insn"
| "translate_data X x86_push insn = x86_push_case X insn"
| "translate_data X x86_pushad insn = x86_pushad_case X insn"
| "translate_data X x86_pushfd insn = x86_pushfd_case X insn"
| "translate_data X x86_pop insn = x86_pop_case X insn"
| "translate_data X x86_popad insn = x86_popad_case X insn"
| "translate_data X x86_leave insn = x86_leave_case X insn"
| "translate_data X (x86_set cc) insn = SET X (FLAGCOMBO X cc) insn"
| "translate_data X (x86_cmov cc) insn = CMOV X (FLAGCOMBO X cc) insn"

fun translate_logic :: "('s, 'v) x86sem \<Rightarrow> logic_kind \<Rightarrow> x86_insn \<Rightarrow> ('s, unit) sem" where
  "translate_logic X x86_and insn = x86_and_case X insn"
| "translate_logic X x86_or insn = x86_or_case X insn"
| "translate_logic X x86_test insn = x86_test_case X insn"
| "translate_logic X x86_xor insn = x86_xor_case X insn"
| "translate_logic X x86_not insn = x86_not_case X insn"
| "translate_logic X x86_shl insn = x86_shift_case X x86_shl insn"
| "translate_logic X x86_sar insn = x86_shift_case X x86_sar insn"
| "translate_logic X x86_shr insn = x86_shift_case X x86_shr insn"
| "translate_logic X x86_rol insn = x86_rol_case X insn"
| "translate_logic X x86_ror insn = x86_ror_case X insn"
| "translate_logic X x86_shld insn = x86_shld_case X insn"
| "translate_logic X x86_shrd insn = x86_shrd_case X insn"
| "translate_logic X x86_bsf insn = x86_bsf_case X insn"
| "translate_logic X x86_bsr insn = x86_bsr_case X insn"
| "translate_logic X x86_bt insn = x86_bt_case X insn"
| "translate_logic X x86_btr insn = x86_btr_case X insn"
| "translate_logic X x86_bts insn = x86_bts_case X insn"

fun translate_arith :: "('s, 'v) x86sem \<Rightarrow> arith_kind \<Rightarrow> x86_insn \<Rightarrow> ('s, unit) sem" where
  "translate_arith X x86_xadd insn = x86_xadd_case X insn"
| "translate_arith X x86_add insn = x86_add_case X insn"
| "translate_arith X x86_adc insn = x86_adc_case X insn"
| "translate_arith X x86_sub insn = x86_sub_case X insn"
| "translate_arith X x86_sbb insn = x86_sbb_case X insn"
| "translate_arith X x86_cmp insn = x86_cmp_case X insn"
| "translate_arith X x86_neg insn = x86_neg_case X insn"
| "translate_arith X x86_inc insn = x86_inc_case X insn"
| "translate_arith X x86_dec insn = x86_dec_case X insn"
| "translate_arith X x86_cmpxchg insn = x86_cmpxchg_case X insn"
| "translate_arith X x86_imul insn = x86_imul_case X insn"
| "translate_arith X x86_mul insn = x86_mul_case X insn"
| "translate_arith X x86_idiv insn = x86_idiv_case X insn"
| "translate_arith X x86_div insn = x86_div_case X insn"
| "translate_arith X x86_aaa insn = x86_aaa_case X insn"
| "translate_arith X x86_aas insn = x86_aas_case X insn"
| "translate_arith X x86_aam insn = x86_aam_case X insn"
| "translate_arith X x86_aad insn = x86_aad_case X insn"

fun translate_control :: "('s, 'v) x86sem \<Rightarrow> 'v \<Rightarrow> control_kind \<Rightarrow> x86_insn \<Rightarrow> ('s, unit) sem" where
  "translate_control X orig_eip x86_call insn = x86_call_case X insn"
| "translate_control X orig_eip x86_ret insn = x86_ret_case X insn"
| "translate_control X orig_eip x86_loop insn = x86_loop_case X insn"
| "translate_control X orig_eip x86_loopz insn = x86_loopz_case X insn"
| "translate_control X orig_eip x86_loopnz insn = x86_loopnz_case X insn"
| "translate_control X orig_eip x86_jmp insn = x86_jmp_case X insn"
| "translate_control X orig_eip (x86_j cc) insn = JUMP X (FLAGCOMBO X cc) insn"
| "translate_control X orig_eip x86_jcxz insn = JUMP X (FLAGCOMBO_cxz X) insn"
| "translate_control X orig_eip x86_jecxz insn = JUMP X (FLAGCOMBO_ecxz X) insn"
| "translate_control X orig_eip x86_hlt insn = x86_hlt_case X orig_eip insn"
| "translate_control X orig_eip x86_int insn = x86_int_case X insn"
| "translate_control X orig_eip x86_sysenter insn = x86_sysenter_case X insn"

fun translate_misc :: "('s, 'v) x86sem \<Rightarrow> misc_kind \<Rightarrow> x86_insn \<Rightarrow> ('s, unit) sem" where
  "translate_misc X x86_cld insn = x86_flag_case X (REG_DF X) (falseV X) insn"
| "translate_misc X x86_std insn = x86_flag_case X (REG_DF X) (trueV X) insn"
| "translate_misc X x86_clc insn = x86_flag_case X (REG_CF X) (falseV X) insn"
| "translate_misc X x86_stc insn = x86_flag_case X (REG_CF X) (trueV X) insn"
| "translate_misc X x86_cmc insn = x86_flag_case X (REG_CF X) (invertV X 1 (readRegister X 1 (REG_CF X))) insn"
| "translate_misc X x86_nop insn = retS ()"
| "translate_misc X x86_cpuid insn = x86_cpuid_case X insn"
| "translate_misc X x86_rdtsc insn = x86_rdtsc_case X insn"
| "translate_misc X x86_fnstcw insn = x86_fnstcw_case X insn"
| "translate_misc X x86_fldcw insn = x86_fldcw_case X insn"
| "translate_misc X x86_other insn = instruction_not_implemented"

fun translate_kind :: "('s, 'v) x86sem \<Rightarrow> 'v \<Rightarrow> x86_kind \<Rightarrow> x86_insn \<Rightarrow> ('s, unit) sem" where
  "translate_kind X orig_eip (Data k) insn = translate_data X k insn"
| "translate_kind X orig_eip (Logic k) insn = translate_logic X k insn"
| "translate_kind X orig_eip (Arith k) insn = translate_arith X k insn"
| "translate_kind X orig_eip (Control k) insn = translate_control X orig_eip k insn"
| "translate_kind X orig_eip (Misc k) insn = translate_misc X k insn"
| "translate_kind X orig_eip (StringOp pre opr sz) insn = x86_string_case X orig_eip pre opr sz insn"

definition translate :: "('s, 'v) x86sem \<Rightarrow> x86_insn \<Rightarrow> ('s, unit) sem" where
  "translate X insn =
     bindS (readRegister X 32 (REG_EIP X)) (\<lambda>orig_eip.
     seqS (writeRegister X 32 (REG_EIP X) (addV X 32 (retS orig_eip) (numberV X 32 (of_nat (insn_size insn)))))
     (translate_kind X orig_eip (insn_kind insn) insn))"

section \<open>Instructions and blocks\<close>

definition processInstruction :: "('s, 'v) x86sem \<Rightarrow> x86_insn \<Rightarrow> ('s, unit) sem" where
  "processInstruction X insn =
     blockS [p_startInstruction X (insn_address insn), translate X insn, p_finishInstruction X]"

text \<open>A statement of a block: an x86 instruction, an instruction of another architecture, or anything else.\<close>

datatype asm_statement = X86Stmt x86_insn | OtherInsn u64 | OtherStmt u64

fun stmt_address :: "asm_statement \<Rightarrow> u64" where
  "stmt_address (X86Stmt insn) = insn_address insn"
| "stmt_address (OtherInsn a) = a"
| "stmt_address (OtherStmt a) = a"

definition processStatement :: "('s, 'v) x86sem \<Rightarrow> asm_statement \<Rightarrow> ('s, unit) sem" where
  "processStatement X st =
     (case st of X86Stmt insn \<Rightarrow> processInstruction X insn | _ \<Rightarrow> failS (Abort ''insn''))"

definition processRange :: "('s, 'v) x86sem \<Rightarrow> asm_statement list \<Rightarrow> nat \<Rightarrow> nat \<Rightarrow> ('s, unit) sem" where
  "processRange X stmts b e =
     (if b = e then retS ()
      else blockS
        [p_startBlock X (stmt_address (stmts ! b)),
         blockS (map (\<lambda>i. processStatement X (stmts ! i)) [b..<e]),
         p_finishBlock X (stmt_address (stmts ! b))])"

definition isRepeatedStringOp :: "asm_statement \<Rightarrow> bool" where
  "isRepeatedStringOp st =
     (case st of
        X86Stmt insn \<Rightarrow>
          (case insn_kind insn of
             StringOp pre opr sz \<Rightarrow>
               (pre = prefix_repe \<or> pre = prefix_repne) \<and> opr \<in> {op_cmps, op_scas} \<or>
               pre = prefix_rep \<and> (opr \<in> {op_lods, op_movs, op_stos} \<or> opr \<in> {op_ins, op_outs} \<and> sz \<noteq> size_q)
           | _ \<Rightarrow> False)
      | _ \<Rightarrow> False)"

definition isHltOrInt :: "asm_statement \<Rightarrow> bool" where
  "isHltOrInt st =
     (case st of
        X86Stmt insn \<Rightarrow> insn_kind insn = Control x86_hlt \<or> insn_kind insn = Control x86_int
      | _ \<Rightarrow> False)"

text \<open>The inner loop of \<open>processBlock(SgAsmBlock*)\<close>.\<close>

function block_advance :: "asm_statement list \<Rightarrow> nat \<Rightarrow> nat \<Rightarrow> nat" where
  "block_advance stmts oldI i =
     (if i < length stmts \<and> \<not> isRepeatedStringOp (stmts ! i) \<and> (i = oldI \<or> \<not> isHltOrInt (stmts ! (i - 1)))
      then block_advance stmts oldI (i + 1) else i)"
  by pat_completeness simp
termination by (relation "measure (\<lambda>(stmts, _, i). length stmts - i)") auto

declare block_advance.simps [simp del]

lemma block_advance_bounds: "i \<le> block_advance stmts oldI i"
proof (induction stmts oldI i rule: block_advance.induct)
  case (1 stmts oldI i)
  then show ?case by (subst block_advance.simps) (auto dest: Suc_leD)
qed

function processBlock_from :: "('s, 'v) x86sem \<Rightarrow> asm_statement list \<Rightarrow> nat \<Rightarrow> ('s, unit) sem" where
  "processBlock_from X stmts oldI =
     (if oldI < length stmts then
        (let i = block_advance stmts oldI oldI in
         seqS (processRange X stmts oldI i)
         (if i \<ge> length stmts then retS ()
          else if isRepeatedStringOp (stmts ! i)
          then seqS (processRange X stmts i (i + 1))
                 (if i + 1 \<noteq> oldI then processBlock_from X stmts (i + 1) else failS (Abort ''i != oldI''))
          else if i \<noteq> oldI then processBlock_from X stmts i else failS (Abort ''i != oldI'')))
      else retS ())"
  by pat_completeness simp
termination
proof (relation "measure (\<lambda>(_, stmts, i). length stmts - i)", goal_cases)
  case (2 X stmts oldI i)
  then show ?case using block_advance_bounds [of oldI stmts oldI] by simp
next
  case (3 X stmts oldI i)
  then show ?case using block_advance_bounds [of oldI stmts oldI] by simp
qed simp_all

declare processBlock_from.simps [simp del]

definition processBlock :: "('s, 'v) x86sem \<Rightarrow> asm_statement list \<Rightarrow> ('s, unit) sem" where
  "processBlock X stmts =
     (case stmts of
        [] \<Rightarrow> retS ()
      | OtherStmt _ # _ \<Rightarrow> retS ()
      | _ \<Rightarrow> processBlock_from X stmts 0)"

end
