(* ===== verification/Blocks.thy ===== *)
theory Blocks
  imports X86Semantics
begin

text \<open>
  What \<open>processBlock(SgAsmBlock*)\<close> does, against a reference definition: the statements are cut into the longest
  pieces in which no statement but the last is \<open>hlt\<close> or \<open>int\<close> and every repeated string instruction is alone,
  and each piece is processed, in order, between a \<open>startBlock\<close> and a \<open>finishBlock\<close>.
\<close>

definition cut_between :: "asm_statement \<Rightarrow> asm_statement \<Rightarrow> bool" where
  "cut_between a b \<longleftrightarrow> isRepeatedStringOp a \<or> isHltOrInt a \<or> isRepeatedStringOp b"

text \<open>The number of statements after \<open>a\<close> that are in the piece of \<open>a\<close>.\<close>

fun run_length :: "asm_statement \<Rightarrow> asm_statement list \<Rightarrow> nat" where
  "run_length a [] = 0"
| "run_length a (b # sts) = (if cut_between a b then 0 else Suc (run_length b sts))"

fun pieces :: "asm_statement list \<Rightarrow> asm_statement list list" where
  "pieces [] = []"
| "pieces (a # sts) = (a # take (run_length a sts) sts) # pieces (drop (run_length a sts) sts)"

lemma run_length_le: "run_length a sts \<le> length sts"
  by (induction a sts rule: run_length.induct) simp_all

lemma concat_pieces: "concat (pieces sts) = sts"
  by (induction sts rule: pieces.induct) simp_all

lemma run_length_uncut: "successively (\<lambda>a b. \<not> cut_between a b) (a # take (run_length a sts) sts)"
  by (induction a sts rule: run_length.induct) (auto simp: successively_Cons)

lemma run_length_maximal: "run_length a sts < length sts \<Longrightarrow> cut_between (last (a # take (run_length a sts) sts)) (sts ! run_length a sts)"
  by (induction a sts rule: run_length.induct) (auto split: if_splits)

text \<open>One piece.\<close>

definition process_piece :: "('s, 'v) x86sem \<Rightarrow> asm_statement list \<Rightarrow> ('s, unit) sem" where
  "process_piece X sts =
     blockS
       [p_startBlock X (stmt_address (hd sts)), blockS (map (processStatement X) sts),
        p_finishBlock X (stmt_address (hd sts))]"

lemma drop_nth: "i < length sts \<Longrightarrow> drop i sts = sts ! i # drop (Suc i) sts"
  by (simp add: Cons_nth_drop_Suc)

lemma processRange_piece:
  assumes "b < e" "e \<le> length sts"
  shows "processRange X sts b e = process_piece X (take (e - b) (drop b sts))"
proof -
  have "map (\<lambda>i. processStatement X (sts ! i)) [b..<e] = map (processStatement X) (take (e - b) (drop b sts))"
    using assms by (simp add: list_eq_iff_nth_eq)
  moreover have "hd (take (e - b) (drop b sts)) = sts ! b" using assms by (simp add: drop_nth take_Cons')
  ultimately show ?thesis using assms by (simp add: processRange_def process_piece_def)
qed

lemma block_advance_run:
  assumes "oldI < i" "i \<le> length sts" "\<not> isRepeatedStringOp (sts ! (i - 1))"
  shows "block_advance sts oldI i = i + run_length (sts ! (i - 1)) (drop i sts)"
  using assms
proof (induction "length sts - i" arbitrary: i)
  case 0
  then show ?case by (simp add: block_advance.simps)
next
  case (Suc k)
  then have i: "i < length sts" by simp
  have drop: "drop i sts = sts ! i # drop (Suc i) sts" using i by (rule drop_nth)
  show ?case
  proof (cases "cut_between (sts ! (i - 1)) (sts ! i)")
    case True
    then show ?thesis using Suc.prems drop by (auto simp: block_advance.simps [of sts oldI i] cut_between_def)
  next
    case False
    then have "block_advance sts oldI i = block_advance sts oldI (Suc i)"
      using Suc.prems i by (simp add: block_advance.simps [of sts oldI i] cut_between_def)
    also have "\<dots> = Suc i + run_length (sts ! i) (drop (Suc i) sts)"
      using Suc.hyps(1) [of "Suc i"] Suc.hyps(2) Suc.prems i False by (simp add: cut_between_def)
    finally show ?thesis using drop False by simp
  qed
qed

lemma block_advance_first:
  assumes "i < length sts"
  shows "block_advance sts i i = (if isRepeatedStringOp (sts ! i) then i else Suc i + run_length (sts ! i) (drop (Suc i) sts))"
  using assms block_advance_run [of i "Suc i" sts] by (simp add: block_advance.simps [of sts i i])

lemma pieces_repeated:
  "isRepeatedStringOp a \<Longrightarrow> pieces (a # sts) = [a] # pieces sts"
  by (cases sts) (simp_all add: cut_between_def)

lemma process_first_piece:
  fixes sts i
  assumes "i < length sts" "\<not> isRepeatedStringOp (sts ! i)"
  defines "j \<equiv> Suc i + run_length (sts ! i) (drop (Suc i) sts)"
  shows "j \<le> length sts"
    and "processRange X sts i j = process_piece X (sts ! i # take (run_length (sts ! i) (drop (Suc i) sts)) (drop (Suc i) sts))"
    and "drop j sts = drop (run_length (sts ! i) (drop (Suc i) sts)) (drop (Suc i) sts)"
proof -
  show j: "j \<le> length sts" using run_length_le [of "sts ! i" "drop (Suc i) sts"] assms(1) by (simp add: j_def)
  have "processRange X sts i j = process_piece X (take (j - i) (drop i sts))"
    using j by (intro processRange_piece) (simp_all add: j_def)
  also have "take (j - i) (drop i sts) = sts ! i # take (run_length (sts ! i) (drop (Suc i) sts)) (drop (Suc i) sts)"
    using assms(1) by (simp add: drop_nth j_def)
  finally show "processRange X sts i j =
      process_piece X (sts ! i # take (run_length (sts ! i) (drop (Suc i) sts)) (drop (Suc i) sts))" .
  show "drop j sts = drop (run_length (sts ! i) (drop (Suc i) sts)) (drop (Suc i) sts)"
    by (simp add: j_def add.commute)
qed

lemma processBlock_from_repeated:
  assumes "i < length sts" "isRepeatedStringOp (sts ! i)"
  shows "processBlock_from X sts i = seqS (process_piece X [sts ! i]) (processBlock_from X sts (Suc i))"
proof -
  have "processRange X sts i (Suc i) = process_piece X [sts ! i]"
    using assms(1) by (subst processRange_piece) (simp_all add: drop_nth)
  moreover have "processRange X sts i i = retS ()" by (simp add: processRange_def)
  ultimately show ?thesis
    using assms by (simp add: processBlock_from.simps [of X sts i] block_advance_first seq_ret)
qed

lemma processBlock_from_plain:
  fixes sts i
  assumes "i < length sts" "\<not> isRepeatedStringOp (sts ! i)"
  defines "j \<equiv> Suc i + run_length (sts ! i) (drop (Suc i) sts)"
  shows "processBlock_from X sts i = seqS (processRange X sts i j) (processBlock_from X sts j)"
proof -
  have past: "processBlock_from X sts j = retS ()" if "length sts \<le> j"
    using that by (simp add: processBlock_from.simps [of X sts j])
  have range: "processRange X sts j (Suc j) = process_piece X [sts ! j]" if "j < length sts"
    using that by (subst processRange_piece) (simp_all add: drop_nth)
  have "block_advance sts i i = j" using assms by (simp add: block_advance_first)
  moreover have "i < j" by (simp add: j_def)
  ultimately have "processBlock_from X sts i = seqS (processRange X sts i j)
      (if length sts \<le> j then retS ()
       else if isRepeatedStringOp (sts ! j) then seqS (processRange X sts j (Suc j)) (processBlock_from X sts (Suc j))
       else processBlock_from X sts j)"
    using assms(1) by (simp add: processBlock_from.simps [of X sts i])
  then show ?thesis using past range processBlock_from_repeated [of j sts X] by simp
qed

lemma processBlock_from_pieces:
  "processBlock_from X sts i = blockS (map (process_piece X) (pieces (drop i sts)))"
proof (induction "length sts - i" arbitrary: i rule: less_induct)
  case less
  show ?case
  proof (cases "i < length sts")
    case False
    then show ?thesis by (simp add: processBlock_from.simps [of X sts i])
  next
    case i: True
    let ?j = "Suc i + run_length (sts ! i) (drop (Suc i) sts)"
    have IH: "processBlock_from X sts k = blockS (map (process_piece X) (pieces (drop k sts)))" if "i < k" for k
      using i that by (intro less) simp
    show ?thesis
    proof (cases "isRepeatedStringOp (sts ! i)")
      case True
      then show ?thesis
        using i processBlock_from_repeated [OF i True, of X] IH [of "Suc i"]
        by (simp add: drop_nth [OF i] pieces_repeated del: pieces.simps)
    next
      case False
      have "processBlock_from X sts i = seqS (processRange X sts i ?j) (blockS (map (process_piece X) (pieces (drop ?j sts))))"
        using processBlock_from_plain [OF i False, of X] IH [of ?j] by simp
      then show ?thesis
        by (simp only: process_first_piece [OF i False] drop_nth [OF i] pieces.simps list.map blockS.simps)
    qed
  qed
qed

lemma pieces_runs: "list_all (\<lambda>p. p \<noteq> [] \<and> successively (\<lambda>a b. \<not> cut_between a b) p) (pieces stmts)"
  by (induction stmts rule: pieces.induct) (simp_all add: run_length_uncut)

lemma pieces_separated: "successively (\<lambda>p q. cut_between (last p) (hd q)) (pieces stmts)"
proof (induction stmts rule: pieces.induct)
  case (2 a sts)
  show ?case
  proof (cases "run_length a sts < length sts")
    case True
    then obtain b r where "drop (run_length a sts) sts = b # r" "b = sts ! run_length a sts"
      using Cons_nth_drop_Suc [OF True] by metis
    then show ?thesis using 2 run_length_maximal [OF True] by simp
  qed simp
qed simp

text \<open>Property C5. \<open>processBlock\<close> processes every statement of a block exactly once and in order, cut into pieces.
  A cut is made between two neighbours exactly if one of them is a repeated string instruction or the first is
  \<open>hlt\<close> or \<open>int\<close>; every piece is enclosed in a \<open>startBlock\<close> and a \<open>finishBlock\<close>. In particular the loop ends and its
  assertion that it advances never fails.\<close>

theorem processBlock_equals_pieces:
  "(processBlock X stmts =
      (case stmts of OtherStmt _ # _ \<Rightarrow> retS () | _ \<Rightarrow> blockS (map (process_piece X) (pieces stmts)))) \<and>
   concat (pieces stmts) = stmts \<and>
   list_all (\<lambda>p. p \<noteq> [] \<and> successively (\<lambda>a b. \<not> cut_between a b) p) (pieces stmts) \<and>
   successively (\<lambda>p q. cut_between (last p) (hd q)) (pieces stmts)"
proof (intro conjI pieces_runs pieces_separated concat_pieces)
  show "processBlock X stmts =
      (case stmts of OtherStmt _ # _ \<Rightarrow> retS () | _ \<Rightarrow> blockS (map (process_piece X) (pieces stmts)))"
    using processBlock_from_pieces [of X stmts 0]
    by (simp add: processBlock_def split: list.split asm_statement.split)
qed

end
