(* ===== verification/SafetyRules.thy ===== *)
theory SafetyRules
  imports Blocks
begin

declare One_nat_def [simp del]

text \<open>
  Invariants and errors of the whole instruction semantics. An action is safe for a predicate on states and
  a predicate on errors if it keeps the one, also when it fails, and fails only with the other. If every
  operation of a policy is safe then so is \<open>translate\<close> on every instruction, and every block.
\<close>

named_theorems safe_intros \<open>safety of composed actions\<close>

definition safe :: "('s \<Rightarrow> bool) \<Rightarrow> (sem_error \<Rightarrow> bool) \<Rightarrow> ('s, 'a) sem \<Rightarrow> bool" where
  "safe P E m \<longleftrightarrow> (\<forall>s. P s \<longrightarrow> P (snd (m s)) \<and> (\<forall>e. fst (m s) = Inl e \<longrightarrow> E e))"

text \<open>An action that leads from states with \<open>P\<close> to states with \<open>Q\<close>, and one whose value satisfies \<open>Q\<close>.\<close>

definition leads :: "('s \<Rightarrow> bool) \<Rightarrow> ('s \<Rightarrow> bool) \<Rightarrow> (sem_error \<Rightarrow> bool) \<Rightarrow> ('s, 'a) sem \<Rightarrow> bool" where
  "leads P Q E m \<longleftrightarrow> (\<forall>s. P s \<longrightarrow> Q (snd (m s)) \<and> (\<forall>e. fst (m s) = Inl e \<longrightarrow> E e))"

definition yields :: "('s \<Rightarrow> bool) \<Rightarrow> (sem_error \<Rightarrow> bool) \<Rightarrow> ('a \<Rightarrow> bool) \<Rightarrow> ('s, 'a) sem \<Rightarrow> bool" where
  "yields P E Q m \<longleftrightarrow> (\<forall>s. P s \<longrightarrow> P (snd (m s)) \<and> (case fst (m s) of Inl e \<Rightarrow> E e | Inr a \<Rightarrow> Q a))"

lemma safe_ret [safe_intros]: "safe P E (retS a)"
  by (simp add: safe_def retS_def)

lemma safe_fail: "E e \<Longrightarrow> safe P E (failS e)"
  by (simp add: safe_def failS_def)

lemma safe_bind [safe_intros]: "safe P E m \<Longrightarrow> (\<And>a. safe P E (f a)) \<Longrightarrow> safe P E (bindS m f)"
  unfolding safe_def bindS_def by (auto split: prod.split sum.split)

lemma safe_seq [safe_intros]: "safe P E m \<Longrightarrow> safe P E n \<Longrightarrow> safe P E (seqS m n)"
  unfolding seqS_def by (rule safe_bind)

lemma safe_block: "list_all (safe P E) ms \<Longrightarrow> safe P E (blockS ms)"
  by (induction ms) (auto intro: safe_intros)

lemma safe_block_simps [safe_intros]:
  "safe P E (blockS [])" "safe P E m \<Longrightarrow> safe P E (blockS ms) \<Longrightarrow> safe P E (blockS (m # ms))"
  by (auto intro: safe_intros)

lemma safe_guard: "(\<not> b \<Longrightarrow> E e) \<Longrightarrow> safe P E (guardS b e)"
  by (auto simp: guardS_def intro: safe_intros safe_fail)

lemma safe_drop [safe_intros]: "safe P E m \<Longrightarrow> safe P E (dropS m)"
  unfolding dropS_def by (intro safe_intros)

lemma safe_get [safe_intros]: "safe P E (getS f)"
  by (simp add: safe_def getS_def)

lemma safe_modify: "(\<And>s. P s \<Longrightarrow> P (f s)) \<Longrightarrow> safe P E (modifyS f)"
  by (simp add: safe_def modifyS_def)

lemma safe_ofOption: "(x = None \<Longrightarrow> E e) \<Longrightarrow> safe P E (ofOption e x)"
  by (cases x) (auto simp: ofOption_def intro: safe_intros safe_fail)

lemma safe_lift [safe_intros]:
  "safe P E a \<Longrightarrow> (\<And>x. safe P E (f x)) \<Longrightarrow> safe P E (lift1 f a)"
  "safe P E a \<Longrightarrow> safe P E b \<Longrightarrow> (\<And>x y. safe P E (g x y)) \<Longrightarrow> safe P E (lift2 g a b)"
  "safe P E a \<Longrightarrow> safe P E b \<Longrightarrow> safe P E c \<Longrightarrow> (\<And>x y z. safe P E (h x y z)) \<Longrightarrow> safe P E (lift3 h a b c)"
  unfolding lift1_def lift2_def lift3_def by (intro safe_intros; assumption)+

lemma safe_cases [safe_intros]:
  "(b \<Longrightarrow> safe P E m) \<Longrightarrow> (\<not> b \<Longrightarrow> safe P E n) \<Longrightarrow> safe P E (if b then m else n)"
  "safe P E m \<Longrightarrow> (\<And>a. x = Some a \<Longrightarrow> safe P E (f a)) \<Longrightarrow> safe P E (case x of None \<Rightarrow> m | Some a \<Rightarrow> f a)"
  "safe P E m \<Longrightarrow> (\<And>y ys. safe P E (g y ys)) \<Longrightarrow> safe P E (case xs of [] \<Rightarrow> m | y # ys \<Rightarrow> g y ys)"
  "(\<And>a b. safe P E (h a b)) \<Longrightarrow> safe P E (case p of (a, b) \<Rightarrow> h a b)"
  by (simp_all split: option.split list.split prod.split)

lemma safe_case_expr:
  "(\<And>r t. safe P E (f1 r t)) \<Longrightarrow> (\<And>a b. safe P E (f2 a b)) \<Longrightarrow> (\<And>a b. safe P E (f3 a b)) \<Longrightarrow> (\<And>a b t. safe P E (f4 a b t)) \<Longrightarrow>
   (\<And>v. safe P E (f5 v)) \<Longrightarrow> (\<And>v. safe P E (f6 v)) \<Longrightarrow> (\<And>v. safe P E (f7 v)) \<Longrightarrow> (\<And>v. safe P E (f8 v)) \<Longrightarrow> safe P E f9 \<Longrightarrow>
   safe P E (case_asm_expr f1 f2 f3 f4 f5 f6 f7 f8 f9 e)"
  by (cases e) simp_all

lemma safe_let [safe_intros]: "(\<And>a. safe P E (f a)) \<Longrightarrow> safe P E (let a = x in f a)"
  by simp

lemma safe_leads: "safe P E m \<longleftrightarrow> leads P P E m"
  by (simp add: safe_def leads_def)

lemma leads_seq: "leads P Q E m \<Longrightarrow> leads Q R E n \<Longrightarrow> (\<And>s. Q s \<Longrightarrow> R s) \<Longrightarrow> leads P R E (seqS m n)"
  unfolding leads_def seqS_def bindS_def by (auto split: prod.split sum.split)

lemma leads_weaken: "leads P Q E m \<Longrightarrow> (\<And>s. Q s \<Longrightarrow> R s) \<Longrightarrow> leads P R E m"
  unfolding leads_def by blast

lemma safe_disj: "safe P E m \<Longrightarrow> safe Q E m \<Longrightarrow> safe (\<lambda>s. P s \<or> Q s) E m"
  unfolding safe_def by blast

lemma yields_safe: "safe P E m \<Longrightarrow> yields P E (\<lambda>_. True) m" "yields P E Q m \<Longrightarrow> safe P E m"
  unfolding yields_def safe_def by (auto split: sum.split sum.split_asm)

lemma yields_ret: "Q a \<Longrightarrow> yields P E Q (retS a)"
  by (simp add: yields_def retS_def)

lemma yields_get: "(\<And>s. P s \<Longrightarrow> Q (f s)) \<Longrightarrow> yields P E Q (getS f)"
  by (simp add: yields_def getS_def)

lemma yields_bind: "yields P E Q m \<Longrightarrow> (\<And>a. Q a \<Longrightarrow> yields P E R (f a)) \<Longrightarrow> yields P E R (bindS m f)"
  unfolding yields_def bindS_def by (fastforce split: prod.split sum.split)

lemma yields_seq: "safe P E m \<Longrightarrow> yields P E R n \<Longrightarrow> yields P E R (seqS m n)"
  unfolding seqS_def by (rule yields_bind [OF yields_safe(1)])

section \<open>Safe policies\<close>

text \<open>The failed assertions and the aborts of the instruction semantics itself.\<close>

definition x86_aborts :: "string set" where
  "x86_aborts = {'''', ''operands'', ''get_type'', ''numBytesInAsmType'', ''Bad segment expr'', ''readEffectiveAddress'',
     ''Bad variant'', ''abort'', ''kind'', ''insn''}"

locale safe_policy =
  fixes X :: "('s, 'v) x86sem" and P :: "'s \<Rightarrow> bool" and E :: "sem_error \<Rightarrow> bool"
  assumes E_x86: "E (X86Exception msg)" "msg \<in> x86_aborts \<Longrightarrow> E (Abort msg)"
    and safe_registers: "safe P E (p_readRegister X n r)" "safe P E (p_writeRegister X n r v)"
    and safe_memory: "safe P E (p_readMemory X n seg a c)" "safe P E (p_writeMemory X n seg a v c)"
    and safe_unary: "safe P E (p_undefined X n)" "safe P E (p_signExtend X m n v)" "safe P E (p_extract X i j n v)"
      "safe P E (p_invert X n v)" "safe P E (p_negate X n v)" "safe P E (p_equalToZero X n v)"
      "safe P E (p_leastSignificantSetBit X n v)" "safe P E (p_mostSignificantSetBit X n v)"
      "safe P E (p_filterCallTarget X v)" "safe P E (p_filterReturnTarget X v)" "safe P E (p_filterIndirectJumpTarget X v)"
    and safe_binary: "safe P E (p_concat X m n v w)" "safe P E (p_add X n v w)" "safe P E (p_and X n v w)"
      "safe P E (p_or X n v w)" "safe P E (p_xor X n v w)" "safe P E (p_rotateLeft X n m v w)"
      "safe P E (p_rotateRight X n m v w)" "safe P E (p_shiftLeft X n m v w)" "safe P E (p_shiftRight X n m v w)"
      "safe P E (p_shiftRightArithmetic X n m v w)" "safe P E (p_signedDivide X m n v w)"
      "safe P E (p_signedModulo X m n v w)" "safe P E (p_signedMultiply X m n v w)" "safe P E (p_unsignedDivide X m n v w)"
      "safe P E (p_unsignedModulo X m n v w)" "safe P E (p_unsignedMultiply X m n v w)"
    and safe_ternary: "safe P E (p_addWithCarries X n v w u)" "safe P E (p_ite X n v w u)"
    and safe_system: "safe P E (p_hlt X)" "safe P E (p_cpuid X)" "safe P E (p_rdtsc X)" "safe P E (p_interrupt X k)"
      "safe P E (p_sysenter X)"
begin

lemmas safe_policy_intros [safe_intros] =
  safe_registers safe_memory safe_unary safe_binary safe_ternary safe_system

lemma safe_x86_fail [safe_intros]:
  "safe P E (failS (X86Exception msg))" "safe P E (guardS b (X86Exception msg))"
  "msg \<in> x86_aborts \<Longrightarrow> safe P E (failS (Abort msg))" "msg \<in> x86_aborts \<Longrightarrow> safe P E (guardS b (Abort msg))"
  "msg \<in> x86_aborts \<Longrightarrow> safe P E (ofOption (Abort msg) x)"
  by (simp_all add: safe_fail safe_guard safe_ofOption E_x86)

lemmas abort_messages [safe_intros] = x86_aborts_def [THEN equalityD2, THEN subsetD]

lemma safe_operand [safe_intros]: "safe P E (operand insn i)" "safe P E (operand_bytes e)"
  unfolding operand_def operand_bytes_def
  by (intro safe_intros; simp add: x86_aborts_def)+

lemma safe_operands [safe_intros]:
  "safe P E m \<Longrightarrow> safe P E (operands0 insn m)"
  "(\<And>a. safe P E (f a)) \<Longrightarrow> safe P E (operands1 insn f)"
  "(\<And>a b. safe P E (g a b)) \<Longrightarrow> safe P E (operands2 insn g)"
  "(\<And>n. safe P E (h n)) \<Longrightarrow> safe P E (switch124 e h)"
  "(\<And>n. safe P E (h n)) \<Longrightarrow> safe P E (switch24 e h)"
  "safe P E (undefine X r)" "safe P E (size_not_implemented :: ('s, 'b) sem)"
  unfolding operands0_def operands1_def operands2_def switch124_def switch24_def undefine_def size_not_implemented_def
  by (intro safe_intros; assumption)+

lemmas safe_ops = safe_intros

lemma safe_read [safe_intros]: "safe P E (read_expr X w e)"
proof (induction e arbitrary: w)
  case (BinaryMultiply l r)
  show ?case
  proof (cases r)
    case (ByteValue b)
    then show ?thesis using BinaryMultiply(1) [of w] BinaryMultiply(2) [of 8]
      by (simp del: read_expr.simps(5)) (intro safe_intros; assumption)
  qed (simp, intro safe_intros)+
next
  case (MemRef addr seg t)
  then show ?case by simp (intro safe_intros; simp add: x86_aborts_def)
qed (simp, (intro safe_intros; (assumption | simp add: x86_aborts_def)))+

lemma safe_operand_access [safe_intros]:
  "safe P E (read8 X e)"
  "safe P E (read16 X e)"
  "safe P E (read32 X e)"
  unfolding read8_def read16_def read32_def
  by (intro safe_intros; (assumption | simp add: x86_aborts_def))+

lemma safe_write_operand [safe_intros]:
  "safe P E (readEffectiveAddress X e)" "safe P E v \<Longrightarrow> safe P E (write_expr X w e v)"
  "safe P E v \<Longrightarrow> safe P E (write8 X e v)" "safe P E v \<Longrightarrow> safe P E (write16 X e v)" "safe P E v \<Longrightarrow> safe P E (write32 X e v)"
proof -
  have ea: "safe P E (readEffectiveAddress X e)" for e
    unfolding readEffectiveAddress_def by (intro safe_intros safe_case_expr; simp add: x86_aborts_def)
  then show "safe P E (readEffectiveAddress X e)" .
  show wr: "safe P E (write_expr X w e v)" if "safe P E v" for w
    unfolding write_expr_def by (intro safe_intros safe_case_expr ea that; simp add: x86_aborts_def)
  show "safe P E v \<Longrightarrow> safe P E (write8 X e v)" "safe P E v \<Longrightarrow> safe P E (write16 X e v)" "safe P E v \<Longrightarrow> safe P E (write32 X e v)"
    unfolding write8_def write16_def write32_def by (erule wr)+
qed

lemma safe_string_parts [safe_intros]:
  "safe P E (rep_enter X)"
  "safe P E (rep_repeat X v v' v'')"
  "safe P E (string_step X n)"
  "safe P E (string_checks insn msg)"
  "safe P E (stringop_load_si X n insn v)"
  "safe P E (stringop_load_di X n v)"
  unfolding rep_enter_def rep_repeat_def string_step_def string_checks_def stringop_load_si_def stringop_load_di_def
  by (intro safe_intros; (assumption | simp add: x86_aborts_def))+

lemma safe_flag_parts [safe_intros]:
  "safe P E m \<Longrightarrow> safe P E (invertMaybe X n m b)"
  "safe P E m \<Longrightarrow> safe P E (greaterOrEqualToTen X n m)"
  "safe P E m \<Longrightarrow> safe P E (parity X m)"
  unfolding invertMaybe_def greaterOrEqualToTen_def parity_def
  by (intro safe_intros; (assumption | simp add: x86_aborts_def))+

lemma safe_result_flags [safe_intros]:
  "safe P E (setFlagsForResult X n v)"
  "safe P E (setFlagsForResult_cond X n v v')"
  unfolding setFlagsForResult_def setFlagsForResult_cond_def
  by (intro safe_intros; (assumption | simp add: x86_aborts_def))+

lemma safe_additions [safe_intros]:
  "safe P E m \<Longrightarrow> safe P E m' \<Longrightarrow> safe P E m'' \<Longrightarrow> safe P E (doAddOperation X n m m' b m'')"
  "safe P E m \<Longrightarrow> safe P E m' \<Longrightarrow> safe P E m'' \<Longrightarrow> safe P E (doAddOperation_cond X n m m' b m'' v)"
  "safe P E m \<Longrightarrow> safe P E (doIncOperation X n m b b')"
  unfolding doAddOperation_def doAddOperation_cond_def doIncOperation_def
  by (intro safe_intros; (assumption | simp add: x86_aborts_def))+

lemma safe_advance [safe_intros]:
  "safe P E (advance_if X n r v)"
  "safe P E (movs_advance X n r v)"
  "safe P E m \<Longrightarrow> safe P E (lods_semantics_regupdate X n m)"
  unfolding advance_if_def movs_advance_def lods_semantics_regupdate_def
  by (intro safe_intros; (assumption | simp add: x86_aborts_def))+

lemma safe_string_once [safe_intros]:
  "safe P E (stos_semantics X n insn v)"
  "safe P E (movs_semantics X n insn v)"
  "safe P E (cmps_semantics X n insn v)"
  "safe P E (scas_semantics X n insn v)"
  "safe P E (lods_semantics X n insn)"
  unfolding stos_semantics_def movs_semantics_def cmps_semantics_def scas_semantics_def lods_semantics_def
  by (intro safe_intros; (assumption | simp add: x86_aborts_def))+

lemma safe_string_repeated [safe_intros]:
  "safe P E (rep_stos_semantics X n insn v)"
  "safe P E (rep_movs_semantics X n insn v)"
  "safe P E (repe_cmps_semantics X n insn v)"
  "safe P E (repne_cmps_semantics X n insn v)"
  "safe P E (repe_scas_semantics X n insn v)"
  "safe P E (repne_scas_semantics X n insn v)"
  unfolding rep_stos_semantics_def rep_movs_semantics_def repe_cmps_semantics_def repne_cmps_semantics_def repe_scas_semantics_def repne_scas_semantics_def
  by (intro safe_intros; (assumption | simp add: x86_aborts_def))+

lemma safe_shift_parts [safe_intros]:
  "safe P E (shifted_off_bit X n n' k v v' v'')"
  "safe P E (shift_newCF X n k v v' v'' v''')"
  unfolding shifted_off_bit_def shift_newCF_def
  by (intro safe_intros; (assumption | simp add: x86_aborts_def))+

lemma safe_shift_kinds [safe_intros]:
  "safe P E (shift_newOF X n k v v1 v2 v3 v4)" "safe P E (shift_result X n n' k v v1 v2 v3 v4)"
  unfolding shift_newOF_def shift_result_def
  by (cases k; simp only: logic_kind.case; intro safe_intros; simp add: x86_aborts_def)+

lemma safe_shifts [safe_intros]:
  "safe P E m \<Longrightarrow> safe P E m' \<Longrightarrow> safe P E m'' \<Longrightarrow> safe P E (shift_semantics X n n' k m m' m'')"
  unfolding shift_semantics_def
  by (intro safe_intros; (assumption | simp add: x86_aborts_def))+

lemma safe_flag_groups [safe_intros]:
  "safe P E (logic_flags X)"
  "safe P E m \<Longrightarrow> safe P E (flag_unless_zero X r v m)"
  "safe P E (scan_flags X)"
  "safe P E (bit_test_flags X)"
  "safe P E (mul_flags X)"
  "safe P E (imul_carry X n v)"
  "safe P E (FLAGCOMBO_cxz X)"
  "safe P E (FLAGCOMBO_ecxz X)"
  unfolding logic_flags_def flag_unless_zero_def scan_flags_def bit_test_flags_def mul_flags_def imul_carry_def FLAGCOMBO_cxz_def FLAGCOMBO_ecxz_def
  by (intro safe_intros; (assumption | simp add: x86_aborts_def))+

lemma safe_parts [safe_intros]:
  "safe P E (div_flags X)"
  "safe P E (dividend X n)"
  "safe P E (store_quotient X n v v')"
  "safe P E m \<Longrightarrow> safe P E (stack_store X v x m)"
  "safe P E (stack_load X v x)"
  "safe P E (double_shift_end X n e v v')"
  unfolding div_flags_def dividend_def store_quotient_def stack_store_def stack_load_def double_shift_end_def
  by (intro safe_intros; (assumption | simp add: x86_aborts_def))+

lemma safe_bit_test [safe_intros]:
  assumes "\<And>f n j v w. upd = Some f \<Longrightarrow> safe P E (f n j v w)"
  shows "safe P E (bit_test_memory X e e' upd)" "safe P E (bit_test_simple X e e' upd)" "safe P E (bit_test X upd insn)"
proof -
  show parts: "safe P E (bit_test_memory X e e' upd)" "safe P E (bit_test_simple X e e' upd)" for e e'
    unfolding bit_test_memory_def bit_test_simple_def
    by (intro safe_intros safe_case_expr assms; (assumption | simp add: x86_aborts_def))+
  show "safe P E (bit_test X upd insn)"
    unfolding bit_test_def by (intro safe_intros safe_case_expr parts)
qed

lemma safe_bit_tests [safe_intros]:
  "safe P E (x86_bt_case X insn)" "safe P E (x86_btr_case X insn)" "safe P E (x86_bts_case X insn)"
  unfolding x86_bt_case_def x86_btr_case_def x86_bts_case_def
  by (rule safe_bit_test(3); auto intro!: safe_intros)+

lemma safe_moves [safe_intros]:
  "safe P E (x86_mov_case X insn)"
  "safe P E (x86_xchg_case X insn)"
  "safe P E (x86_movzx_case X insn)"
  "safe P E (x86_movsx_case X insn)"
  "safe P E (x86_cbw_case X insn)"
  "safe P E (x86_cwde_case X insn)"
  "safe P E (x86_cwd_case X insn)"
  "safe P E (x86_cdq_case X insn)"
  "safe P E (x86_lea_case X insn)"
  unfolding x86_mov_case_def x86_xchg_case_def x86_movzx_case_def x86_movsx_case_def x86_cbw_case_def x86_cwde_case_def x86_cwd_case_def x86_cdq_case_def x86_lea_case_def
  by (intro safe_intros; (assumption | simp add: x86_aborts_def))+

lemma safe_logic [safe_intros]:
  "safe P E (x86_and_case X insn)"
  "safe P E (x86_or_case X insn)"
  "safe P E (x86_test_case X insn)"
  "safe P E (x86_xor_case X insn)"
  "safe P E (x86_not_case X insn)"
  "safe P E (x86_bsf_case X insn)"
  "safe P E (x86_bsr_case X insn)"
  unfolding x86_and_case_def x86_or_case_def x86_test_case_def x86_xor_case_def x86_not_case_def x86_bsf_case_def x86_bsr_case_def
  by (intro safe_intros; (assumption | simp add: x86_aborts_def))+

lemma safe_shift_cases [safe_intros]:
  "safe P E (x86_shift_case X k insn)"
  "safe P E (x86_rol_case X insn)"
  "safe P E (x86_ror_case X insn)"
  "safe P E (x86_shld_case X insn)"
  "safe P E (x86_shrd_case X insn)"
  unfolding x86_shift_case_def x86_rol_case_def x86_ror_case_def x86_shld_case_def x86_shrd_case_def
  by (intro safe_intros; (assumption | simp add: x86_aborts_def))+

lemma safe_add_cases [safe_intros]:
  "safe P E (x86_xadd_case X insn)"
  "safe P E (x86_add_case X insn)"
  "safe P E (x86_adc_case X insn)"
  "safe P E (x86_sub_case X insn)"
  "safe P E (x86_sbb_case X insn)"
  "safe P E (x86_cmp_case X insn)"
  "safe P E (x86_neg_case X insn)"
  "safe P E (x86_inc_case X insn)"
  "safe P E (x86_dec_case X insn)"
  "safe P E (x86_cmpxchg_case X insn)"
  unfolding x86_xadd_case_def x86_add_case_def x86_adc_case_def x86_sub_case_def x86_sbb_case_def x86_cmp_case_def x86_neg_case_def x86_inc_case_def x86_dec_case_def x86_cmpxchg_case_def
  by (intro safe_intros; (assumption | simp add: x86_aborts_def))+

lemma safe_mul_cases [safe_intros]:
  "safe P E (x86_imul_case X insn)"
  "safe P E (x86_mul_case X insn)"
  "safe P E (x86_idiv_case X insn)"
  "safe P E (x86_div_case X insn)"
  "safe P E (x86_aaa_case X insn)"
  "safe P E (x86_aas_case X insn)"
  "safe P E (x86_aam_case X insn)"
  "safe P E (x86_aad_case X insn)"
  unfolding x86_imul_case_def x86_mul_case_def x86_idiv_case_def x86_div_case_def x86_aaa_case_def x86_aas_case_def x86_aam_case_def x86_aad_case_def
  by (intro safe_intros; (assumption | simp add: x86_aborts_def))+

lemma safe_stack_cases [safe_intros]:
  "safe P E (x86_bswap_case X insn)"
  "safe P E (x86_push_case X insn)"
  "safe P E (x86_pushad_case X insn)"
  "safe P E (x86_pushfd_case X insn)"
  "safe P E (x86_pop_case X insn)"
  "safe P E (x86_popad_case X insn)"
  "safe P E (x86_leave_case X insn)"
  "safe P E (x86_call_case X insn)"
  "safe P E (x86_ret_case X insn)"
  unfolding x86_bswap_case_def x86_push_case_def x86_pushad_case_def x86_pushfd_case_def x86_pop_case_def x86_popad_case_def x86_leave_case_def x86_call_case_def x86_ret_case_def
  by (intro safe_intros; (assumption | simp add: x86_aborts_def))+

lemma safe_loop_parts [safe_intros]:
  "(\<And>x. safe P E (f x)) \<Longrightarrow> safe P E (loop_with X f insn)"
  "safe P E m \<Longrightarrow> safe P E (JUMP X m insn)"
  "safe P E m \<Longrightarrow> safe P E (SET X m insn)"
  "safe P E m \<Longrightarrow> safe P E (CMOV X m insn)"
  "safe P E m \<Longrightarrow> safe P E (x86_flag_case X r m insn)"
  unfolding loop_with_def JUMP_def SET_def CMOV_def x86_flag_case_def
  by (intro safe_intros; (assumption | simp add: x86_aborts_def))+

lemma safe_control [safe_intros]:
  "safe P E (x86_loop_case X insn)"
  "safe P E (x86_loopz_case X insn)"
  "safe P E (x86_loopnz_case X insn)"
  "safe P E (x86_jmp_case X insn)"
  "safe P E (x86_hlt_case X v insn)"
  "safe P E (x86_cpuid_case X insn)"
  "safe P E (x86_rdtsc_case X insn)"
  "safe P E (x86_fnstcw_case X insn)"
  "safe P E (x86_fldcw_case X insn)"
  "safe P E (x86_sysenter_case X insn)"
  unfolding x86_loop_case_def x86_loopz_case_def x86_loopnz_case_def x86_jmp_case_def x86_hlt_case_def x86_cpuid_case_def x86_rdtsc_case_def x86_fnstcw_case_def x86_fldcw_case_def x86_sysenter_case_def
  by (intro safe_intros; (assumption | simp add: x86_aborts_def))+

lemma safe_FLAGCOMBO [safe_intros]: "safe P E (FLAGCOMBO X cc)"
  by (cases cc) (simp_all, (intro safe_intros)+)

lemma safe_system_cases [safe_intros]:
  "safe P E (x86_int_case X insn)" "safe P E (instruction_not_implemented :: ('s, 'b) sem)"
  unfolding x86_int_case_def instruction_not_implemented_def by (intro safe_intros safe_case_expr)+

lemma safe_string_case [safe_intros]: "safe P E (x86_string_case X v pre opr sz insn)"
  unfolding x86_string_case_def
  by (cases pre; cases opr; simp only: str_prefix.case str_op.case prod.case; intro safe_intros)

lemma safe_translate_kinds [safe_intros]:
  "safe P E (translate_data X dk insn)" "safe P E (translate_logic X lk insn)" "safe P E (translate_arith X ak insn)"
  "safe P E (translate_control X v ck insn)" "safe P E (translate_misc X mk insn)"
proof -
  show "safe P E (translate_data X dk insn)" by (cases dk; simp; intro safe_intros)
  show "safe P E (translate_logic X lk insn)" by (cases lk; simp; intro safe_intros)
  show "safe P E (translate_arith X ak insn)" by (cases ak; simp; intro safe_intros)
  show "safe P E (translate_control X v ck insn)" by (cases ck; simp; intro safe_intros)
  show "safe P E (translate_misc X mk insn)" by (cases mk; simp; intro safe_intros)
qed

lemma safe_translate: "safe P E (translate X insn)"
proof -
  have "safe P E (translate_kind X v k insn)" for v k by (cases k) (simp_all add: safe_translate_kinds safe_string_case)
  then show ?thesis unfolding translate_def by (intro safe_intros)
qed

end

section \<open>Blocks\<close>

text \<open>Between instructions a policy may rely on a weaker predicate, from which starting an instruction establishes the
  invariant. Both may depend on a bound for the number of instructions that have been started, as long as fewer than \<open>L\<close>
  are started: a policy that counts them has a counter of bounded width.\<close>

locale safe_block_policy =
  fixes X :: "('s, 'v) x86sem" and P :: "nat \<Rightarrow> 's \<Rightarrow> bool" and E :: "sem_error \<Rightarrow> bool" and B :: "nat \<Rightarrow> 's \<Rightarrow> bool" and L :: nat
  assumes policy: "safe_policy X (P k) E"
    and between: "P k s \<Longrightarrow> B k s"
    and later: "B k s \<Longrightarrow> k \<le> l \<Longrightarrow> B l s"
    and start: "B k s \<Longrightarrow> Suc k < L \<Longrightarrow>
      P (Suc k) (snd (p_startInstruction X a s)) \<and> (\<exists>u. fst (p_startInstruction X a s) = Inr u)"
    and finish: "safe (P k) E (p_finishInstruction X)"
    and safe_blocks: "safe (B k) E (p_startBlock X a)" "safe (B k) E (p_finishBlock X a)"
begin

lemma counted_instruction:
  assumes "Suc k < L"
  shows "leads (B k) (B (Suc k)) E (processInstruction X insn)"
  unfolding leads_def
proof (intro allI impI)
  let ?rest = "blockS [translate X insn, p_finishInstruction X]"
  have rest: "safe (P (Suc k)) E ?rest" by (intro safe_intros safe_policy.safe_translate [OF policy] finish)
  fix s assume "B k s"
  with start [OF this assms, of "insn_address insn"] obtain s1 u
    where s1: "p_startInstruction X (insn_address insn) s = (Inr u, s1)" "P (Suc k) s1" by (metis prod.collapse)
  then have "processInstruction X insn s = ?rest s1" by (simp add: processInstruction_def seq_run)
  with rest s1(2) show "B (Suc k) (snd (processInstruction X insn s)) \<and>
      (\<forall>e. fst (processInstruction X insn s) = Inl e \<longrightarrow> E e)"
    unfolding safe_def by (auto intro: between)
qed

lemma counted_statement:
  assumes "Suc k < L"
  shows "leads (B k) (B (Suc k)) E (processStatement X st)"
proof (cases st)
  case (X86Stmt insn)
  then show ?thesis using counted_instruction [OF assms] by (simp add: processStatement_def)
next
  case (OtherInsn a)
  have "safe (B k) E (failS (Abort ''insn'') :: ('s, unit) sem)"
    by (rule safe_fail) (rule safe_policy.E_x86(2) [OF policy], simp add: x86_aborts_def)
  then show ?thesis unfolding safe_leads OtherInsn processStatement_def
    by simp (erule leads_weaken, simp add: later)
next
  case OtherStmt
  have "safe (B k) E (failS (Abort ''insn'') :: ('s, unit) sem)"
    by (rule safe_fail) (rule safe_policy.E_x86(2) [OF policy], simp add: x86_aborts_def)
  then show ?thesis unfolding safe_leads OtherStmt processStatement_def
    by simp (erule leads_weaken, simp add: later)
qed

lemma counted_statements:
  "k + length sts < L \<Longrightarrow> leads (B k) (B (k + length sts)) E (blockS (map (processStatement X) sts))"
proof (induction sts arbitrary: k)
  case Nil
  then show ?case using safe_ret [of "B k" E "()"] by (simp add: safe_leads)
next
  case (Cons st sts)
  have "leads (B k) (B (Suc k)) E (processStatement X st)" using Cons.prems by (intro counted_statement) simp
  moreover have "leads (B (Suc k)) (B (k + length (st # sts))) E (blockS (map (processStatement X) sts))"
    using Cons.IH [of "Suc k"] Cons.prems by simp
  ultimately show ?case by (simp only: list.map blockS.simps) (erule (1) leads_seq, simp add: later)
qed

lemma counted_piece:
  assumes "k + length sts < L"
  shows "leads (B k) (B (k + length sts)) E (process_piece X sts)"
proof -
  have last: "leads (B (k + length sts)) (B (k + length sts)) E (blockS [p_finishBlock X (stmt_address (hd sts))])"
    unfolding safe_leads [symmetric] by (intro safe_intros safe_blocks)
  have "leads (B k) (B (k + length sts)) E
      (seqS (blockS (map (processStatement X) sts)) (blockS [p_finishBlock X (stmt_address (hd sts))]))"
    by (rule leads_seq [OF counted_statements [OF assms] last])
  then have "leads (B k) (B (k + length sts)) E (seqS (p_startBlock X (stmt_address (hd sts)))
      (seqS (blockS (map (processStatement X) sts)) (blockS [p_finishBlock X (stmt_address (hd sts))])))"
    by (rule leads_seq [OF safe_blocks(1) [unfolded safe_leads]]) (simp add: later)
  then show ?thesis unfolding process_piece_def by simp
qed

lemma counted_pieces:
  "k + length (concat ps) < L \<Longrightarrow> leads (B k) (B (k + length (concat ps))) E (blockS (map (process_piece X) ps))"
proof (induction ps arbitrary: k)
  case Nil
  then show ?case using safe_ret [of "B k" E "()"] by (simp add: safe_leads)
next
  case (Cons p ps)
  have "leads (B k) (B (k + length p)) E (process_piece X p)" using Cons.prems by (intro counted_piece) simp
  moreover have "leads (B (k + length p)) (B (k + length (concat (p # ps)))) E (blockS (map (process_piece X) ps))"
    using Cons.IH [of "k + length p"] Cons.prems by (simp add: add.assoc)
  ultimately show ?case by (simp only: list.map blockS.simps) (erule (1) leads_seq, simp add: later)
qed

lemma counted_block:
  assumes "k + length sts < L"
  shows "leads (B k) (B (k + length sts)) E (processBlock X sts)"
proof -
  have "leads (B k) (B (k + length sts)) E (processBlock_from X sts 0)"
    unfolding processBlock_from_pieces using counted_pieces [of k "pieces sts"] assms by (simp add: concat_pieces)
  moreover have "leads (B k) (B (k + length sts)) E (retS ())"
    using safe_ret [of "B k" E "()"] unfolding safe_leads by (rule leads_weaken) (simp add: later)
  ultimately show ?thesis
  proof (cases sts)
    case (Cons st rest)
    with \<open>leads _ _ _ (processBlock_from X sts 0)\<close> \<open>leads _ _ _ (retS ())\<close> show ?thesis
      by (cases st) (simp_all add: processBlock_def)
  qed (simp add: processBlock_def)
qed

end

end
