(* ===== verification/PartialSymbolic.thy ===== *)
theory PartialSymbolic
  imports X86Semantics
begin

unbundle bit_operations_syntax

text \<open>
  The partially symbolic semantic domain, \<^verbatim>\<open>PartialSymbolicSemantics.h\<close>: values, memory cells, machine states
  and the policy. A value is a constant (name 0) or an offset from a named unknown, possibly negated.
  The number of bits is a template parameter of the C++ value type and an argument of the operations
  here. The global \<open>name_counter\<close> is part of the policy's state, so that every default-constructed value
  (\<open>ValueType<n>()\<close>) is an action.
\<close>

section \<open>Values\<close>

record psv =
  vname :: u64
  voffset :: u64
  vnegate :: bool

text \<open>\<open>ValueType(uint64_t)\<close>, \<open>ValueType(name, offset, negate)\<close> and the converting copy constructor.\<close>

definition ps_const :: "nat \<Rightarrow> u64 \<Rightarrow> psv" where
  "ps_const n x = \<lparr>vname = 0, voffset = x AND genMask n, vnegate = False\<rparr>"

definition ps_named :: "nat \<Rightarrow> u64 \<Rightarrow> u64 \<Rightarrow> bool \<Rightarrow> psv" where
  "ps_named n nm off neg = \<lparr>vname = nm, voffset = off AND genMask n, vnegate = neg\<rparr>"

definition ps_convert :: "nat \<Rightarrow> psv \<Rightarrow> psv" where
  "ps_convert n a = \<lparr>vname = vname a, voffset = voffset a AND genMask n, vnegate = vnegate a\<rparr>"

definition is_known :: "psv \<Rightarrow> bool" where
  "is_known a \<longleftrightarrow> vname a = 0"

definition ps_eq :: "psv \<Rightarrow> psv \<Rightarrow> bool" where
  "ps_eq a b \<longleftrightarrow> vname a = vname b \<and> (vname a = 0 \<or> vnegate a = vnegate b) \<and> voffset a = voffset b"

definition ps_less :: "psv \<Rightarrow> psv \<Rightarrow> bool" where
  "ps_less a b =
     (if vname a < vname b then True
      else if vname b < vname a then False
      else if vname a \<noteq> 0 \<and> \<not> vnegate a \<and> vnegate b then True
      else if vname a \<noteq> 0 \<and> \<not> vnegate b \<and> vnegate a then False
      else voffset a < voffset b)"

text \<open>\<open>rename\<close>: the rename map gives the names of the values that were renamed so far.\<close>

definition ps_rename :: "(u64 \<times> u64) list \<Rightarrow> psv \<Rightarrow> psv \<times> (u64 \<times> u64) list" where
  "ps_rename rmap a =
     (if vname a = 0 then (a, rmap)
      else case map_of rmap (vname a) of
        None \<Rightarrow> (let nm = of_nat (length rmap) + 1 in (a\<lparr>vname := nm\<rparr>, (vname a, nm) # rmap))
      | Some nm \<Rightarrow> (a\<lparr>vname := nm\<rparr>, rmap))"

section \<open>Memory cells and states\<close>

record mem_cell =
  cell_address :: psv
  cell_data :: psv
  cell_nbytes :: nat
  cell_clobbered :: bool
  cell_written :: bool

definition mem_cell_new :: "psv \<Rightarrow> psv \<Rightarrow> nat \<Rightarrow> mem_cell" where
  "mem_cell_new addr data n =
     \<lparr>cell_address = addr, cell_data = ps_convert 32 data, cell_nbytes = n, cell_clobbered = False, cell_written = False\<rparr>"

definition may_alias :: "mem_cell \<Rightarrow> mem_cell \<Rightarrow> bool" where
  "may_alias c d =
     (let addr1 = cell_address c; addr2 = cell_address d in
      if vname addr1 \<noteq> vname addr2 then True
      else if vname addr1 \<noteq> 0 \<and> vnegate addr1 \<noteq> vnegate addr2 then True
      else
        let offsetDiff = ucast (voffset addr1 - voffset addr2) :: u32 in
        unat offsetDiff < cell_nbytes c \<or> offsetDiff > ucast (- of_nat (cell_nbytes d) :: u64))"

definition must_alias :: "mem_cell \<Rightarrow> mem_cell \<Rightarrow> bool" where
  "must_alias c d \<longleftrightarrow> ps_eq (cell_address c) (cell_address d)"

text \<open>The machine state: the instruction pointer, eight general-purpose registers, six segment registers,
  32 flags, and the list of memory cells.\<close>

record ps_machine =
  r_ip :: psv
  r_gpr :: "psv list"
  r_segreg :: "psv list"
  r_flag :: "psv list"
  r_memory :: "mem_cell list"

text \<open>The policy. \<open>ps_map\<close> is the \<open>read\<close> method of the memory map, if there is a map: it returns the bytes
  it could read at an address.\<close>

record ps_state =
  name_counter :: u64
  cur_state :: ps_machine
  orig_state :: ps_machine
  discard_popped :: bool
  ninsns :: u64
  cur_insn :: "u64 option"
  ps_map :: "(u64 \<Rightarrow> nat \<Rightarrow> u8 list) option"
  regdict :: RegisterDictionary

abbreviation (input) n_gprs :: nat where "n_gprs \<equiv> 8"
abbreviation (input) n_segregs :: nat where "n_segregs \<equiv> 6"
abbreviation (input) n_flags :: nat where "n_flags \<equiv> 32"

section \<open>Values that the domain computes\<close>

text \<open>\<open>ValueType<n>()\<close>.\<close>

definition ps_fresh :: "(ps_state, psv) sem" where
  "ps_fresh = (\<lambda>s. let c = name_counter s + 1 in
     (Inr \<lparr>vname = c, voffset = 0, vnegate = False\<rparr>, s\<lparr>name_counter := c\<rparr>))"

definition ps_signExtend :: "nat \<Rightarrow> nat \<Rightarrow> psv \<Rightarrow> (ps_state, psv) sem" where
  "ps_signExtend m n a =
     (if n = m then retS a
      else if vname a \<noteq> 0 then ps_fresh
      else retS (ps_const n (signExtend m n (voffset a))))"

definition ps_extract :: "nat \<Rightarrow> nat \<Rightarrow> nat \<Rightarrow> psv \<Rightarrow> (ps_state, psv) sem" where
  "ps_extract i j n a =
     (if i = 0 then retS (ps_convert (j - i) a)
      else if vname a \<noteq> 0 then ps_fresh
      else retS (ps_const (j - i) (drop_bit i (voffset a) AND (shl1 (j - i) - 1))))"

definition ps_unsignedExtend :: "nat \<Rightarrow> nat \<Rightarrow> psv \<Rightarrow> (ps_state, psv) sem" where
  "ps_unsignedExtend m n a = retS (ps_convert n a)"

definition ps_add :: "nat \<Rightarrow> psv \<Rightarrow> psv \<Rightarrow> (ps_state, psv) sem" where
  "ps_add n a b =
     (if vname a = vname b \<and> (vname a = 0 \<or> vnegate a \<noteq> vnegate b)
      then retS (ps_const n (voffset a + voffset b))
      else if vname a = 0 \<or> vname b = 0
      then retS (ps_named n (vname a + vname b) (voffset a + voffset b) (vnegate a \<or> vnegate b))
      else ps_fresh)"

text \<open>\<open>n_unknown\<close>, the number of unknown operands.\<close>

definition n_unknown :: "psv list \<Rightarrow> nat" where
  "n_unknown vs = length (filter (\<lambda>v. vname v \<noteq> 0) vs)"

definition ps_addWithCarries :: "nat \<Rightarrow> psv \<Rightarrow> psv \<Rightarrow> psv \<Rightarrow> (ps_state, psv \<times> psv) sem" where
  "ps_addWithCarries n a b c =
     (let sum = voffset a + voffset b + voffset c;
          carries = ps_const n (drop_bit 1 (voffset a XOR voffset b XOR sum)) in
      if n_unknown [a, b, c] \<le> 1 then
        bindS (if n_unknown [a, b, c] = 0 then retS carries else ps_fresh) (\<lambda>carry_out.
        retS (ps_named n (vname a + vname b + vname c) sum (vnegate a \<or> vnegate b \<or> vnegate c), carry_out))
      else if vname a = vname b \<and> vname c = 0 \<and> vnegate a \<noteq> vnegate b then
        retS (ps_const n sum, carries)
      else bindS ps_fresh (\<lambda>carry_out. bindS ps_fresh (\<lambda>result. retS (result, carry_out))))"

definition ps_and :: "nat \<Rightarrow> psv \<Rightarrow> psv \<Rightarrow> (ps_state, psv) sem" where
  "ps_and n a b =
     (if vname a = 0 \<and> voffset a = 0 \<or> vname b = 0 \<and> voffset b = 0 then retS (ps_const n 0)
      else if vname a \<noteq> 0 \<or> vname b \<noteq> 0 then ps_fresh
      else retS (ps_const n (voffset a AND voffset b)))"

definition ps_equalToZero :: "nat \<Rightarrow> psv \<Rightarrow> (ps_state, psv) sem" where
  "ps_equalToZero n a =
     (if vname a \<noteq> 0 then ps_fresh
      else retS (if voffset a \<noteq> 0 then ps_const 1 0 else ps_const 1 1))"

definition ps_invert_value :: "nat \<Rightarrow> psv \<Rightarrow> psv" where
  "ps_invert_value n a =
     (if vname a \<noteq> 0 then ps_named n (vname a) (NOT (voffset a)) (\<not> vnegate a)
      else ps_const n (NOT (voffset a)))"

definition ps_invert :: "nat \<Rightarrow> psv \<Rightarrow> (ps_state, psv) sem" where
  "ps_invert n a = retS (ps_invert_value n a)"

definition ps_concat :: "nat \<Rightarrow> nat \<Rightarrow> psv \<Rightarrow> psv \<Rightarrow> (ps_state, psv) sem" where
  "ps_concat m n a b =
     (if vname a \<noteq> 0 \<or> vname b \<noteq> 0 then ps_fresh
      else retS (ps_const (m + n) (voffset a OR push_bit m (voffset b))))"

definition ps_ite :: "nat \<Rightarrow> psv \<Rightarrow> psv \<Rightarrow> psv \<Rightarrow> (ps_state, psv) sem" where
  "ps_ite n sel ifTrue ifFalse =
     (if ps_eq ifTrue ifFalse then retS ifTrue
      else if vname sel \<noteq> 0 then ps_fresh
      else retS (if voffset sel \<noteq> 0 then ifTrue else ifFalse))"

text \<open>The loops of the bit scans: the first set bit among the positions, in the given order.\<close>

fun scan_bits :: "u64 \<Rightarrow> nat list \<Rightarrow> nat" where
  "scan_bits x [] = 0"
| "scan_bits x (i # is) = (if x AND push_bit i 1 \<noteq> 0 then i else scan_bits x is)"

definition ps_leastSignificantSetBit :: "nat \<Rightarrow> psv \<Rightarrow> (ps_state, psv) sem" where
  "ps_leastSignificantSetBit n a =
     (if vname a \<noteq> 0 then ps_fresh else retS (ps_const n (of_nat (scan_bits (voffset a) [0..<n]))))"

definition ps_mostSignificantSetBit :: "nat \<Rightarrow> psv \<Rightarrow> (ps_state, psv) sem" where
  "ps_mostSignificantSetBit n a =
     (if vname a \<noteq> 0 then ps_fresh else retS (ps_const n (of_nat (scan_bits (voffset a) (rev [0..<n])))))"

definition ps_negate_value :: "nat \<Rightarrow> psv \<Rightarrow> psv" where
  "ps_negate_value n a =
     (if vname a \<noteq> 0 then ps_named n (vname a) (- voffset a) (\<not> vnegate a) else ps_const n (- voffset a))"

definition ps_negate :: "nat \<Rightarrow> psv \<Rightarrow> (ps_state, psv) sem" where
  "ps_negate n a = retS (ps_negate_value n a)"

definition ps_or :: "nat \<Rightarrow> psv \<Rightarrow> psv \<Rightarrow> (ps_state, psv) sem" where
  "ps_or n a b =
     (if ps_eq a b then retS a
      else if vname a = 0 \<and> vname b = 0 then retS (ps_const n (voffset a OR voffset b))
      else if vname a = 0 \<and> voffset a = genMask n then retS a
      else if vname b = 0 \<and> voffset b = genMask n then retS b
      else ps_fresh)"

definition ps_rotateLeft :: "nat \<Rightarrow> nat \<Rightarrow> psv \<Rightarrow> psv \<Rightarrow> (ps_state, psv) sem" where
  "ps_rotateLeft n m a sa =
     (if vname a = 0 \<and> vname sa = 0 then retS (ps_const n (rotateLeft n (voffset a) (unat (voffset sa))))
      else if vname sa = 0 \<and> unat (voffset sa) mod n = 0 then retS a
      else ps_fresh)"

definition ps_rotateRight :: "nat \<Rightarrow> nat \<Rightarrow> psv \<Rightarrow> psv \<Rightarrow> (ps_state, psv) sem" where
  "ps_rotateRight n m a sa =
     (if vname a = 0 \<and> vname sa = 0 then retS (ps_const n (rotateRight n (voffset a) (unat (voffset sa))))
      else if vname sa = 0 \<and> unat (voffset sa) mod n = 0 then retS a
      else ps_fresh)"

definition ps_shiftLeft :: "nat \<Rightarrow> nat \<Rightarrow> psv \<Rightarrow> psv \<Rightarrow> (ps_state, psv) sem" where
  "ps_shiftLeft n m a sa =
     (if vname a = 0 \<and> vname sa = 0 then retS (ps_const n (shiftLeft n (voffset a) (unat (voffset sa))))
      else if vname sa = 0 \<and> voffset sa = 0 then retS a
      else if vname sa = 0 \<and> n \<le> unat (voffset sa) then retS (ps_const n 0)
      else ps_fresh)"

definition ps_shiftRight :: "nat \<Rightarrow> nat \<Rightarrow> psv \<Rightarrow> psv \<Rightarrow> (ps_state, psv) sem" where
  "ps_shiftRight n m a sa =
     (if vname a = 0 \<and> vname sa = 0 then retS (ps_const n (shiftRightLogical n (voffset a) (unat (voffset sa))))
      else if vname sa = 0 \<and> voffset sa = 0 then retS a
      else if vname sa = 0 \<and> n \<le> unat (voffset sa) then retS (ps_const n 0)
      else ps_fresh)"

definition ps_shiftRightArithmetic :: "nat \<Rightarrow> nat \<Rightarrow> psv \<Rightarrow> psv \<Rightarrow> (ps_state, psv) sem" where
  "ps_shiftRightArithmetic n m a sa =
     (if vname a = 0 \<and> vname sa = 0 then retS (ps_const n (shiftRightArithmetic n (voffset a) (unat (voffset sa))))
      else if vname sa = 0 \<and> voffset sa = 0 then retS a
      else ps_fresh)"

abbreviation (input) "division_by_zero \<equiv> failS (PolicyException ''division by zero'')"

text \<open>Both operands of the C++ division are \<open>uint64_t\<close>, so that the sign-extended values are divided
  as unsigned numbers.\<close>

definition ps_signedDivide :: "nat \<Rightarrow> nat \<Rightarrow> psv \<Rightarrow> psv \<Rightarrow> (ps_state, psv) sem" where
  "ps_signedDivide m n a b =
     (if vname b = 0 then
        if voffset b = 0 then division_by_zero
        else if vname a = 0 then retS (ps_const m (signExtend m 64 (voffset a) div signExtend n 64 (voffset b)))
        else if voffset b = 1 then retS a
        else if voffset b = genMask n then retS (ps_negate_value m a)
        else ps_fresh
      else ps_fresh)"

definition ps_signedModulo :: "nat \<Rightarrow> nat \<Rightarrow> psv \<Rightarrow> psv \<Rightarrow> (ps_state, psv) sem" where
  "ps_signedModulo m n a b =
     (if vname a \<noteq> 0 \<or> vname b \<noteq> 0 then ps_fresh
      else if voffset b = 0 then division_by_zero
      else retS (ps_const n (signExtend m 64 (voffset a) mod signExtend n 64 (voffset b))))"

definition ps_signedMultiply :: "nat \<Rightarrow> nat \<Rightarrow> psv \<Rightarrow> psv \<Rightarrow> (ps_state, psv) sem" where
  "ps_signedMultiply m n a b =
     (if vname a = 0 \<and> vname b = 0
      then retS (ps_const (m + n) (signExtend m 64 (voffset a) * signExtend n 64 (voffset b)))
      else if vname b = 0 \<and> voffset b = 0 then retS (ps_const (m + n) 0)
      else if vname b = 0 \<and> voffset b = 1 then ps_signExtend m (m + n) a
      else if vname b = 0 \<and> voffset b = genMask n then ps_signExtend m (m + n) (ps_negate_value m a)
      else if vname a = 0 \<and> voffset a = 0 then retS (ps_const (m + n) 0)
      else if vname a = 0 \<and> voffset a = 1 then ps_signExtend n (m + n) b
      else if vname a = 0 \<and> voffset a = genMask m then ps_signExtend n (m + n) (ps_negate_value n b)
      else ps_fresh)"

definition ps_unsignedDivide :: "nat \<Rightarrow> nat \<Rightarrow> psv \<Rightarrow> psv \<Rightarrow> (ps_state, psv) sem" where
  "ps_unsignedDivide m n a b =
     (if vname b = 0 then
        if voffset b = 0 then division_by_zero
        else if vname a = 0 then retS (ps_const m (voffset a div voffset b))
        else if voffset b = 1 then retS a
        else ps_fresh
      else ps_fresh)"

definition ps_unsignedModulo :: "nat \<Rightarrow> nat \<Rightarrow> psv \<Rightarrow> psv \<Rightarrow> (ps_state, psv) sem" where
  "ps_unsignedModulo m n a b =
     (if vname b = 0 \<and> voffset b = 0 then division_by_zero
      else if vname b = 0 \<and> vname a = 0 then retS (ps_const n (voffset a mod voffset b))
      else if ps_eq (ps_convert 64 a) (ps_convert 64 b) then retS b
      else ps_fresh)"

definition ps_unsignedMultiply :: "nat \<Rightarrow> nat \<Rightarrow> psv \<Rightarrow> psv \<Rightarrow> (ps_state, psv) sem" where
  "ps_unsignedMultiply m n a b =
     (if vname a = 0 \<and> vname b = 0 then retS (ps_const (m + n) (voffset a * voffset b))
      else if vname b = 0 \<and> voffset b = 0 then retS (ps_const (m + n) 0)
      else if vname b = 0 \<and> voffset b = 1 then retS (ps_convert (m + n) a)
      else if vname a = 0 \<and> voffset a = 0 then retS (ps_const (m + n) 0)
      else if vname a = 0 \<and> voffset a = 1 then retS (ps_convert (m + n) b)
      else ps_fresh)"

definition ps_xor :: "nat \<Rightarrow> psv \<Rightarrow> psv \<Rightarrow> (ps_state, psv) sem" where
  "ps_xor n a b =
     (if vname a = 0 \<and> vname b = 0 then retS (ps_const n (voffset a XOR voffset b))
      else if ps_eq a b then retS (ps_const n 0)
      else if vname b = 0 \<and> voffset b = 0 then retS a
      else if vname b = 0 \<and> voffset b = genMask n then retS (ps_invert_value n a)
      else if vname a = 0 \<and> voffset a = 0 then retS b
      else if vname a = 0 \<and> voffset a = genMask n then retS (ps_invert_value n b)
      else ps_fresh)"

end
