(* ===== verification/PSPolicy.thy ===== *)
theory PSPolicy
  imports PartialSymbolic
begin

unbundle bit_operations_syntax

text \<open>
  The state-changing half of the partially symbolic policy: registers (\<^verbatim>\<open>ReadWriteRegisterFragment.h\<close>),
  memory, machine states (\<^verbatim>\<open>BaseSemantics.h\<close>), and the record of operations that the instruction semantics
  is given.
\<close>

section \<open>Register states\<close>

text \<open>Arrays of default-constructed values, and the states that \<open>clear\<close> and \<open>zero\<close> make.\<close>

fun fresh_list :: "nat \<Rightarrow> (ps_state, psv list) sem" where
  "fresh_list 0 = retS []"
| "fresh_list (Suc k) = bindS ps_fresh (\<lambda>v. bindS (fresh_list k) (\<lambda>vs. retS (v # vs)))"

definition machine_clear :: "(ps_state, ps_machine) sem" where
  "machine_clear =
     bindS ps_fresh (\<lambda>ip.
     bindS (fresh_list n_gprs) (\<lambda>gpr.
     bindS (fresh_list n_segregs) (\<lambda>segreg.
     bindS (fresh_list n_flags) (\<lambda>flag.
     retS \<lparr>r_ip = ip, r_gpr = gpr, r_segreg = segreg, r_flag = flag, r_memory = []\<rparr>))))"

definition zero_registers :: "ps_machine \<Rightarrow> ps_machine" where
  "zero_registers m =
     m\<lparr>r_ip := ps_const 32 0, r_gpr := replicate n_gprs (ps_const 32 0),
       r_segreg := replicate n_segregs (ps_const 16 0), r_flag := replicate n_flags (ps_const 1 0)\<rparr>"

definition equal_registers :: "ps_machine \<Rightarrow> ps_machine \<Rightarrow> bool" where
  "equal_registers m1 m2 \<longleftrightarrow>
     list_all2 ps_eq (r_gpr m1) (r_gpr m2) \<and> list_all2 ps_eq (r_segreg m1) (r_segreg m2) \<and>
     list_all2 ps_eq (r_flag m1) (r_flag m2) \<and> ps_eq (r_ip m1) (r_ip m2)"

definition discard_popped_memory :: "ps_machine \<Rightarrow> ps_machine" where
  "discard_popped_memory m =
     (let sp = r_gpr m ! x86_gpr_sp in
      m\<lparr>r_memory := filter (\<lambda>c. let addr = cell_address c in
          vname addr \<noteq> vname sp \<or> vnegate addr \<noteq> vnegate sp \<or>
          sint (ucast (voffset addr) :: u32) \<ge> sint (ucast (voffset sp) :: u32)) (r_memory m)\<rparr>)"

section \<open>Access to the current state\<close>

definition update_cur :: "(ps_machine \<Rightarrow> ps_machine) \<Rightarrow> (ps_state, unit) sem" where
  "update_cur f = modifyS (\<lambda>s. s\<lparr>cur_state := f (cur_state s)\<rparr>)"

definition get_gpr :: "nat \<Rightarrow> (ps_state, psv) sem" where
  "get_gpr i = getS (\<lambda>s. r_gpr (cur_state s) ! i)"

definition set_gpr :: "nat \<Rightarrow> psv \<Rightarrow> (ps_state, unit) sem" where
  "set_gpr i v = update_cur (\<lambda>m. m\<lparr>r_gpr := (r_gpr m)[i := v]\<rparr>)"

definition get_segreg :: "nat \<Rightarrow> (ps_state, psv) sem" where
  "get_segreg i = getS (\<lambda>s. r_segreg (cur_state s) ! i)"

definition set_segreg :: "nat \<Rightarrow> psv \<Rightarrow> (ps_state, unit) sem" where
  "set_segreg i v = update_cur (\<lambda>m. m\<lparr>r_segreg := (r_segreg m)[i := v]\<rparr>)"

definition get_flag :: "nat \<Rightarrow> (ps_state, psv) sem" where
  "get_flag i = getS (\<lambda>s. r_flag (cur_state s) ! i)"

definition set_flag :: "nat \<Rightarrow> psv \<Rightarrow> (ps_state, unit) sem" where
  "set_flag i v = update_cur (\<lambda>m. m\<lparr>r_flag := (r_flag m)[i := v]\<rparr>)"

definition get_ip :: "(ps_state, psv) sem" where
  "get_ip = getS (\<lambda>s. r_ip (cur_state s))"

definition set_ip :: "psv \<Rightarrow> (ps_state, unit) sem" where
  "set_ip v = update_cur (\<lambda>m. m\<lparr>r_ip := v\<rparr>)"

section \<open>Registers\<close>

text \<open>The texts of the exceptions are shortened to the part that is constant.\<close>

definition ps_findRegister :: "string \<Rightarrow> nat \<Rightarrow> (ps_state, RegisterDescriptor) sem" where
  "ps_findRegister name n =
     bindS (getS regdict) (\<lambda>d.
       case dict_lookup d name of
         None \<Rightarrow> failS (PolicyException ''Invalid register'')
       | Some reg \<Rightarrow>
           if n > 0 \<and> nbits reg \<noteq> n then failS (PolicyException ''Invalid register size'') else retS reg)"

abbreviation (input) "not_implemented \<equiv> PolicyException ''register not implemented in semantic policy''"

text \<open>The value made of consecutive flags: a nest of \<open>concat\<close>s, the innermost evaluated first.\<close>

fun concat_flags :: "psv list \<Rightarrow> (ps_state, psv) sem" where
  "concat_flags [] = failS (Abort ''no flags'')"
| "concat_flags [f] = retS f"
| "concat_flags (f # fs) = bindS (concat_flags fs) (\<lambda>rest. ps_concat 1 (length fs) f rest)"

definition read_flags :: "nat \<Rightarrow> nat \<Rightarrow> (ps_state, psv list) sem" where
  "read_flags i j = getS (\<lambda>s. map (\<lambda>k. r_flag (cur_state s) ! k) [i..<j])"

definition read_bit_register :: "RegisterDescriptor \<Rightarrow> (ps_state, psv) sem" where
  "read_bit_register reg =
     seqS (guardS (majr reg = x86_regclass_flags)
             (PolicyException ''bit access only valid for FLAGS/EFLAGS register''))
     (seqS (guardS (minr reg = 0 \<and> offset reg < n_flags) not_implemented)
     (seqS (guardS (nbits reg = 1) (PolicyException ''semantic policy supports only single-bit flags''))
     (lift1 (ps_unsignedExtend 1 1) (get_flag (offset reg)))))"

definition read_byte_register :: "RegisterDescriptor \<Rightarrow> (ps_state, psv) sem" where
  "read_byte_register reg =
     seqS (guardS (majr reg = x86_regclass_gpr)
             (PolicyException ''byte access only valid for general purpose registers''))
     (seqS (guardS (minr reg < n_gprs) not_implemented)
     (seqS (guardS (nbits reg = 8) (Abort ''reg.get_nbits()==8''))
     (if offset reg = 0 then lift1 (ps_extract 0 8 32) (get_gpr (minr reg))
      else if offset reg = 8 then lift1 (ps_extract 8 16 32) (get_gpr (minr reg))
      else failS (PolicyException ''invalid one-byte access offset''))))"

definition read_word_register :: "RegisterDescriptor \<Rightarrow> (ps_state, psv) sem" where
  "read_word_register reg =
     seqS (guardS (nbits reg = 16) (PolicyException ''invalid 2-byte register''))
     (seqS (guardS (offset reg = 0)
              (PolicyException ''policy does not support non-zero offsets for word granularity register access''))
     (if majr reg = x86_regclass_segment then
        seqS (guardS (minr reg < n_segregs) not_implemented)
        (lift1 (ps_unsignedExtend 16 16) (get_segreg (minr reg)))
      else if majr reg = x86_regclass_gpr then
        seqS (guardS (minr reg < n_gprs) not_implemented)
        (lift1 (ps_extract 0 16 32) (get_gpr (minr reg)))
      else if majr reg = x86_regclass_flags then
        seqS (guardS (minr reg = 0) not_implemented)
        (lift1 (ps_unsignedExtend 16 16) (bindS (read_flags 0 16) concat_flags))
      else failS (PolicyException ''word access not valid for this register type'')))"

definition read_dword_register :: "RegisterDescriptor \<Rightarrow> (ps_state, psv) sem" where
  "read_dword_register reg =
     seqS (guardS (offset reg = 0)
             (PolicyException ''policy does not support non-zero offsets for double word granularity register access''))
     (if majr reg = x86_regclass_gpr then
        seqS (guardS (minr reg < n_gprs) not_implemented)
        (lift1 (ps_unsignedExtend 32 32) (get_gpr (minr reg)))
      else if majr reg = x86_regclass_ip then
        seqS (guardS (minr reg = 0) not_implemented)
        (lift1 (ps_unsignedExtend 32 32) get_ip)
      else if majr reg = x86_regclass_segment then
        seqS (guardS (minr reg < n_segregs \<and> nbits reg = 16) not_implemented)
        (lift1 (ps_unsignedExtend 16 32) (get_segreg (minr reg)))
      else if majr reg = x86_regclass_flags then
        seqS (guardS (minr reg = 0) not_implemented)
        (seqS (guardS (nbits reg = 32) (PolicyException ''register is not 32 bits''))
        (lift1 (ps_unsignedExtend 32 32)
          (lift2 (ps_concat 16 16)
             (bindS (ps_findRegister ''flags'' 16) read_word_register)
             (bindS (read_flags 16 32) concat_flags))))
      else failS (PolicyException ''double word access not valid for this register type''))"

definition ps_readRegister :: "nat \<Rightarrow> RegisterDescriptor \<Rightarrow> (ps_state, psv) sem" where
  "ps_readRegister n reg =
     (if n = 1 then read_bit_register reg
      else if n = 8 then read_byte_register reg
      else if n = 16 then read_word_register reg
      else if n = 32 then read_dword_register reg
      else failS (PolicyException ''invalid register access width''))"

definition write_bit_register :: "RegisterDescriptor \<Rightarrow> psv \<Rightarrow> (ps_state, unit) sem" where
  "write_bit_register reg value =
     seqS (guardS (majr reg = x86_regclass_flags)
             (PolicyException ''bit access only valid for FLAGS/EFLAGS register''))
     (seqS (guardS (minr reg = 0 \<and> offset reg < n_flags) not_implemented)
     (seqS (guardS (nbits reg = 1) (PolicyException ''semantic policy supports only single-bit flags''))
     (lift1 (set_flag (offset reg)) (ps_unsignedExtend 1 1 value))))"

definition write_byte_register :: "RegisterDescriptor \<Rightarrow> psv \<Rightarrow> (ps_state, unit) sem" where
  "write_byte_register reg value =
     seqS (guardS (majr reg = x86_regclass_gpr)
             (PolicyException ''byte access only valid for general purpose registers.''))
     (seqS (guardS (minr reg < n_gprs) not_implemented)
     (seqS (guardS (nbits reg = 8) (Abort ''reg.get_nbits()==8''))
     (if offset reg = 0 then
        lift1 (set_gpr (minr reg))
          (lift2 (ps_concat 8 24) (ps_signExtend 8 8 value) (lift1 (ps_extract 8 32 32) (get_gpr (minr reg))))
      else if offset reg = 8 then
        lift1 (set_gpr (minr reg))
          (lift2 (ps_concat 8 24) (lift1 (ps_extract 0 8 32) (get_gpr (minr reg)))
             (lift2 (ps_concat 8 16) (ps_unsignedExtend 8 8 value)
                (lift1 (ps_extract 16 32 32) (get_gpr (minr reg)))))
      else failS (PolicyException ''invalid byte access offset''))))"

text \<open>\<open>flag[k] = extract<k, k+1>(value)\<close> for the flags \<open>k\<close> of a list.\<close>

definition write_flags :: "nat \<Rightarrow> nat list \<Rightarrow> psv \<Rightarrow> (ps_state, unit) sem" where
  "write_flags n ks value = blockS (map (\<lambda>k. lift1 (set_flag k) (ps_extract k (k + 1) n value)) ks)"

definition write_word_register :: "RegisterDescriptor \<Rightarrow> psv \<Rightarrow> (ps_state, unit) sem" where
  "write_word_register reg value =
     seqS (guardS (nbits reg = 16) (PolicyException ''invalid 2-byte register''))
     (seqS (guardS (offset reg = 0)
              (PolicyException ''policy does not support non-zero offsets for word granularity register access''))
     (if majr reg = x86_regclass_segment then
        seqS (guardS (minr reg < n_segregs) not_implemented)
        (lift1 (set_segreg (minr reg)) (ps_unsignedExtend 16 16 value))
      else if majr reg = x86_regclass_gpr then
        seqS (guardS (minr reg < n_gprs) not_implemented)
        (lift1 (set_gpr (minr reg))
           (lift2 (ps_concat 16 16) (ps_unsignedExtend 16 16 value)
              (lift1 (ps_extract 16 32 32) (get_gpr (minr reg)))))
      else if majr reg = x86_regclass_flags then
        seqS (guardS (minr reg = 0) not_implemented)
        (write_flags 16 [0..<16] value)
      else failS (PolicyException ''word access not valid for this register type'')))"

definition write_dword_register :: "RegisterDescriptor \<Rightarrow> psv \<Rightarrow> (ps_state, unit) sem" where
  "write_dword_register reg value =
     seqS (guardS (offset reg = 0)
             (PolicyException ''policy does not support non-zero offsets for double word granularity register access''))
     (if majr reg = x86_regclass_gpr then
        seqS (guardS (minr reg < n_gprs) not_implemented)
        (lift1 (set_gpr (minr reg)) (ps_signExtend 32 32 value))
      else if majr reg = x86_regclass_ip then
        seqS (guardS (minr reg = 0) not_implemented)
        (lift1 set_ip (ps_unsignedExtend 32 32 value))
      else if majr reg = x86_regclass_flags then
        seqS (guardS (minr reg = 0) not_implemented)
        (seqS (guardS (nbits reg = 32) (PolicyException ''register is not 32 bits''))
        (seqS (bindS (ps_findRegister ''flags'' 16) (\<lambda>flags. lift1 (write_word_register flags) (ps_unsignedExtend 32 16 value)))
        (write_flags 32 [16..<32] value)))
      else failS (PolicyException ''double word access not valid for this register type''))"

definition ps_writeRegister :: "nat \<Rightarrow> RegisterDescriptor \<Rightarrow> psv \<Rightarrow> (ps_state, unit) sem" where
  "ps_writeRegister n reg value =
     (if n = 1 then write_bit_register reg value
      else if n = 8 then write_byte_register reg value
      else if n = 16 then write_word_register reg value
      else if n = 32 then write_dword_register reg value
      else failS (PolicyException ''invalid register access width''))"

section \<open>Memory\<close>

text \<open>
  The first loop of \<open>mem_read\<close>: the cell at the same address, with its clobbered flag cleared and new data
  stored if it was clobbered, or else whether a written cell may overlap.
\<close>

fun mem_scan :: "mem_cell \<Rightarrow> bool \<Rightarrow> mem_cell list \<Rightarrow> (psv \<times> mem_cell list) option \<times> bool" where
  "mem_scan new aliased [] = (None, aliased)"
| "mem_scan new aliased (c # cs) =
     (if must_alias new c then
        if cell_clobbered c
        then (Some (cell_data new, c\<lparr>cell_clobbered := False, cell_data := cell_data new\<rparr> # cs), aliased)
        else (Some (cell_data c, c # cs), aliased)
      else
        case mem_scan new (aliased \<or> may_alias new c \<and> cell_written c) cs of
          (Some (v, cs'), al) \<Rightarrow> (Some (v, c # cs'), al)
        | (None, al) \<Rightarrow> (None, al))"

text \<open>The bytes read from the memory map, little endian. A shifted byte is a signed \<open>int\<close> before it is
  widened to 64 bits.\<close>

definition map_bytes_value :: "u8 list \<Rightarrow> u64" where
  "map_bytes_value buf =
     fold (\<lambda>i n. n OR scast (push_bit (8 * i) (ucast (buf ! i)) :: u32)) [0..<length buf] 0"

text \<open>
  \<open>mem_read\<close> on a state with the cells \<open>mem\<close>; \<open>is_orig\<close> tells whether that state is the policy's original
  state. The result is the value read and the new cells.
\<close>

definition mem_read :: "bool \<Rightarrow> nat \<Rightarrow> psv \<Rightarrow> mem_cell list \<Rightarrow> (ps_state, psv \<times> mem_cell list) sem" where
  "mem_read is_orig n addr mem =
     bindS ps_fresh (\<lambda>v.
     let new_cell = mem_cell_new addr v (n div 8) in
     case mem_scan new_cell False mem of
       (Some (data, mem'), _) \<Rightarrow> retS (ps_convert n data, mem')
     | (None, aliased) \<Rightarrow>
         if \<not> aliased \<and> \<not> is_orig then
           bindS (getS (\<lambda>s. find (must_alias new_cell) (r_memory (orig_state s)))) (\<lambda>found.
           case found of
             Some c \<Rightarrow>
               seqS (guardS (\<not> cell_clobbered c) (Abort ''is_clobbered''))
               (seqS (guardS (\<not> cell_written c) (Abort ''is_written''))
               (retS (ps_convert n (cell_data c), mem @ [c])))
           | None \<Rightarrow>
               bindS (getS ps_map) (\<lambda>map.
               bindS (case map of
                        Some rd \<Rightarrow>
                          if is_known addr then
                            seqS (guardS (n div 8 < 8) (Abort ''Len/8 < sizeof buf''))
                            (let buf = rd (voffset addr) (n div 8) in
                             retS (if length buf = n div 8
                                   then new_cell\<lparr>cell_data := ps_const 32 (map_bytes_value buf)\<rparr> else new_cell))
                          else retS new_cell
                      | None \<Rightarrow> retS new_cell) (\<lambda>new_cell.
               seqS (modifyS (\<lambda>s. s\<lparr>orig_state := (orig_state s)\<lparr>r_memory := r_memory (orig_state s) @ [new_cell]\<rparr>\<rparr>))
               (retS (ps_convert n (cell_data new_cell), mem @ [new_cell])))))
         else retS (ps_convert n (cell_data new_cell), mem @ [new_cell]))"

datatype MemRefType = MRT_STACK_PTR | MRT_FRAME_PTR | MRT_OTHER_PTR

definition memory_reference_type :: "ps_machine \<Rightarrow> psv \<Rightarrow> MemRefType" where
  "memory_reference_type m addr =
     (let sp = r_gpr m ! x86_gpr_sp; bp = r_gpr m ! x86_gpr_bp in
      if vname addr \<noteq> 0 then
        if vname addr = vname sp then MRT_STACK_PTR
        else if vname addr = vname bp then MRT_FRAME_PTR
        else MRT_OTHER_PTR
      else if ps_eq addr sp then MRT_STACK_PTR
      else if ps_eq addr bp then MRT_FRAME_PTR
      else MRT_OTHER_PTR)"

text \<open>The loop of \<open>mem_write\<close> on one cell.\<close>

definition mem_write_cell :: "bool \<Rightarrow> ps_machine \<Rightarrow> mem_cell \<Rightarrow> mem_cell \<Rightarrow> mem_cell" where
  "mem_write_cell discard m new c =
     (if must_alias new c then new
      else if discard \<and> memory_reference_type m (cell_address new) \<noteq> memory_reference_type m (cell_address c) then c
      else if may_alias new c then c\<lparr>cell_clobbered := True\<rparr>
      else c)"

definition mem_write :: "bool \<Rightarrow> nat \<Rightarrow> psv \<Rightarrow> psv \<Rightarrow> ps_machine \<Rightarrow> ps_machine" where
  "mem_write discard n addr data m =
     (let new_cell = (mem_cell_new addr data (n div 8))\<lparr>cell_written := True\<rparr>;
          mem = map (mem_write_cell discard m new_cell) (r_memory m) in
      m\<lparr>r_memory := (if list_ex (must_alias new_cell) (r_memory m) then mem else mem @ [new_cell])\<rparr>)"

definition ps_readMemory :: "nat \<Rightarrow> nat \<Rightarrow> psv \<Rightarrow> psv \<Rightarrow> (ps_state, psv) sem" where
  "ps_readMemory n segreg addr cond =
     bindS (getS (\<lambda>s. r_memory (cur_state s))) (\<lambda>mem.
     bindS (mem_read False n addr mem) (\<lambda>(v, mem').
     seqS (update_cur (\<lambda>m. m\<lparr>r_memory := mem'\<rparr>)) (retS v)))"

definition ps_writeMemory :: "nat \<Rightarrow> nat \<Rightarrow> psv \<Rightarrow> psv \<Rightarrow> psv \<Rightarrow> (ps_state, unit) sem" where
  "ps_writeMemory n segreg addr data cond =
     bindS (getS discard_popped) (\<lambda>discard. update_cur (mem_write discard n addr data))"

section \<open>Instructions and blocks\<close>

definition ps_startInstruction :: "u64 \<Rightarrow> (ps_state, unit) sem" where
  "ps_startInstruction addr =
     modifyS (\<lambda>s.
       let cur = (cur_state s)\<lparr>r_ip := ps_const 32 addr\<rparr>;
           s' = s\<lparr>cur_state := cur, ninsns := ninsns s + 1, cur_insn := Some addr\<rparr> in
       if ninsns s = 0 then s'\<lparr>orig_state := cur\<rparr> else s')"

definition ps_finishInstruction :: "(ps_state, unit) sem" where
  "ps_finishInstruction =
     modifyS (\<lambda>s.
       let s' = (if discard_popped s then s\<lparr>cur_state := discard_popped_memory (cur_state s)\<rparr> else s) in
       s'\<lparr>cur_insn := None\<rparr>)"

text \<open>\<open>interrupt\<close> and \<open>sysenter\<close> replace the current state by a default-constructed one.\<close>

definition ps_reset :: "(ps_state, unit) sem" where
  "ps_reset = bindS machine_clear (\<lambda>m. modifyS (\<lambda>s. s\<lparr>cur_state := m\<rparr>))"

section \<open>The policy\<close>

definition ps_policy :: "(ps_state, psv) policy" where
  "ps_policy =
     \<lparr>p_findRegister = ps_findRegister, p_readRegister = ps_readRegister, p_writeRegister = ps_writeRegister,
      p_readMemory = ps_readMemory, p_writeMemory = ps_writeMemory,
      p_number = ps_const, p_undefined = (\<lambda>_. ps_fresh),
      p_signExtend = ps_signExtend, p_unsignedExtend = ps_unsignedExtend, p_extract = ps_extract,
      p_concat = ps_concat, p_add = ps_add, p_addWithCarries = ps_addWithCarries,
      p_and = ps_and, p_or = ps_or, p_xor = ps_xor, p_invert = ps_invert, p_negate = ps_negate,
      p_equalToZero = ps_equalToZero, p_ite = ps_ite,
      p_leastSignificantSetBit = ps_leastSignificantSetBit, p_mostSignificantSetBit = ps_mostSignificantSetBit,
      p_rotateLeft = ps_rotateLeft, p_rotateRight = ps_rotateRight,
      p_shiftLeft = ps_shiftLeft, p_shiftRight = ps_shiftRight, p_shiftRightArithmetic = ps_shiftRightArithmetic,
      p_signedDivide = ps_signedDivide, p_signedModulo = ps_signedModulo, p_signedMultiply = ps_signedMultiply,
      p_unsignedDivide = ps_unsignedDivide, p_unsignedModulo = ps_unsignedModulo,
      p_unsignedMultiply = ps_unsignedMultiply,
      p_filterCallTarget = retS, p_filterReturnTarget = retS, p_filterIndirectJumpTarget = retS,
      p_hlt = retS (), p_cpuid = retS (), p_rdtsc = retS (ps_const 64 0),
      p_interrupt = (\<lambda>_. ps_reset), p_sysenter = ps_reset,
      p_startInstruction = ps_startInstruction, p_finishInstruction = ps_finishInstruction,
      p_startBlock = (\<lambda>_. retS ()), p_finishBlock = (\<lambda>_. retS ())\<rparr>"

text \<open>The constructor: the members \<open>orig_state\<close> and \<open>cur_state\<close> are default-constructed in the order of their
  declaration, the register dictionary is that of the Pentium 4, and the original state is then a copy
  of the current one. The argument is the value of the global name counter.\<close>

definition ps_new :: "u64 \<Rightarrow> ps_state option" where
  "ps_new counter =
     do { dict \<leftarrow> dictionary_pentium4;
          let m0 = \<lparr>r_ip = ps_const 32 0, r_gpr = [], r_segreg = [], r_flag = [], r_memory = []\<rparr>;
          let s0 = \<lparr>name_counter = counter, cur_state = m0, orig_state = m0, discard_popped = False, ninsns = 0,
                    cur_insn = None, ps_map = None, regdict = dict\<rparr>;
          case bindS machine_clear (\<lambda>_. machine_clear) s0 of
            (Inr cur, s1) \<Rightarrow> Some (s1\<lparr>cur_state := cur, orig_state := cur\<rparr>)
          | (Inl _, _) \<Rightarrow> None }"

text \<open>Memory and states for comparison.\<close>

fun memory_for_equality :: "mem_cell list \<Rightarrow> mem_cell list \<Rightarrow> (ps_state, mem_cell list \<times> mem_cell list) sem" where
  "memory_for_equality orig [] = retS ([], orig)"
| "memory_for_equality orig (c # cs) =
     (if cell_written c then
        bindS (mem_read True 32 (cell_address c) orig) (\<lambda>(v, orig').
        bindS (memory_for_equality orig' cs) (\<lambda>(kept, orig'').
        retS (if \<not> ps_eq (cell_data c) v then c # kept else kept, orig'')))
      else memory_for_equality orig cs)"

end
