(* ===== verification/Carries.thy ===== *)
theory Carries
  imports IntegerOps
begin

unbundle bit_operations_syntax

text \<open>
  Arithmetic behind the status flags: the carry out of each bit of a sum as the semantics computes it,
  and what carry, overflow, sign and zero say about unsigned and signed comparisons.
\<close>

text \<open>The carries of \<open>x + y + c\<close>: bit \<open>i\<close> is the carry out of bit \<open>i\<close>.\<close>

definition carries_of :: "nat \<Rightarrow> u64 \<Rightarrow> u64 \<Rightarrow> u64 \<Rightarrow> u64" where
  "carries_of n x y c =
     (let x = take_bit n x; y = take_bit n y in drop_bit 1 (x XOR y XOR (x + y + take_bit 1 c)))"

lemma bit_sum_nat:
  fixes a b c :: nat
  assumes "c \<le> 1"
  shows "bit (a + b + c) k \<longleftrightarrow> (bit a k \<noteq> bit b k) \<noteq> (2 ^ k \<le> a mod 2 ^ k + b mod 2 ^ k + c)"
proof -
  let ?r = "a mod 2 ^ k + b mod 2 ^ k + c"
  have eq: "a + b + c = 2 ^ k * (a div 2 ^ k + b div 2 ^ k) + ?r"
    by (simp add: distrib_left add.assoc [symmetric])
  have "(2 ^ k * q + r) div 2 ^ k = q + r div 2 ^ k" for q r :: nat by simp
  then have d: "(a + b + c) div 2 ^ k = a div 2 ^ k + b div 2 ^ k + ?r div 2 ^ k" by (subst eq) (simp only:)
  have "a mod 2 ^ k < 2 ^ k" "b mod 2 ^ k < 2 ^ k" by simp_all
  then have "?r < 2 * 2 ^ k" using assms by linarith
  then have "?r div 2 ^ k < 2" by (simp add: less_mult_imp_div_less)
  then have "?r div 2 ^ k = of_bool (2 ^ k \<le> ?r)"
    by (cases "2 ^ k \<le> ?r") (simp_all add: le_div_geq)
  then show ?thesis by (auto simp: bit_iff_odd d)
qed

lemma bit_carries_of:
  assumes "n < 64" "i < n"
  shows "bit (carries_of n x y c) i \<longleftrightarrow>
     2 ^ Suc i \<le> unat x mod 2 ^ Suc i + unat y mod 2 ^ Suc i + unat c mod 2"
proof -
  let ?x = "take_bit n x" and ?y = "take_bit n y" and ?c = "take_bit 1 c"
  have lt: "unat ?x < 2 ^ n" "unat ?y < 2 ^ n" "unat ?c \<le> 1"
    using unat_trunc_less [of 1 c] by (simp_all add: unat_trunc_less)
  have "(2 :: nat) ^ n \<le> 2 ^ 63" using assms(1) by (intro power_increasing) simp_all
  with lt have "unat ?x + unat ?y < 2 ^ 64" "unat ?x + unat ?y + unat ?c < 2 ^ 64" by simp_all
  then have "unat (?x + ?y) = unat ?x + unat ?y" "unat (?x + ?y + ?c) = unat ?x + unat ?y + unat ?c"
    by (simp_all add: unat_word_ariths)
  then have "bit (?x + ?y + ?c) (Suc i) \<longleftrightarrow> (bit ?x (Suc i) \<noteq> bit ?y (Suc i)) \<noteq>
      (2 ^ Suc i \<le> unat ?x mod 2 ^ Suc i + unat ?y mod 2 ^ Suc i + unat ?c)"
    using bit_sum_nat [OF lt(3), of "unat ?x" "unat ?y" "Suc i"]
    by (simp only: unat_bit_word [symmetric])
  moreover have "unat ?x mod 2 ^ Suc i = unat x mod 2 ^ Suc i" "unat ?y mod 2 ^ Suc i = unat y mod 2 ^ Suc i"
    using assms(2) by (simp_all only: unat_take_bit_word mod_mod_cancel [OF le_imp_power_dvd [OF Suc_leI]])
  moreover have "unat ?c = unat c mod 2" by (simp only: unat_take_bit_word power_one_right)
  ultimately show ?thesis
    by (simp only: carries_of_def Let_def bit_drop_bit_eq comp_apply bit_xor_iff plus_1_eq_Suc) blast
qed

section \<open>Signed overflow\<close>

text \<open>The signed reading of \<open>A\<close> in a type of \<open>2h\<close> values.\<close>

definition half_signed :: "nat \<Rightarrow> nat \<Rightarrow> int" where
  "half_signed h A = (if A < h then int A else int A - 2 * int h)"

lemma sval_half_signed: "0 < n \<Longrightarrow> sval n x = half_signed (2 ^ (n - 1)) (unat x mod 2 ^ n)"
  using power_Suc [of "2 :: int" "n - 1"] by (simp add: sval_def half_signed_def Let_def)

lemma overflow_arith:
  assumes "A < 2 * h" "B < 2 * h" "C \<le> 1"
  shows "((2 * h \<le> A + B + C) \<noteq> (h \<le> A mod h + B mod h + C)) \<longleftrightarrow>
     half_signed h A + half_signed h B + int C \<notin> {- int h ..< int h}"
proof -
  have m: "K mod h = (if K < h then K else K - h)" if "K < 2 * h" for K
    using that by (auto simp: le_mod_geq)
  show ?thesis using assms by (simp add: m half_signed_def) linarith
qed

lemma sign_overflow_arith:
  assumes "A < 2 * h" "B < 2 * h" "C \<le> 1"
  shows "((h \<le> (A + B + C) mod (2 * h)) \<noteq> ((2 * h \<le> A + B + C) \<noteq> (h \<le> A mod h + B mod h + C))) \<longleftrightarrow>
     half_signed h A + half_signed h B + int C < 0"
proof -
  have m: "(A + B + C) mod (2 * h) = (if A + B + C < 2 * h then A + B + C else A + B + C - 2 * h)"
    using assms by (auto simp: le_mod_geq)
  show ?thesis unfolding overflow_arith [OF assms] m using assms
    by (simp add: half_signed_def) linarith
qed

section \<open>Flags of additions and subtractions\<close>

text \<open>The flags of \<open>x + y + c\<close> in \<open>n\<close> bits, as the semantics reads them off the carries.\<close>

definition carry_flag :: "nat \<Rightarrow> u64 \<Rightarrow> u64 \<Rightarrow> u64 \<Rightarrow> bool" where
  "carry_flag n x y c \<longleftrightarrow> bit (carries_of n x y c) (n - 1)"

definition adjust_flag :: "nat \<Rightarrow> u64 \<Rightarrow> u64 \<Rightarrow> u64 \<Rightarrow> bool" where
  "adjust_flag n x y c \<longleftrightarrow> bit (carries_of n x y c) 3"

definition overflow_flag :: "nat \<Rightarrow> u64 \<Rightarrow> u64 \<Rightarrow> u64 \<Rightarrow> bool" where
  "overflow_flag n x y c \<longleftrightarrow> bit (carries_of n x y c) (n - 1) \<noteq> bit (carries_of n x y c) (n - 2)"

definition sign_flag :: "nat \<Rightarrow> u64 \<Rightarrow> u64 \<Rightarrow> u64 \<Rightarrow> bool" where
  "sign_flag n x y c \<longleftrightarrow> bit (x + y + take_bit 1 c) (n - 1)"

abbreviation (input) uval :: "nat \<Rightarrow> u64 \<Rightarrow> nat" where "uval n x \<equiv> unat x mod 2 ^ n"

lemma uval_not: "n \<le> 64 \<Longrightarrow> uval n (NOT x) = 2 ^ n - 1 - uval n x"
proof -
  assume n: "n \<le> 64"
  have m: "unat (mask n :: u64) = 2 ^ n - 1"
  proof -
    have "unat (mask n :: u64) = mask n"
      using n by (intro bit_eqI) (auto simp: bit_unsigned_iff bit_mask_iff)
    then show ?thesis by (simp only: mask_eq_exp_minus_1)
  qed
  have le: "take_bit n x \<le> mask n"
    using unat_trunc_less [of n x] by (simp add: word_le_nat_alt m)
  have "unat (take_bit n (NOT x)) = 2 ^ n - 1 - unat (take_bit n x)"
    by (simp only: take_bit_not_eq_mask_diff unat_sub [OF le] m)
  then show ?thesis by (simp only: unat_take_bit_word)
qed

lemma uval_add:
  assumes "n \<le> 64"
  shows "uval n (x + y) = (uval n x + uval n y) mod 2 ^ n"
proof -
  have "(2 :: nat) ^ n dvd 2 ^ 64" using assms by (rule le_imp_power_dvd)
  then show ?thesis by (simp add: unat_word_ariths mod_mod_cancel mod_simps)
qed

lemma bit_uval: "0 < n \<Longrightarrow> bit x (n - 1) \<longleftrightarrow> 2 ^ (n - 1) \<le> uval n (x :: u64)"
proof -
  assume n: "0 < n"
  have "bit x (n - 1) \<longleftrightarrow> bit (take_bit n x) (n - 1)" using n by (simp add: bit_take_bit_iff)
  also have "\<dots> \<longleftrightarrow> 2 ^ (n - 1) \<le> unat (take_bit n x)"
    using n unat_trunc_less [of n x] by (intro bit_top_word) simp
  finally show ?thesis by (simp only: unat_take_bit_word)
qed

lemma uval_carry: "0 < n \<Longrightarrow> uval n (take_bit 1 c) = unat c mod 2"
proof -
  assume "0 < n"
  then have "(2 :: nat) \<le> 2 ^ n" using power_increasing [of 1 n "2 :: nat"] by simp
  then have "unat c mod 2 < 2 ^ n" by (intro less_le_trans [OF mod_less_divisor]) simp_all
  then show ?thesis by (simp only: unat_take_bit_word power_one_right mod_less)
qed

text \<open>Everything follows from one picture: \<open>A\<close>, \<open>B\<close> and \<open>C\<close> are the operands as numbers, \<open>h\<close> is half the range.\<close>

lemma flags_as_numbers:
  fixes x y c :: u64
  assumes "2 \<le> n" "n < 64"
  defines "A \<equiv> uval n x" and "B \<equiv> uval n y" and "C \<equiv> unat c mod 2" and "h \<equiv> 2 ^ (n - 1)"
  shows "carry_flag n x y c \<longleftrightarrow> 2 * h \<le> A + B + C"
    and "overflow_flag n x y c \<longleftrightarrow> (2 * h \<le> A + B + C) \<noteq> (h \<le> A mod h + B mod h + C)"
    and "sign_flag n x y c \<longleftrightarrow> h \<le> (A + B + C) mod (2 * h)"
    and "A < 2 * h" "B < 2 * h" "C \<le> 1"
proof -
  have n: "2 ^ n = 2 * h" using assms(1) power_Suc [of "2 :: nat" "n - 1"] by (simp add: h_def)
  have e: "Suc (n - 1) = n" "Suc (n - 2) = n - 1" using assms(1) by simp_all
  have top: "bit (carries_of n x y c) (n - 1) \<longleftrightarrow> 2 * h \<le> A + B + C"
    using bit_carries_of [of n "n - 1" x y c] assms(1,2) by (simp add: e n A_def B_def C_def)
  have "uval (n - 1) x = A mod h" "uval (n - 1) y = B mod h"
    by (simp_all only: A_def B_def h_def mod_mod_cancel [OF le_imp_power_dvd [OF diff_le_self]])
  then have nxt: "bit (carries_of n x y c) (n - 2) \<longleftrightarrow> h \<le> A mod h + B mod h + C"
    using bit_carries_of [of n "n - 2" x y c] assms(1,2) by (simp add: e C_def) (simp add: h_def)
  show "carry_flag n x y c \<longleftrightarrow> 2 * h \<le> A + B + C"
    "overflow_flag n x y c \<longleftrightarrow> (2 * h \<le> A + B + C) \<noteq> (h \<le> A mod h + B mod h + C)"
    by (simp_all only: carry_flag_def overflow_flag_def top nxt)
  have "uval n (x + y + take_bit 1 c) = (A + B + C) mod (2 * h)"
  proof -
    have "uval n (x + y + take_bit 1 c) = (uval n (x + y) + unat c mod 2) mod 2 ^ n"
      using assms(1,2) uval_carry [of n c] uval_add [of n "x + y" "take_bit 1 c"] by (simp del: take_bit_Suc_from_most)
    also have "uval n (x + y) = (A + B) mod 2 ^ n" using assms(1,2) by (simp add: uval_add A_def B_def)
    finally show ?thesis by (simp only: C_def n mod_add_left_eq)
  qed
  then show "sign_flag n x y c \<longleftrightarrow> h \<le> (A + B + C) mod (2 * h)"
    using bit_uval [of n "x + y + take_bit 1 c"] assms(1) by (simp add: sign_flag_def h_def)
  show "A < 2 * h" "B < 2 * h" "C \<le> 1" by (simp_all add: n [symmetric] A_def B_def C_def)
qed

lemma carry_flag_iff:
  assumes "2 \<le> n" "n < 64"
  shows "carry_flag n x y c \<longleftrightarrow> 2 ^ n \<le> uval n x + uval n y + unat c mod 2"
proof -
  have "2 * 2 ^ (n - 1) = (2 :: nat) ^ n" using assms(1) power_Suc [of "2 :: nat" "n - 1"] by simp
  with flags_as_numbers(1) [OF assms] show ?thesis by simp
qed

lemma adjust_flag_iff:
  assumes "4 \<le> n" "n < 64"
  shows "adjust_flag n x y c \<longleftrightarrow> 16 \<le> uval 4 x + uval 4 y + unat c mod 2"
  using bit_carries_of [of n 3 x y c] assms by (simp add: adjust_flag_def)

lemma overflow_flag_iff:
  assumes "2 \<le> n" "n < 64"
  shows "overflow_flag n x y c \<longleftrightarrow>
     sval n x + sval n y + int (unat c mod 2) \<notin> {- (2 ^ (n - 1)) ..< 2 ^ (n - 1)}"
  using flags_as_numbers(2) [OF assms] overflow_arith [OF flags_as_numbers(4-6) [OF assms]] assms
  by (simp add: sval_half_signed)

lemma sign_overflow_iff:
  assumes "2 \<le> n" "n < 64"
  shows "(sign_flag n x y c \<noteq> overflow_flag n x y c) \<longleftrightarrow> sval n x + sval n y + int (unat c mod 2) < 0"
  using flags_as_numbers(2,3) [OF assms] sign_overflow_arith [OF flags_as_numbers(4-6) [OF assms]] assms
  by (simp add: sval_half_signed)

lemma half_signed_not: "A < 2 * h \<Longrightarrow> half_signed h (2 * h - 1 - A) = - half_signed h A - 1"
  by (auto simp: half_signed_def of_nat_diff)

lemma sval_not:
  assumes "0 < n" "n \<le> 64"
  shows "sval n (NOT x :: u64) = - sval n x - 1"
proof -
  have n: "(2 :: nat) ^ n = 2 * 2 ^ (n - 1)" using assms(1) power_Suc [of "2 :: nat" "n - 1"] by simp
  have "uval n x < 2 * 2 ^ (n - 1)" by (simp only: n [symmetric]) simp
  from half_signed_not [OF this] show ?thesis
    by (simp only: sval_half_signed [OF assms(1)] uval_not [OF assms(2)] n [symmetric])
qed

text \<open>A truth value as a word.\<close>

definition bitw :: "bool \<Rightarrow> u64" where
  "bitw b = of_bool b"

lemma bitw_simps [simp]:
  "take_bit 1 (bitw b) = bitw b" "even (bitw b) \<longleftrightarrow> \<not> b" "unat (bitw b) = of_bool b"
  "bitw True = 1" "bitw False = 0"
  by (simp_all add: bitw_def take_bit_eq_mod)

text \<open>Subtraction adds the complement and the complement of the borrow.\<close>

lemma borrow_iff:
  assumes "2 \<le> n" "n < 64"
  shows "carry_flag n x (NOT y) (bitw (\<not> b)) \<longleftrightarrow> uval n y + of_bool b \<le> uval n x"
proof -
  have arith: "p \<le> a + (p - 1 - d) + of_bool (\<not> b) \<longleftrightarrow> d + of_bool b \<le> a" if "d < p" for a d p :: nat
    using that by (cases b) auto
  have "2 ^ n \<le> uval n x + (2 ^ n - 1 - uval n y) + of_bool (\<not> b) \<longleftrightarrow> uval n y + of_bool b \<le> uval n x"
    by (intro arith) simp
  moreover have "unat (bitw (\<not> b)) mod 2 = of_bool (\<not> b)" by simp
  ultimately show ?thesis using assms by (simp only: carry_flag_iff [OF assms] uval_not)
qed

lemma sub_overflow_iff:
  assumes "2 \<le> n" "n < 64"
  shows "overflow_flag n x (NOT y) (bitw (\<not> b)) \<longleftrightarrow>
     sval n x - sval n y - of_bool b \<notin> {- (2 ^ (n - 1)) ..< 2 ^ (n - 1)}"
    and "(sign_flag n x (NOT y) (bitw (\<not> b)) \<noteq> overflow_flag n x (NOT y) (bitw (\<not> b))) \<longleftrightarrow>
     sval n x - sval n y - of_bool b < 0"
proof -
  have eq: "sval n x + sval n (NOT y) + int (unat (bitw (\<not> b)) mod 2) = sval n x - sval n y - of_bool b"
    using assms by (cases b) (simp_all add: sval_not)
  show "overflow_flag n x (NOT y) (bitw (\<not> b)) \<longleftrightarrow>
     sval n x - sval n y - of_bool b \<notin> {- (2 ^ (n - 1)) ..< 2 ^ (n - 1)}"
    by (simp only: overflow_flag_iff [OF assms] eq)
  show "(sign_flag n x (NOT y) (bitw (\<not> b)) \<noteq> overflow_flag n x (NOT y) (bitw (\<not> b))) \<longleftrightarrow>
     sval n x - sval n y - of_bool b < 0"
    by (simp only: sign_overflow_iff [OF assms] eq)
qed

lemma trunc_eq_uval: "take_bit n x = take_bit n y \<longleftrightarrow> uval n x = uval n y"
  by (simp only: unat_take_bit_word [symmetric] word_unat_eq_iff)

lemma trunc_zero_uval: "take_bit n x = 0 \<longleftrightarrow> uval n x = 0"
  using trunc_eq_uval [of n x 0] by simp

lemma sub_zero_iff: "n \<le> 64 \<Longrightarrow> take_bit n (x + NOT y + 1) = 0 \<longleftrightarrow> uval n x = uval n y"
proof -
  have "take_bit n (x - y) = 0 \<longleftrightarrow> take_bit n x = take_bit n y"
  proof
    assume "take_bit n (x - y) = 0"
    then have "take_bit n (take_bit n (x - y) + y) = take_bit n y" by simp
    then show "take_bit n x = take_bit n y" by (simp add: trunc_simps)
  next
    assume "take_bit n x = take_bit n y"
    then have "take_bit n (take_bit n x - take_bit n y) = 0" by simp
    then show "take_bit n (x - y) = 0" by (simp add: trunc_simps)
  qed
  moreover have "x + NOT y + 1 = x - y" by (simp add: not_eq_complement)
  ultimately show ?thesis by (simp only: trunc_eq_uval)
qed

end
