(* ===== verification/KnownPolicy.thy ===== *)
theory KnownPolicy
  imports X86Semantics Carries
begin

unbundle bit_operations_syntax

text \<open>
  What the instruction semantics relies on in a policy, as locales: on constants the RISC-like operations
  compute the machine operation and nothing else, and the status flags are independent one-bit cells.
  The lemmas about flags, conditions and arithmetic are proved from these laws alone.
\<close>

declare One_nat_def [simp del]

named_theorems known_simps \<open>evaluation of policy operations on constants\<close>

text \<open>The parity flag: the low eight bits of \<open>x\<close> have an even number of ones.\<close>

definition even_parity :: "u64 \<Rightarrow> bool" where
  "even_parity x \<longleftrightarrow> even (card {i. i < 8 \<and> bit x i})"

lemma sum_lessThan_8:
  fixes f :: "nat \<Rightarrow> nat"
  shows "(\<Sum>i<8. f i) = f 0 + f 1 + f 2 + f 3 + f 4 + f 5 + f 6 + f 7"
  by (simp add: eval_nat_numeral One_nat_def lessThan_Suc)

lemma even_parity_xor:
  "even_parity x \<longleftrightarrow>
     \<not> ((((bit x 0 \<noteq> bit x 1) \<noteq> (bit x 2 \<noteq> bit x 3)) \<noteq> ((bit x 4 \<noteq> bit x 5) \<noteq> (bit x 6 \<noteq> bit x 7))))"
proof -
  have "card {i. i < 8 \<and> bit x i} = (\<Sum>i<8. of_bool (bit x i))"
    by (simp add: sum_of_bool_eq lessThan_def Collect_conj_eq)
  also have "\<dots> = of_bool (bit x 0) + of_bool (bit x 1) + of_bool (bit x 2) + of_bool (bit x 3)
      + of_bool (bit x 4) + of_bool (bit x 5) + of_bool (bit x 6) + of_bool (bit x 7)"
    by (rule sum_lessThan_8)
  finally have "card {i. i < 8 \<and> bit x i} = \<dots>" .
  moreover have "even (of_bool b :: nat) \<longleftrightarrow> \<not> b" for b by simp
  moreover have "((((((((\<not> a) = (\<not> b)) = (\<not> c)) = (\<not> d)) = (\<not> e)) = (\<not> f)) = (\<not> g)) = (\<not> h)) \<longleftrightarrow>
      \<not> (((a \<noteq> b) \<noteq> (c \<noteq> d)) \<noteq> ((e \<noteq> f) \<noteq> (g \<noteq> h)))" for a b c d e f g h by simp argo
  ultimately show ?thesis by (simp only: even_parity_def even_add)
qed

text \<open>A truth value as a one-bit constant of a policy.\<close>

definition flagv :: "('s, 'v) x86sem \<Rightarrow> bool \<Rightarrow> 'v" where
  "flagv X b = p_number X 1 (bitw b)"

locale known_values =
  fixes X :: "('s, 'v) x86sem"
  assumes number_trunc: "p_number X n (take_bit n x) = p_number X n x"
    and add_known: "p_add X n (p_number X n x) (p_number X n y) = retS (p_number X n (x + y))"
    and addWithCarries_known: "n < 64 \<Longrightarrow> p_addWithCarries X n (p_number X n x) (p_number X n y) (p_number X 1 c) =
      retS (p_number X n (x + y + take_bit 1 c), p_number X n (carries_of n x y c))"
    and and_known: "p_and X n (p_number X n x) (p_number X n y) = retS (p_number X n (x AND y))"
    and or_known: "p_or X n (p_number X n x) (p_number X n y) = retS (p_number X n (x OR y))"
    and xor_known: "p_xor X n (p_number X n x) (p_number X n y) = retS (p_number X n (x XOR y))"
    and invert_known: "p_invert X n (p_number X n x) = retS (p_number X n (NOT x))"
    and negate_known: "p_negate X n (p_number X n x) = retS (p_number X n (- x))"
    and equalToZero_known: "p_equalToZero X n (p_number X n x) = retS (flagv X (take_bit n x = 0))"
    and ite_known: "p_ite X n (p_number X 1 b) (p_number X n x) (p_number X n y) =
      retS (p_number X n (if odd b then x else y))"
    and extract_known: "i < j \<Longrightarrow> j \<le> n \<Longrightarrow>
      p_extract X i j n (p_number X n x) = retS (p_number X (j - i) (drop_bit i x))"
    and concat_known: "m + n \<le> 64 \<Longrightarrow> p_concat X m n (p_number X m x) (p_number X n y) =
      retS (p_number X (m + n) (take_bit m x OR push_bit m y))"
    and signExtend_known: "m \<le> n \<Longrightarrow> p_signExtend X m n (p_number X m x) =
      retS (p_number X n (signExtend m n (take_bit m x)))"
    and shiftLeft_known: "n \<le> 64 \<Longrightarrow> p_shiftLeft X n k (p_number X n x) (p_number X k y) =
      retS (p_number X n (shiftLeft n x (uval k y)))"
    and shiftRight_known: "n \<le> 64 \<Longrightarrow> p_shiftRight X n k (p_number X n x) (p_number X k y) =
      retS (p_number X n (shiftRightLogical n (take_bit n x) (uval k y)))"
    and shiftRightArithmetic_known: "n \<le> 64 \<Longrightarrow> p_shiftRightArithmetic X n k (p_number X n x) (p_number X k y) =
      retS (p_number X n (shiftRightArithmetic n (take_bit n x) (uval k y)))"
    and rotateLeft_known: "n \<le> 64 \<Longrightarrow> p_rotateLeft X n k (p_number X n x) (p_number X k y) =
      retS (p_number X n (rotateLeft n (take_bit n x) (uval k y)))"
    and rotateRight_known: "n \<le> 64 \<Longrightarrow> p_rotateRight X n k (p_number X n x) (p_number X k y) =
      retS (p_number X n (rotateRight n (take_bit n x) (uval k y)))"
    and unsignedMultiply_known: "p_unsignedMultiply X m n (p_number X m x) (p_number X n y) =
      retS (p_number X (m + n) (take_bit m x * take_bit n y))"
    and signedMultiply_known: "p_signedMultiply X m n (p_number X m x) (p_number X n y) =
      retS (p_number X (m + n) (signExtend m 64 (take_bit m x) * signExtend n 64 (take_bit n y)))"
    and unsignedDivide_known: "take_bit n y \<noteq> 0 \<Longrightarrow> p_unsignedDivide X m n (p_number X m x) (p_number X n y) =
      retS (p_number X m (take_bit m x div take_bit n y))"
    and unsignedModulo_known: "take_bit n y \<noteq> 0 \<Longrightarrow> p_unsignedModulo X m n (p_number X m x) (p_number X n y) =
      retS (p_number X n (take_bit m x mod take_bit n y))"
begin

lemma number_eqI: "take_bit n x = take_bit n y \<Longrightarrow> p_number X n x = p_number X n y"
  by (metis number_trunc)

lemma number_bit [known_simps]: "p_number X 1 x = flagv X (odd x)"
  unfolding flagv_def
  by (rule number_eqI) (rule bit_word_eqI, auto simp: bit_take_bit_iff bit_1_iff bit_0 bitw_def split: if_splits)

lemma flag_laws [known_simps]:
  "p_and X 1 (flagv X a) (flagv X b) = retS (flagv X (a \<and> b))"
  "p_or X 1 (flagv X a) (flagv X b) = retS (flagv X (a \<or> b))"
  "p_xor X 1 (flagv X a) (flagv X b) = retS (flagv X (a \<noteq> b))"
  "p_invert X 1 (flagv X a) = retS (flagv X (\<not> a))"
  "p_ite X n (flagv X c) (p_number X n x) (p_number X n y) = retS (p_number X n (if c then x else y))"
  "p_ite X 1 (flagv X c) (flagv X a) (flagv X b) = retS (flagv X (if c then a else b))"
  "n < 64 \<Longrightarrow> p_addWithCarries X n (p_number X n x) (p_number X n y) (flagv X c) =
     retS (p_number X n (x + y + bitw c), p_number X n (carries_of n x y (bitw c)))"
  by (simp_all add: flagv_def and_known or_known xor_known invert_known ite_known addWithCarries_known,
      simp_all add: number_bit even_and_iff even_or_iff even_xor_iff even_not_iff if_distrib)

lemma extract_bit [known_simps]:
  "j = i + 1 \<Longrightarrow> i < n \<Longrightarrow> p_extract X i j n (p_number X n x) = retS (flagv X (bit x i))"
  using number_bit [of "drop_bit i x"] extract_known [of i j n x] by (simp add: bit_iff_odd_drop_bit)

lemma extract_field [known_simps]:
  "i + 1 < j \<Longrightarrow> j \<le> n \<Longrightarrow> p_extract X i j n (p_number X n x) = retS (p_number X (j - i) (drop_bit i x))"
  by (rule extract_known) simp_all

lemmas known_laws [known_simps] =
  add_known and_known or_known xor_known invert_known negate_known equalToZero_known
  concat_known signExtend_known shiftLeft_known shiftRight_known
  shiftRightArithmetic_known rotateLeft_known rotateRight_known unsignedMultiply_known
  signedMultiply_known unsignedDivide_known unsignedModulo_known

lemma parity_known [known_simps]: "parity X (retS (p_number X 8 w)) = retS (flagv X (even_parity w))"
  by (simp add: parity_def known_simps sem_simps even_parity_xor)

lemma invertMaybe_known [known_simps]:
  "invertMaybe X 1 (retS (flagv X b)) invr = retS (flagv X (b \<noteq> invr))"
  by (simp add: invertMaybe_def known_simps sem_simps)

lemma greaterOrEqualToTen_known [known_simps]:
  "greaterOrEqualToTen X 4 (retS (p_number X 4 w)) = retS (flagv X (10 \<le> uval 4 w))"
proof -
  have "bit (carries_of 4 w 6 0) 3 \<longleftrightarrow> 10 \<le> uval 4 w"
    using bit_carries_of [of 4 3 w 6 0] by simp
  then show ?thesis by (simp add: greaterOrEqualToTen_def known_simps sem_simps)
qed

end

section \<open>Status flags\<close>

definition status_flags :: "('s, 'v) x86sem \<Rightarrow> RegisterDescriptor list" where
  "status_flags X = [REG_CF X, REG_PF X, REG_AF X, REG_ZF X, REG_SF X, REG_OF X, REG_DF X]"

text \<open>The state after the flags of a result \<open>r\<close> of \<open>n\<close> bits, and of a sum \<open>x + y + c\<close>, have been set.\<close>

definition result_flags :: "('s, 'v) x86sem \<Rightarrow> (RegisterDescriptor \<Rightarrow> 'v \<Rightarrow> 's \<Rightarrow> 's) \<Rightarrow> nat \<Rightarrow> u64 \<Rightarrow> 's \<Rightarrow> 's" where
  "result_flags X setf n r s =
     setf (REG_ZF X) (flagv X (take_bit n r = 0))
      (setf (REG_SF X) (flagv X (bit r (n - 1)))
      (setf (REG_PF X) (flagv X (even_parity r)) s))"

definition add_flags ::
  "('s, 'v) x86sem \<Rightarrow> (RegisterDescriptor \<Rightarrow> 'v \<Rightarrow> 's \<Rightarrow> 's) \<Rightarrow> nat \<Rightarrow> u64 \<Rightarrow> u64 \<Rightarrow> u64 \<Rightarrow> bool \<Rightarrow> 's \<Rightarrow> 's" where
  "add_flags X setf n x y c invr s =
     setf (REG_OF X) (flagv X (overflow_flag n x y c))
      (setf (REG_CF X) (flagv X (carry_flag n x y c \<noteq> invr))
      (setf (REG_AF X) (flagv X (adjust_flag n x y c \<noteq> invr))
      (result_flags X setf n (x + y + take_bit 1 c) s)))"

locale x86_flags = known_values X
  for X :: "('s, 'v) x86sem" +
  fixes ok :: "'s \<Rightarrow> bool"
    and getf :: "RegisterDescriptor \<Rightarrow> 's \<Rightarrow> 'v"
    and setf :: "RegisterDescriptor \<Rightarrow> 'v \<Rightarrow> 's \<Rightarrow> 's"
  assumes flags_distinct: "distinct (status_flags X)"
    and flag_read: "ok s \<Longrightarrow> r \<in> set (status_flags X) \<Longrightarrow> p_readRegister X 1 r s = (Inr (getf r s), s)"
    and flag_write: "ok s \<Longrightarrow> r \<in> set (status_flags X) \<Longrightarrow>
      p_writeRegister X 1 r (flagv X b) s = (Inr (), setf r (flagv X b) s)"
    and setf_ok: "ok s \<Longrightarrow> ok (setf r v s)"
    and getf_setf: "ok s \<Longrightarrow> r \<in> set (status_flags X) \<Longrightarrow> q \<in> set (status_flags X) \<Longrightarrow>
      getf r (setf q (flagv X b) s) = (if r = q then flagv X b else getf r s)"
begin

lemma flag_members [simp]:
  "REG_CF X \<in> set (status_flags X)" "REG_PF X \<in> set (status_flags X)" "REG_AF X \<in> set (status_flags X)"
  "REG_ZF X \<in> set (status_flags X)" "REG_SF X \<in> set (status_flags X)" "REG_OF X \<in> set (status_flags X)"
  "REG_DF X \<in> set (status_flags X)"
  by (simp_all add: status_flags_def)

lemma flag_distinct [simp]:
  "REG_CF X \<noteq> REG_PF X" "REG_CF X \<noteq> REG_AF X" "REG_CF X \<noteq> REG_ZF X" "REG_CF X \<noteq> REG_SF X" "REG_CF X \<noteq> REG_OF X"
  "REG_PF X \<noteq> REG_AF X" "REG_PF X \<noteq> REG_ZF X" "REG_PF X \<noteq> REG_SF X" "REG_PF X \<noteq> REG_OF X"
  "REG_AF X \<noteq> REG_ZF X" "REG_AF X \<noteq> REG_SF X" "REG_AF X \<noteq> REG_OF X"
  "REG_ZF X \<noteq> REG_SF X" "REG_ZF X \<noteq> REG_OF X" "REG_SF X \<noteq> REG_OF X"
  using flags_distinct by (simp_all add: status_flags_def)

lemmas flag_distinct_sym [simp] = flag_distinct [symmetric]

lemmas flag_steps [sem_simps] = flag_read flag_write setf_ok

lemma setFlagsForResult_known [sem_simps]:
  assumes "ok s" "8 \<le> n" "n \<le> 64"
  shows "setFlagsForResult X n (p_number X n r) s = (Inr (), result_flags X setf n r s)"
  using assms by (simp add: setFlagsForResult_def known_simps sem_simps result_flags_def)

lemma result_flags_ok: "ok s \<Longrightarrow> ok (result_flags X setf n r s)"
  by (simp add: result_flags_def setf_ok)

lemma add_flags_ok: "ok s \<Longrightarrow> ok (add_flags X setf n x y c invr s)"
  by (simp add: add_flags_def setf_ok result_flags_ok)

lemma doAddOperation_known:
  assumes "ok s" "8 \<le> n" "n < 64"
  shows "doAddOperation X n (retS (p_number X n x)) (retS (p_number X n y)) invr (retS (flagv X c)) s =
    (Inr (p_number X n (x + y + bitw (c \<noteq> invr))), add_flags X setf n x y (bitw (c \<noteq> invr)) invr s)"
  using assms
  by (simp add: doAddOperation_def known_simps sem_simps add_flags_def result_flags_ok
      overflow_flag_def carry_flag_def adjust_flag_def)

lemma result_flags_get:
  assumes "ok s"
  shows "getf (REG_ZF X) (result_flags X setf n r s) = flagv X (take_bit n r = 0)"
    and "getf (REG_SF X) (result_flags X setf n r s) = flagv X (bit r (n - 1))"
    and "getf (REG_PF X) (result_flags X setf n r s) = flagv X (even_parity r)"
  using assms by (simp_all add: result_flags_def getf_setf setf_ok)

lemma add_flags_get:
  assumes "ok s"
  shows "getf (REG_CF X) (add_flags X setf n x y c invr s) = flagv X (carry_flag n x y c \<noteq> invr)"
    and "getf (REG_OF X) (add_flags X setf n x y c invr s) = flagv X (overflow_flag n x y c)"
    and "getf (REG_AF X) (add_flags X setf n x y c invr s) = flagv X (adjust_flag n x y c \<noteq> invr)"
    and "getf (REG_ZF X) (add_flags X setf n x y c invr s) = flagv X (take_bit n (x + y + take_bit 1 c) = 0)"
    and "getf (REG_SF X) (add_flags X setf n x y c invr s) = flagv X (sign_flag n x y c)"
    and "getf (REG_PF X) (add_flags X setf n x y c invr s) = flagv X (even_parity (x + y + take_bit 1 c))"
  using assms by (simp_all add: add_flags_def sign_flag_def getf_setf setf_ok result_flags_ok result_flags_get)

end

section \<open>Conditions\<close>

text \<open>What a condition code tests in terms of the flags.\<close>

fun cc_flags :: "x86_cc \<Rightarrow> bool \<Rightarrow> bool \<Rightarrow> bool \<Rightarrow> bool \<Rightarrow> bool \<Rightarrow> bool" where
  "cc_flags cc_ne cf pf zf sf ovf = (\<not> zf)"
| "cc_flags cc_e cf pf zf sf ovf = zf"
| "cc_flags cc_no cf pf zf sf ovf = (\<not> ovf)"
| "cc_flags cc_o cf pf zf sf ovf = ovf"
| "cc_flags cc_ns cf pf zf sf ovf = (\<not> sf)"
| "cc_flags cc_s cf pf zf sf ovf = sf"
| "cc_flags cc_po cf pf zf sf ovf = (\<not> pf)"
| "cc_flags cc_pe cf pf zf sf ovf = pf"
| "cc_flags cc_ae cf pf zf sf ovf = (\<not> cf)"
| "cc_flags cc_b cf pf zf sf ovf = cf"
| "cc_flags cc_be cf pf zf sf ovf = (cf \<or> zf)"
| "cc_flags cc_a cf pf zf sf ovf = (\<not> cf \<and> \<not> zf)"
| "cc_flags cc_l cf pf zf sf ovf = (sf \<noteq> ovf)"
| "cc_flags cc_ge cf pf zf sf ovf = (sf = ovf)"
| "cc_flags cc_le cf pf zf sf ovf = (zf \<or> sf \<noteq> ovf)"
| "cc_flags cc_g cf pf zf sf ovf = (sf = ovf \<and> \<not> zf)"

text \<open>What a condition code means after \<open>x\<close> and \<open>y\<close> have been compared in \<open>n\<close> bits: the codes of the
  unsigned and signed orders compare, the others look at the difference.\<close>

fun cc_compare :: "x86_cc \<Rightarrow> nat \<Rightarrow> u64 \<Rightarrow> u64 \<Rightarrow> bool" where
  "cc_compare cc_ne n x y = (uval n x \<noteq> uval n y)"
| "cc_compare cc_e n x y = (uval n x = uval n y)"
| "cc_compare cc_b n x y = (uval n x < uval n y)"
| "cc_compare cc_ae n x y = (uval n x \<ge> uval n y)"
| "cc_compare cc_be n x y = (uval n x \<le> uval n y)"
| "cc_compare cc_a n x y = (uval n x > uval n y)"
| "cc_compare cc_l n x y = (sval n x < sval n y)"
| "cc_compare cc_ge n x y = (sval n x \<ge> sval n y)"
| "cc_compare cc_le n x y = (sval n x \<le> sval n y)"
| "cc_compare cc_g n x y = (sval n x > sval n y)"
| "cc_compare cc_o n x y = (sval n x - sval n y \<notin> {- (2 ^ (n - 1)) ..< 2 ^ (n - 1)})"
| "cc_compare cc_no n x y = (sval n x - sval n y \<in> {- (2 ^ (n - 1)) ..< 2 ^ (n - 1)})"
| "cc_compare cc_s n x y = bit (x - y) (n - 1)"
| "cc_compare cc_ns n x y = (\<not> bit (x - y) (n - 1))"
| "cc_compare cc_pe n x y = even_parity (x - y)"
| "cc_compare cc_po n x y = (\<not> even_parity (x - y))"

lemma half_signed_inject: "A < 2 * h \<Longrightarrow> B < 2 * h \<Longrightarrow> half_signed h A = half_signed h B \<longleftrightarrow> A = B"
  by (auto simp: half_signed_def split: if_splits)

lemma sval_inject:
  assumes "0 < n"
  shows "sval n x = sval n y \<longleftrightarrow> uval n x = uval n (y :: u64)"
proof -
  have n: "2 * 2 ^ (n - 1) = (2 :: nat) ^ n" using assms power_Suc [of "2 :: nat" "n - 1"] by simp
  have "uval n x < 2 * 2 ^ (n - 1)" "uval n y < 2 * 2 ^ (n - 1)" by (simp_all only: n) simp_all
  then show ?thesis by (simp only: sval_half_signed [OF assms] half_signed_inject)
qed

lemma cc_flags_compare:
  assumes "2 \<le> n" "n < 64"
  shows "cc_flags cc (\<not> carry_flag n x (NOT y) 1) (even_parity (x + NOT y + 1))
      (take_bit n (x + NOT y + 1) = 0) (sign_flag n x (NOT y) 1) (overflow_flag n x (NOT y) 1) \<longleftrightarrow>
    cc_compare cc n x y"
proof -
  have diff: "x + NOT y + 1 = x - y" by (simp add: not_eq_complement)
  have sign: "sign_flag n x (NOT y) 1 = bit (x - y) (n - 1)" by (simp add: sign_flag_def diff)
  have less: "carry_flag n x (NOT y) 1 \<longleftrightarrow> uval n y \<le> uval n x"
    using borrow_iff [OF assms, of x y False] by simp
  have zero: "take_bit n (x - y) = 0 \<longleftrightarrow> uval n x = uval n y"
    using sub_zero_iff [of n x y] assms by (simp only: diff)
  have equal: "uval n x = uval n y \<longleftrightarrow> sval n x = sval n y"
    using sval_inject [of n x y] assms by simp
  have range: "overflow_flag n x (NOT y) 1 \<longleftrightarrow> sval n x - sval n y \<notin> {- (2 ^ (n - 1)) ..< 2 ^ (n - 1)}"
    using sub_overflow_iff(1) [OF assms, of x y False] by (simp only: not_False_eq_True bitw_simps of_bool_eq diff_0_right)
  have order: "(sign_flag n x (NOT y) 1 \<noteq> overflow_flag n x (NOT y) 1) \<longleftrightarrow> sval n x < sval n y"
    using sub_overflow_iff(2) [OF assms, of x y False] by simp
  show ?thesis
  proof (cases cc)
    case cc_le then show ?thesis using order by (simp only: cc_flags.simps cc_compare.simps diff zero equal) auto
  next
    case cc_g then show ?thesis using order by (simp only: cc_flags.simps cc_compare.simps diff zero equal) auto
  next
    case cc_l then show ?thesis using order by (simp only: cc_flags.simps cc_compare.simps)
  next
    case cc_ge then show ?thesis using order by (simp only: cc_flags.simps cc_compare.simps) auto
  qed (simp_all only: cc_flags.simps cc_compare.simps diff less zero range order sign not_le not_not, auto)
qed

context x86_flags
begin

lemma FLAGCOMBO_known:
  assumes "ok s" "getf (REG_CF X) s = flagv X cf" "getf (REG_PF X) s = flagv X pf" "getf (REG_ZF X) s = flagv X zf"
    "getf (REG_SF X) s = flagv X sf" "getf (REG_OF X) s = flagv X ovf"
  shows "FLAGCOMBO X cc s = (Inr (flagv X (cc_flags cc cf pf zf sf ovf)), s)"
  using assms by (cases cc) (simp_all add: sem_simps known_simps)

lemma FLAGCOMBO_compare:
  assumes "ok s" "8 \<le> n" "n < 64"
  shows "FLAGCOMBO X cc (add_flags X setf n x (NOT y) 1 True s) =
    (Inr (flagv X (cc_compare cc n x y)), add_flags X setf n x (NOT y) 1 True s)"
proof -
  have "FLAGCOMBO X cc (add_flags X setf n x (NOT y) 1 True s) =
    (Inr (flagv X (cc_flags cc (\<not> carry_flag n x (NOT y) 1) (even_parity (x + NOT y + 1))
      (take_bit n (x + NOT y + 1) = 0) (sign_flag n x (NOT y) 1) (overflow_flag n x (NOT y) 1))),
     add_flags X setf n x (NOT y) 1 True s)"
    using assms by (intro FLAGCOMBO_known) (simp_all add: add_flags_ok add_flags_get)
  also have "\<dots> = (Inr (flagv X (cc_compare cc n x y)), add_flags X setf n x (NOT y) 1 True s)"
    using assms by (subst cc_flags_compare) simp_all
  finally show ?thesis .
qed

end

end
