(* ===== verification/PSKnown.thy ===== *)
theory PSKnown
  imports PSPolicy KnownPolicy
begin

unbundle bit_operations_syntax

declare One_nat_def [simp del]

text \<open>
  The partially symbolic policy meets the contracts of the instruction semantics: its operations on
  constants are the machine operations, and its flags are independent cells. The interpretations at the
  end make the lemmas about flags and conditions available for it.
\<close>

section \<open>Constants\<close>

lemma ps_const_eq: "ps_const n x = \<lparr>vname = 0, voffset = take_bit n x, vnegate = False\<rparr>"
  by (simp add: ps_const_def and_genMask)

lemma ps_const_sel [simp]:
  "vname (ps_const n x) = 0" "voffset (ps_const n x) = take_bit n x" "vnegate (ps_const n x) = False"
  by (simp_all add: ps_const_eq)

lemma ps_const_trunc [simp]: "ps_const n (take_bit n x) = ps_const n x"
  by (simp add: ps_const_eq)

lemma ps_const_eqI: "take_bit n x = take_bit n y \<Longrightarrow> ps_const n x = ps_const n y"
  by (simp add: ps_const_eq)

lemma ps_const_inject [simp]: "ps_const n x = ps_const n y \<longleftrightarrow> take_bit n x = take_bit n y"
  by (simp add: ps_const_eq)

lemma ps_eq_const [simp]: "ps_eq (ps_const n x) (ps_const m y) \<longleftrightarrow> take_bit n x = take_bit m y"
  by (simp add: ps_eq_def)

lemma ps_named_zero [simp]: "ps_named n 0 x False = ps_const n x"
  by (simp add: ps_named_def ps_const_def)

lemma ps_convert_const [simp]: "ps_convert m (ps_const n x) = ps_const m (take_bit n x)"
  by (simp add: ps_convert_def ps_const_def and_genMask)

lemma convert_const_le [simp]: "m \<le> n \<Longrightarrow> ps_const m (take_bit n x) = ps_const m x"
  by (rule ps_const_eqI) (simp add: min_def)

section \<open>The dispatcher object\<close>

definition ps_x86 :: "(ps_state, psv) x86sem" where
  "ps_x86 = policy.extend ps_policy
     \<lparr>REG_EAX = reg_desc 0 0 0 32, REG_EBX = reg_desc 0 3 0 32, REG_ECX = reg_desc 0 1 0 32,
      REG_EDX = reg_desc 0 2 0 32, REG_EDI = reg_desc 0 7 0 32, REG_EIP = reg_desc 7 0 0 32,
      REG_ESI = reg_desc 0 6 0 32, REG_ESP = reg_desc 0 4 0 32, REG_EBP = reg_desc 0 5 0 32,
      REG_AX = reg_desc 0 0 0 16, REG_CX = reg_desc 0 1 0 16, REG_DX = reg_desc 0 2 0 16,
      REG_AL = reg_desc 0 0 0 8, REG_AH = reg_desc 0 0 8 8, REG_EFLAGS = reg_desc 8 0 0 32,
      REG_AF = reg_desc 8 0 4 1, REG_CF = reg_desc 8 0 0 1, REG_DF = reg_desc 8 0 10 1,
      REG_OF = reg_desc 8 0 11 1, REG_PF = reg_desc 8 0 2 1, REG_SF = reg_desc 8 0 7 1,
      REG_ZF = reg_desc 8 0 6 1\<rparr>"

lemma ps_x86_regs [simp]:
  "REG_EAX ps_x86 = reg_desc 0 0 0 32" "REG_EBX ps_x86 = reg_desc 0 3 0 32" "REG_ECX ps_x86 = reg_desc 0 1 0 32"
  "REG_EDX ps_x86 = reg_desc 0 2 0 32" "REG_EDI ps_x86 = reg_desc 0 7 0 32" "REG_EIP ps_x86 = reg_desc 7 0 0 32"
  "REG_ESI ps_x86 = reg_desc 0 6 0 32" "REG_ESP ps_x86 = reg_desc 0 4 0 32" "REG_EBP ps_x86 = reg_desc 0 5 0 32"
  "REG_AX ps_x86 = reg_desc 0 0 0 16" "REG_CX ps_x86 = reg_desc 0 1 0 16" "REG_DX ps_x86 = reg_desc 0 2 0 16"
  "REG_AL ps_x86 = reg_desc 0 0 0 8" "REG_AH ps_x86 = reg_desc 0 0 8 8" "REG_EFLAGS ps_x86 = reg_desc 8 0 0 32"
  "REG_AF ps_x86 = reg_desc 8 0 4 1" "REG_CF ps_x86 = reg_desc 8 0 0 1" "REG_DF ps_x86 = reg_desc 8 0 10 1"
  "REG_OF ps_x86 = reg_desc 8 0 11 1" "REG_PF ps_x86 = reg_desc 8 0 2 1" "REG_SF ps_x86 = reg_desc 8 0 7 1"
  "REG_ZF ps_x86 = reg_desc 8 0 6 1"
  by (simp_all add: ps_x86_def policy.extend_def)

lemma ps_x86_ops [simp]:
  "p_findRegister ps_x86 = ps_findRegister" "p_readRegister ps_x86 = ps_readRegister"
  "p_writeRegister ps_x86 = ps_writeRegister" "p_readMemory ps_x86 = ps_readMemory"
  "p_writeMemory ps_x86 = ps_writeMemory" "p_number ps_x86 = ps_const" "p_undefined ps_x86 = (\<lambda>_. ps_fresh)"
  "p_signExtend ps_x86 = ps_signExtend" "p_unsignedExtend ps_x86 = ps_unsignedExtend"
  "p_extract ps_x86 = ps_extract" "p_concat ps_x86 = ps_concat" "p_add ps_x86 = ps_add"
  "p_addWithCarries ps_x86 = ps_addWithCarries" "p_and ps_x86 = ps_and" "p_or ps_x86 = ps_or"
  "p_xor ps_x86 = ps_xor" "p_invert ps_x86 = ps_invert" "p_negate ps_x86 = ps_negate"
  "p_equalToZero ps_x86 = ps_equalToZero" "p_ite ps_x86 = ps_ite"
  "p_leastSignificantSetBit ps_x86 = ps_leastSignificantSetBit"
  "p_mostSignificantSetBit ps_x86 = ps_mostSignificantSetBit"
  "p_rotateLeft ps_x86 = ps_rotateLeft" "p_rotateRight ps_x86 = ps_rotateRight"
  "p_shiftLeft ps_x86 = ps_shiftLeft" "p_shiftRight ps_x86 = ps_shiftRight"
  "p_shiftRightArithmetic ps_x86 = ps_shiftRightArithmetic"
  "p_signedDivide ps_x86 = ps_signedDivide" "p_signedModulo ps_x86 = ps_signedModulo"
  "p_signedMultiply ps_x86 = ps_signedMultiply" "p_unsignedDivide ps_x86 = ps_unsignedDivide"
  "p_unsignedModulo ps_x86 = ps_unsignedModulo" "p_unsignedMultiply ps_x86 = ps_unsignedMultiply"
  by (simp_all add: ps_x86_def policy.extend_def ps_policy_def)

lemma ps_x86_actions [simp]:
  "p_filterCallTarget ps_x86 = retS" "p_filterReturnTarget ps_x86 = retS" "p_filterIndirectJumpTarget ps_x86 = retS"
  "p_hlt ps_x86 = retS ()" "p_cpuid ps_x86 = retS ()" "p_rdtsc ps_x86 = retS (ps_const 64 0)"
  "p_interrupt ps_x86 = (\<lambda>_. ps_reset)" "p_sysenter ps_x86 = ps_reset"
  "p_startInstruction ps_x86 = ps_startInstruction" "p_finishInstruction ps_x86 = ps_finishInstruction"
  "p_startBlock ps_x86 = (\<lambda>_. retS ())" "p_finishBlock ps_x86 = (\<lambda>_. retS ())"
  by (simp_all add: ps_x86_def policy.extend_def ps_policy_def)

section \<open>The operations on constants\<close>

lemma ret_inject [simp]: "retS a = retS b \<longleftrightarrow> a = b"
  by (simp add: retS_def fun_eq_iff)

lemma ps_extract_const:
  assumes "i < j" "j \<le> n"
  shows "ps_extract i j n (ps_const n x) = retS (ps_const (j - i) (drop_bit i x))"
proof -
  have "take_bit (j - i) (drop_bit i (take_bit n x)) = take_bit (j - i) (drop_bit i x)"
    using assms by (intro bit_word_eqI) (auto simp: bit_simps)
  then show ?thesis using assms
    by (simp add: ps_extract_def and_genMask genMask_def [symmetric])
qed

lemma ps_shiftLeft_const: "shiftLeft n (take_bit n x) c = shiftLeft n (x :: u64) c"
  by (rule bit_word_eqI) (auto simp: bit_word_simps bit_simps)

lemma trunc_sum3: "take_bit n (take_bit n x + take_bit n y + z) = take_bit n (x + y + z :: u64)"
proof -
  have add: "take_bit n (take_bit n a + b) = take_bit n (a + b)" for a b :: u64 by (simp only: trunc_simps)
  have "take_bit n (take_bit n x + take_bit n y + z) = take_bit n (x + (take_bit n y + z))"
    by (simp only: add.assoc add)
  also have "\<dots> = take_bit n (take_bit n y + (x + z))" by (simp only: ac_simps)
  also have "\<dots> = take_bit n (x + y + z)" by (simp only: add) (simp only: ac_simps)
  finally show ?thesis .
qed

interpretation ps: known_values ps_x86
proof (unfold_locales, goal_cases)
  case (1 n x) show ?case by simp
next
  case (2 n x y) show ?case by (simp add: ps_add_def trunc_simps)
next
  case (3 n x y c) show ?case
    using trunc_sum3 [of n x y "take_bit 1 c"]
    by (simp add: ps_addWithCarries_def n_unknown_def carries_of_def Let_def)
next
  case (4 n x y) show ?case by (simp add: ps_and_def)
next
  case (5 n x y) show ?case by (simp add: ps_or_def)
next
  case (6 n x y) show ?case by (simp add: ps_xor_def)
next
  case (7 n x) show ?case by (simp add: ps_invert_def ps_invert_value_def trunc_simps)
next
  case (8 n x) show ?case by (simp add: ps_negate_def ps_negate_value_def trunc_simps)
next
  case (9 n x) show ?case by (simp add: ps_equalToZero_def flagv_def bitw_def)
next
  case (10 n b x y) show ?case using take_bit_eq_mod [of 1 b] by (simp add: ps_ite_def odd_iff_mod_2_eq_one)
next
  case (11 i j n x) then show ?case by (simp add: ps_extract_const)
next
  case (12 m n x y) show ?case by (simp add: ps_concat_def push_bit_take_bit)
next
  case (13 m n x) show ?case by (simp add: ps_signExtend_def signExtend_def)
next
  case (14 n k x y) show ?case by (simp add: ps_shiftLeft_def ps_shiftLeft_const unat_take_bit_word)
next
  case (15 n k x y) show ?case by (simp add: ps_shiftRight_def unat_take_bit_word)
next
  case (16 n k x y) show ?case by (simp add: ps_shiftRightArithmetic_def unat_take_bit_word)
next
  case (17 n k x y) show ?case by (simp add: ps_rotateLeft_def unat_take_bit_word)
next
  case (18 n k x y) show ?case by (simp add: ps_rotateRight_def unat_take_bit_word)
next
  case (19 m n x y) show ?case by (simp add: ps_unsignedMultiply_def)
next
  case (20 m n x y) show ?case by (simp add: ps_signedMultiply_def)
next
  case (21 n y m x) then show ?case by (simp add: ps_unsignedDivide_def)
next
  case (22 n y m x) then show ?case by (simp add: ps_unsignedModulo_def)
qed

section \<open>Registers and flags\<close>

text \<open>A well-formed machine state has all its registers.\<close>

definition machine_ok :: "ps_machine \<Rightarrow> bool" where
  "machine_ok m \<longleftrightarrow> length (r_gpr m) = 8 \<and> length (r_segreg m) = 6 \<and> length (r_flag m) = 32"

definition ps_ok :: "ps_state \<Rightarrow> bool" where
  "ps_ok s \<longleftrightarrow> machine_ok (cur_state s)"

definition flag_of :: "RegisterDescriptor \<Rightarrow> ps_state \<Rightarrow> psv" where
  "flag_of r s = ps_convert 1 (r_flag (cur_state s) ! offset r)"

definition with_flag :: "RegisterDescriptor \<Rightarrow> psv \<Rightarrow> ps_state \<Rightarrow> ps_state" where
  "with_flag r v s = s\<lparr>cur_state := (cur_state s)\<lparr>r_flag := (r_flag (cur_state s))[offset r := v]\<rparr>\<rparr>"

lemma reg_desc_sel [simp]:
  "majr (reg_desc a b c d) = a" "minr (reg_desc a b c d) = b" "offset (reg_desc a b c d) = c" "nbits (reg_desc a b c d) = d"
  by (simp_all add: reg_desc_def)

lemma reg_desc_inject [simp]:
  "reg_desc a b c d = reg_desc a' b' c' d' \<longleftrightarrow> a = a' \<and> b = b' \<and> c = c' \<and> d = d'"
  by (simp add: reg_desc_def)

lemma ps_status_flags:
  "status_flags ps_x86 = map (\<lambda>k. reg_desc 8 0 k 1) [0, 2, 4, 6, 7, 11, 10]"
  by (simp add: status_flags_def)

lemma status_flag_cases: "r \<in> set (status_flags ps_x86) \<Longrightarrow> \<exists>k < 32. r = reg_desc 8 0 k 1"
  by (auto simp: ps_status_flags)

lemma ps_read_flag: "k < 32 \<Longrightarrow> ps_readRegister 1 (reg_desc 8 0 k 1) s = (Inr (flag_of (reg_desc 8 0 k 1) s), s)"
  by (simp add: ps_readRegister_def read_bit_register_def sem_simps get_flag_def ps_unsignedExtend_def flag_of_def)

lemma ps_write_flag:
  "k < 32 \<Longrightarrow> ps_writeRegister 1 (reg_desc 8 0 k 1) v s = (Inr (), with_flag (reg_desc 8 0 k 1) (ps_convert 1 v) s)"
  by (simp add: ps_writeRegister_def write_bit_register_def sem_simps set_flag_def update_cur_def
      ps_unsignedExtend_def with_flag_def)

lemma with_flag_ok [simp]: "ps_ok s \<Longrightarrow> ps_ok (with_flag r v s)"
  by (simp add: ps_ok_def machine_ok_def with_flag_def)

lemma flag_of_with_flag:
  assumes "ps_ok s" "j < 32" "k < 32"
  shows "flag_of (reg_desc 8 0 j 1) (with_flag (reg_desc 8 0 k 1) v s) =
    (if j = k then ps_convert 1 v else flag_of (reg_desc 8 0 j 1) s)"
  using assms by (simp add: ps_ok_def machine_ok_def flag_of_def with_flag_def)

interpretation ps: x86_flags ps_x86 ps_ok flag_of with_flag
proof (unfold_locales, goal_cases)
  case 1
  show ?case by (simp add: ps_status_flags)
next
  case (2 s r)
  then obtain k where "k < 32" "r = reg_desc 8 0 k 1" using status_flag_cases by blast
  then show ?case by (simp add: ps_read_flag)
next
  case (3 s r b)
  then obtain k where "k < 32" "r = reg_desc 8 0 k 1" using status_flag_cases by blast
  then show ?case by (simp add: ps_write_flag flagv_def)
next
  case (4 s r v)
  then show ?case by simp
next
  case (5 s r q b)
  then obtain j k where "j < 32" "r = reg_desc 8 0 j 1" "k < 32" "q = reg_desc 8 0 k 1"
    using status_flag_cases by meson
  with 5(1) show ?case by (simp add: flag_of_with_flag flagv_def)
qed

end
