(* ===== verification/X86Correct.thy ===== *)
theory X86Correct
  imports PSKnown
begin

unbundle bit_operations_syntax

declare One_nat_def [simp del]

text \<open>
  Correctness of the instruction semantics over the partially symbolic policy on known values: the
  constructor, additions and subtractions with their flags, and comparisons followed by conditional
  jumps, sets and moves.
\<close>

section \<open>The constructor\<close>

lemma findRegister_run:
  "dict_lookup (regdict s) name = Some r \<Longrightarrow> n = 0 \<or> nbits r = n \<Longrightarrow> ps_findRegister name n s = (Inr r, s)"
  by (auto simp: ps_findRegister_def sem_simps)

lemma read_ip_run: "ps_readRegister 32 (reg_desc 7 0 0 32) s = (Inr (ps_convert 32 (r_ip (cur_state s))), s)"
  by (simp add: ps_readRegister_def read_dword_register_def sem_simps get_ip_def ps_unsignedExtend_def)

lemma ps_policy_finders: "p_findRegister ps_policy = ps_findRegister" "p_readRegister ps_policy = ps_readRegister"
  by (simp_all add: ps_policy_def)

lemma x86_new_run:
  assumes "dictionary_pentium4 = Some d" "regdict s = d"
  shows "x86_new ps_policy s = (Inr ps_x86, s)"
proof -
  note regs = pentium4_registers [OF assms(1), folded assms(2)]
  have find: "ps_findRegister name n s = (Inr r, s)" if "dict_lookup (regdict s) name = Some r" "n = 0 \<or> nbits r = n" for name n r
    using that by (rule findRegister_run)
  show ?thesis
    unfolding x86_new_def ps_policy_finders
    by (simp add: sem_simps find [OF regs(1)] find [OF regs(2)] find [OF regs(3)] find [OF regs(4)] find [OF regs(5)]
        find [OF regs(6)] find [OF regs(7)] find [OF regs(8)] find [OF regs(9)] find [OF regs(10)] find [OF regs(11)]
        find [OF regs(12)] find [OF regs(13)] find [OF regs(14)] find [OF regs(15)] find [OF regs(17)] find [OF regs(18)]
        find [OF regs(19)] find [OF regs(20)] find [OF regs(21)] find [OF regs(22)] find [OF regs(23)] read_ip_run ps_x86_def)
qed

text \<open>Default-constructed values take consecutive names.\<close>

definition ps_unknown :: "u64 \<Rightarrow> psv" where
  "ps_unknown nm = \<lparr>vname = nm, voffset = 0, vnegate = False\<rparr>"

lemma fresh_run: "ps_fresh s = (Inr (ps_unknown (name_counter s + 1)), s\<lparr>name_counter := name_counter s + 1\<rparr>)"
  by (simp add: ps_fresh_def ps_unknown_def Let_def)

lemma fresh_list_run:
  "fresh_list k s = (Inr (map (\<lambda>i. ps_unknown (name_counter s + of_nat (Suc i))) [0..<k]),
     s\<lparr>name_counter := name_counter s + of_nat k\<rparr>)"
proof (induction k arbitrary: s)
  case (Suc k)
  have "[0..<Suc k] = 0 # map Suc [0..<k]" by (simp add: map_Suc_upt upt_conv_Cons)
  then show ?case by (simp add: sem_simps fresh_run Suc.IH ac_simps del: upt_Suc)
qed (simp add: sem_simps)

definition fresh_machine :: "u64 \<Rightarrow> ps_machine" where
  "fresh_machine c =
     \<lparr>r_ip = ps_unknown (c + 1), r_gpr = map (\<lambda>i. ps_unknown (c + of_nat (2 + i))) [0..<8],
      r_segreg = map (\<lambda>i. ps_unknown (c + of_nat (10 + i))) [0..<6],
      r_flag = map (\<lambda>i. ps_unknown (c + of_nat (16 + i))) [0..<32], r_memory = []\<rparr>"

lemma machine_clear_run:
  "machine_clear s = (Inr (fresh_machine (name_counter s)), s\<lparr>name_counter := name_counter s + 47\<rparr>)"
  by (simp add: machine_clear_def sem_simps fresh_run fresh_list_run fresh_machine_def ac_simps del: upt_rec_numeral)

text \<open>The names of all registers of a machine state.\<close>

definition register_names :: "ps_machine \<Rightarrow> u64 list" where
  "register_names m = map vname (r_ip m # r_gpr m @ r_segreg m @ r_flag m)"

lemma fresh_machine_names: "register_names (fresh_machine c) = map (\<lambda>i. c + of_nat (Suc i)) [0..<47]"
proof -
  have shift: "map (\<lambda>i. c + of_nat (Suc k + i)) [0..<m] = map (\<lambda>i. c + of_nat (Suc i)) [k..<k + m]" for k m
    by (simp only: add.commute [of k m] map_add_upt [symmetric] list.map_comp) (simp add: comp_def ac_simps)
  have split: "[0..<47] = 0 # [1..<1 + 8] @ [9..<9 + 6] @ [15..<15 + 32]"
  proof -
    have "[0..<Suc 0 + 46] = [0..<Suc 0] @ [Suc 0..<Suc 0 + 46]" by (rule upt_add_eq_append) simp
    moreover have "[1..<9 + 38] = [1..<9] @ [9..<9 + 38]" by (rule upt_add_eq_append) simp
    moreover have "[9..<15 + 32] = [9..<15] @ [15..<15 + 32 :: nat]" by (rule upt_add_eq_append) simp
    ultimately show ?thesis by (simp add: One_nat_def del: upt_rec_numeral)
  qed
  have "register_names (fresh_machine c) = (c + of_nat (Suc 0)) # map (\<lambda>i. c + of_nat (Suc 1 + i)) [0..<8] @
      map (\<lambda>i. c + of_nat (Suc 9 + i)) [0..<6] @ map (\<lambda>i. c + of_nat (Suc 15 + i)) [0..<32]"
    by (simp add: register_names_def fresh_machine_def ps_unknown_def comp_def del: upt_rec_numeral)
  then show ?thesis by (simp only: shift split list.map map_append)
qed

text \<open>Property C31. Constructing the policy and, on it, the dispatcher of the instruction semantics succeeds
  from any value of the name counter. The dispatcher finds all 22 registers with the widths it asks for in
  the Pentium 4 dictionary and leaves the policy unchanged; the current and the original state agree, and all
  their registers hold values with pairwise distinct names. If the counter does not wrap around while the 94 values
  of the two states are made, no name is 0, so that all of them are unknowns.\<close>

theorem policy_and_dispatcher_construction:
  "\<exists>s. ps_new c = Some s \<and> ps_ok s \<and> cur_state s = orig_state s \<and> distinct (register_names (cur_state s)) \<and>
     (unat c + 94 < 2 ^ 64 \<longrightarrow> 0 \<notin> set (register_names (cur_state s))) \<and>
     x86_new ps_policy s = (Inr ps_x86, s)"
proof -
  obtain d where d: "dictionary_pentium4 = Some d" using dict_chain(6) by blast
  define s where "s = \<lparr>name_counter = c + 94, cur_state = fresh_machine (c + 47), orig_state = fresh_machine (c + 47),
    discard_popped = False, ninsns = 0, cur_insn = None, ps_map = None, regdict = d\<rparr>"
  have "ps_new c = Some s"
    by (simp add: ps_new_def d s_def sem_simps machine_clear_run ac_simps)
  moreover have "ps_ok s" by (simp add: ps_ok_def machine_ok_def s_def fresh_machine_def)
  moreover have "cur_state s = orig_state s" by (simp add: s_def)
  moreover have "distinct (register_names (cur_state s))"
  proof -
    have "inj_on (\<lambda>i. c + 47 + of_nat (Suc i) :: u64) {0..<47}"
      by (auto intro!: inj_onI simp: word_of_nat_eq_iff take_bit_nat_eq_self)
    then show ?thesis by (simp add: s_def fresh_machine_names distinct_map del: upt_rec_numeral)
  qed
  moreover have "0 \<notin> set (register_names (cur_state s))" if "unat c + 94 < 2 ^ 64"
  proof
    assume "0 \<in> set (register_names (cur_state s))"
    moreover have "cur_state s = fresh_machine (c + 47)" by (simp add: s_def)
    ultimately have "0 \<in> (\<lambda>i. c + 47 + of_nat (Suc i)) ` {0..<47}"
      by (simp only: fresh_machine_names set_map set_upt)
    then obtain i where i: "i < 47" "0 = c + 47 + of_nat (Suc i)" by (auto simp only: atLeastLessThan_iff image_iff bex_simps)
    have "c + 47 + of_nat (Suc i) = of_nat (unat c + 47 + Suc i)" by simp
    moreover have "unat c + 47 + Suc i < 2 ^ LENGTH(64)" using that i(1) by simp
    ultimately have "unat (c + 47 + of_nat (Suc i)) = unat c + 47 + Suc i" by (simp only: unat_of_nat_less)
    then show False unfolding i(2) [symmetric] by simp
  qed
  moreover have "x86_new ps_policy s = (Inr ps_x86, s)"
    by (rule x86_new_run [OF d]) (simp add: s_def)
  ultimately show ?thesis by blast
qed

theorem policy_and_dispatcher_construction_witness:
  "\<exists>s. ps_new 0 = Some s \<and> distinct (register_names (cur_state s)) \<and> 0 \<notin> set (register_names (cur_state s))"
  using policy_and_dispatcher_construction [of 0] by auto

section \<open>Registers as operands\<close>

definition with_gpr :: "nat \<Rightarrow> psv \<Rightarrow> ps_state \<Rightarrow> ps_state" where
  "with_gpr i v s = s\<lparr>cur_state := (cur_state s)\<lparr>r_gpr := (r_gpr (cur_state s))[i := v]\<rparr>\<rparr>"

definition with_ip :: "psv \<Rightarrow> ps_state \<Rightarrow> ps_state" where
  "with_ip v s = s\<lparr>cur_state := (cur_state s)\<lparr>r_ip := v\<rparr>\<rparr>"

lemma with_simps [simp]:
  "ps_ok s \<Longrightarrow> ps_ok (with_gpr i v s)" "ps_ok s \<Longrightarrow> ps_ok (with_ip v s)"
  "r_gpr (cur_state (with_ip v s)) = r_gpr (cur_state s)" "r_gpr (cur_state (with_flag r v s)) = r_gpr (cur_state s)"
  "r_ip (cur_state (with_ip v s)) = v" "r_ip (cur_state (with_flag r v s)) = r_ip (cur_state s)"
  "r_ip (cur_state (with_gpr i v s)) = r_ip (cur_state s)"
  "r_gpr (cur_state (with_gpr i v s)) = (r_gpr (cur_state s))[i := v]"
  "r_memory (cur_state (with_gpr i v s)) = r_memory (cur_state s)"
  "r_memory (cur_state (with_flag r v s)) = r_memory (cur_state s)"
  "r_memory (cur_state (with_ip v s)) = r_memory (cur_state s)"
  "flag_of r (with_ip v s) = flag_of r s" "flag_of r (with_gpr i v s) = flag_of r s"
  by (simp_all add: ps_ok_def machine_ok_def with_gpr_def with_ip_def with_flag_def flag_of_def)

text \<open>The constant that an operand of \<open>n\<close> bits is read as, if the operand is an immediate or a general-purpose
  register (or the low, or second, byte of one) that holds a constant.\<close>

fun known_operand :: "ps_machine \<Rightarrow> nat \<Rightarrow> asm_expr \<Rightarrow> u64 option" where
  "known_operand m n (RegRef d t) =
     (if majr d = x86_regclass_gpr \<and> minr d < 8 \<and> nbits d = n \<and> (offset d = 0 \<or> offset d = 8 \<and> n = 8) \<and>
         r_gpr m ! minr d = ps_const 32 (voffset (r_gpr m ! minr d))
      then Some (drop_bit (offset d) (voffset (r_gpr m ! minr d))) else None)"
| "known_operand m n (ByteValue v) = getAsmSignedConstant (ByteValue v)"
| "known_operand m n (WordValue v) = getAsmSignedConstant (WordValue v)"
| "known_operand m n (DoubleWordValue v) = getAsmSignedConstant (DoubleWordValue v)"
| "known_operand m n (QuadWordValue v) = getAsmSignedConstant (QuadWordValue v)"
| "known_operand m n e = None"

lemma known_operand_gprs: "r_gpr m = r_gpr m' \<Longrightarrow> known_operand m n e = known_operand m' n e"
  by (cases e) simp_all

lemma read_gpr_known:
  assumes "n \<in> {8, 16, 32}" "minr d < 8" "majr d = 0" "nbits d = n" "offset d = 0 \<or> offset d = 8 \<and> n = 8"
    and "r_gpr (cur_state s) ! minr d = ps_const 32 x"
  shows "ps_readRegister n d s = (Inr (ps_const n (drop_bit (offset d) x)), s)"
  using assms
  by (auto simp: ps_readRegister_def read_byte_register_def read_word_register_def read_dword_register_def
      sem_simps get_gpr_def ps_extract_const ps_unsignedExtend_def)

lemma read_known_operand:
  assumes "known_operand (cur_state s) n e = Some x" "n \<in> {8, 16, 32}"
  shows "read_expr ps_x86 n e s = (Inr (ps_const n x), s)"
proof (cases e)
  case (RegRef d t)
  let ?g = "r_gpr (cur_state s) ! minr d"
  from RegRef assms(1) have d: "majr d = 0" "minr d < 8" "nbits d = n" "offset d = 0 \<or> offset d = 8 \<and> n = 8"
    "?g = ps_const 32 (voffset ?g)" "x = drop_bit (offset d) (voffset ?g)"
    by (simp_all split: if_splits)
  with read_gpr_known [OF assms(2) d(2,1,3,4,5)] show ?thesis by (simp add: RegRef)
qed (use assms in \<open>auto simp: sem_simps take_bit_eq_mask [symmetric]\<close>)

text \<open>Writing \<open>n\<close> bits at an offset into a register keeps its other bits.\<close>

definition insert_bits :: "nat \<Rightarrow> nat \<Rightarrow> u64 \<Rightarrow> u64 \<Rightarrow> u64" where
  "insert_bits i n old v = (old AND NOT (push_bit i (mask n))) OR push_bit i (take_bit n v)"

lemma bit_insert_bits:
  "bit (insert_bits i n old v) j \<longleftrightarrow> (if i \<le> j \<and> j < i + n then bit v (j - i) \<and> j < 64 else bit old j)"
  by (auto simp: insert_bits_def bit_simps dest: bit_imp_le_length)

lemma ps_concat_const: "m + n \<le> 64 \<Longrightarrow> ps_concat m n (ps_const m x) (ps_const n y) =
    retS (ps_const (m + n) (take_bit m x OR push_bit m y))"
  using ps.concat_known [of m n x y] by simp

lemma write_gpr_known:
  assumes "n \<in> {8, 16, 32}" "minr d < 8" "majr d = 0" "nbits d = n" "offset d = 0 \<or> offset d = 8 \<and> n = 8"
    and "n = 32 \<or> r_gpr (cur_state s) ! minr d = ps_const 32 x"
  shows "ps_writeRegister n d (ps_const n v) s =
    (Inr (), with_gpr (minr d) (ps_const 32 (insert_bits (offset d) n x v)) s)"
proof -
  have bits: "ps_const 32 a = ps_const 32 b" if "\<And>j. j < 32 \<Longrightarrow> bit a j = bit b j" for a b
    using that by (intro ps_const_eqI bit_word_eqI) (auto simp: bit_simps)
  have low8: "ps_const 32 (take_bit 8 v OR push_bit 8 (drop_bit 8 x)) = ps_const 32 (insert_bits 0 8 x v)"
    by (rule bits) (auto simp: bit_insert_bits bit_simps)
  have high8: "ps_const 32 (take_bit 8 x OR push_bit 8 (take_bit 8 v) OR push_bit 16 (drop_bit 16 x)) =
      ps_const 32 (insert_bits 8 8 x v)"
    by (rule bits) (auto simp: bit_insert_bits bit_simps)
  have low16: "ps_const 32 (take_bit 16 v OR push_bit 16 (drop_bit 16 x)) = ps_const 32 (insert_bits 0 16 x v)"
    by (rule bits) (auto simp: bit_insert_bits bit_simps)
  have all32: "ps_const 32 (insert_bits 0 32 x v) = ps_const 32 v"
    by (rule bits) (auto simp: bit_insert_bits bit_simps)
  note parts = low8 high8 low16 all32
  show ?thesis using assms
    by (auto simp: ps_writeRegister_def write_byte_register_def write_word_register_def write_dword_register_def
        sem_simps get_gpr_def set_gpr_def update_cur_def with_gpr_def ps_extract_const ps_concat_const
        ps_unsignedExtend_def ps_signExtend_def parts simp del: ps_const_inject)
qed

end
