(* ===== verification/ArithCorrect.thy ===== *)
theory ArithCorrect
  imports X86Correct Blocks
begin

unbundle bit_operations_syntax

declare One_nat_def [simp del] known_operand.simps [simp del]

text \<open>
  Additions, subtractions and comparisons on known operands. The flags are characterised by the exact
  integer result: the carry flag says that the unsigned result does not fit, the overflow flag that the
  signed one does not, and the adjust flag that the result of the low four bits does not.
\<close>

section \<open>The exact result\<close>

definition arith_borrow :: "arith_kind \<Rightarrow> bool \<Rightarrow> bool" where
  "arith_borrow k c \<longleftrightarrow> c \<and> (k = x86_adc \<or> k = x86_sbb)"

definition arith_adds :: "arith_kind \<Rightarrow> bool" where
  "arith_adds k \<longleftrightarrow> k = x86_add \<or> k = x86_adc"

definition arith_exact :: "arith_kind \<Rightarrow> bool \<Rightarrow> int \<Rightarrow> int \<Rightarrow> int" where
  "arith_exact k c x y =
     (if arith_adds k then x + y + of_bool (arith_borrow k c) else x - y - of_bool (arith_borrow k c))"

definition arith_word :: "arith_kind \<Rightarrow> bool \<Rightarrow> u64 \<Rightarrow> u64 \<Rightarrow> u64" where
  "arith_word k c x y =
     (if arith_adds k then x + y + bitw (arith_borrow k c) else x - y - bitw (arith_borrow k c))"

text \<open>The six flags after an operation on \<open>x\<close> and \<open>y\<close>.\<close>

definition arith_flags ::
  "('s, 'v) x86sem \<Rightarrow> (RegisterDescriptor \<Rightarrow> 's \<Rightarrow> 'v) \<Rightarrow> arith_kind \<Rightarrow> nat \<Rightarrow> bool \<Rightarrow> u64 \<Rightarrow> u64 \<Rightarrow> 's \<Rightarrow> bool" where
  "arith_flags X getf k n c x y s \<longleftrightarrow>
     getf (REG_CF X) s = flagv X (arith_exact k c (int (uval n x)) (int (uval n y)) \<notin> {0 ..< 2 ^ n}) \<and>
     getf (REG_OF X) s = flagv X (arith_exact k c (sval n x) (sval n y) \<notin> {- (2 ^ (n - 1)) ..< 2 ^ (n - 1)}) \<and>
     getf (REG_AF X) s = flagv X (arith_exact k c (int (uval 4 x)) (int (uval 4 y)) \<notin> {0 ..< 16}) \<and>
     getf (REG_ZF X) s = flagv X (2 ^ n dvd arith_exact k c (int (uval n x)) (int (uval n y))) \<and>
     getf (REG_SF X) s = flagv X (bit (arith_word k c x y) (n - 1)) \<and>
     getf (REG_PF X) s = flagv X (even_parity (arith_word k c x y))"

lemma uval_arith_word:
  assumes "n \<le> 64"
  shows "int (uval n (arith_word k c x y)) = arith_exact k c (int (uval n x)) (int (uval n y)) mod 2 ^ n"
proof -
  have uint: "int (uval n w) = uint w mod 2 ^ n" for w :: u64
    by (simp only: zmod_int uint_nat of_nat_power of_nat_numeral)
  have wrap: "uint (w :: u64) mod 2 ^ n = i mod 2 ^ n" if "uint w = i mod 2 ^ 64" for w i
    by (simp only: that) (simp only: mod_mod_cancel le_imp_power_dvd assms)
  have b: "uint (bitw b) = of_bool b" for b by (cases b) simp_all
  have "uint (arith_word k c x y) mod 2 ^ n = arith_exact k c (uint x) (uint y) mod 2 ^ n"
    by (rule wrap) (simp add: arith_word_def arith_exact_def uint_word_ariths b mod_simps)
  moreover have "arith_exact k c (i mod m) (j mod m) mod m = arith_exact k c i j mod m" for i j m
    by (auto simp: arith_exact_def intro!: mod_add_cong mod_diff_cong)
  ultimately show ?thesis by (simp only: uint)
qed

lemma trunc_arith_word:
  assumes "n \<le> 64"
  shows "take_bit n (arith_word k c x y) = 0 \<longleftrightarrow> 2 ^ n dvd arith_exact k c (int (uval n x)) (int (uval n y))"
proof -
  have "take_bit n (arith_word k c x y) = 0 \<longleftrightarrow> int (uval n (arith_word k c x y)) = 0"
    by (simp only: trunc_zero_uval of_nat_eq_0_iff)
  then show ?thesis by (simp only: uval_arith_word [OF assms] dvd_eq_mod_eq_0)
qed

text \<open>A sum or difference of \<open>n\<close>-bit numbers leaves the range on one side only.\<close>

lemma sum_range: "int A + int B + of_bool c \<notin> {0 ..< int M} \<longleftrightarrow> M \<le> A + B + of_bool c"
  by (cases c) auto

lemma difference_range: "A < M \<Longrightarrow> int A - int B - of_bool c \<notin> {0 ..< int M} \<longleftrightarrow> \<not> B + of_bool c \<le> A"
  by (cases c) auto

lemma adjust_carry: "4 \<le> n \<Longrightarrow> n < 64 \<Longrightarrow> adjust_flag n x y c \<longleftrightarrow> carry_flag 4 x y c"
  by (simp add: adjust_flag_iff carry_flag_iff)

lemma carry_exact:
  assumes "2 \<le> n" "n < 64"
  shows "carry_flag n x y (bitw c) \<longleftrightarrow> int (uval n x) + int (uval n y) + of_bool c \<notin> {0 ..< 2 ^ n}"
    and "\<not> carry_flag n x (NOT y) (bitw (\<not> c)) \<longleftrightarrow> int (uval n x) - int (uval n y) - of_bool c \<notin> {0 ..< 2 ^ n}"
proof -
  have "int (uval n x) + int (uval n y) + of_bool c \<notin> {0 ..< int (2 ^ n)} \<longleftrightarrow> carry_flag n x y (bitw c)"
    unfolding sum_range carry_flag_iff [OF assms] by simp
  then show "carry_flag n x y (bitw c) \<longleftrightarrow> int (uval n x) + int (uval n y) + of_bool c \<notin> {0 ..< 2 ^ n}" by simp
  have "int (uval n x) - int (uval n y) - of_bool c \<notin> {0 ..< int (2 ^ n)} \<longleftrightarrow> \<not> carry_flag n x (NOT y) (bitw (\<not> c))"
    by (subst difference_range) (simp_all only: borrow_iff [OF assms] mod_less_divisor zero_less_power zero_less_numeral)
  then show "\<not> carry_flag n x (NOT y) (bitw (\<not> c)) \<longleftrightarrow> int (uval n x) - int (uval n y) - of_bool c \<notin> {0 ..< 2 ^ n}" by simp
qed

section \<open>Operations on known operands\<close>

definition operand_bits :: "asm_expr \<Rightarrow> nat option" where
  "operand_bits e = map_option ((*) 8) (Option.bind (get_type e) numBytesInAsmType)"

lemma switch124_run: "operand_bits e = Some n \<Longrightarrow> n \<in> {8, 16, 32} \<Longrightarrow> switch124 e body = body n"
  by (auto simp: switch124_def operand_bits_def operand_bytes_def bind_eq_Some_conv ofOption_def sem_simps)

text \<open>The state after the flags of an operation have been set.\<close>

definition arith_after ::
  "('s, 'v) x86sem \<Rightarrow> (RegisterDescriptor \<Rightarrow> 'v \<Rightarrow> 's \<Rightarrow> 's) \<Rightarrow> arith_kind \<Rightarrow> nat \<Rightarrow> bool \<Rightarrow> u64 \<Rightarrow> u64 \<Rightarrow> 's \<Rightarrow> 's" where
  "arith_after X setf k n c x y s =
     (if arith_adds k then add_flags X setf n x y (bitw (arith_borrow k c)) False s
      else add_flags X setf n x (NOT y) (bitw (\<not> arith_borrow k c)) True s)"

context x86_flags
begin

lemma doAddOperation_run:
  assumes "ok s" "8 \<le> n" "n < 64" "a s = (Inr (p_number X n x), s)" "b s = (Inr (p_number X n y), s)" "cin s = (Inr (flagv X c), s)"
  shows "doAddOperation X n a b invr cin s =
    (Inr (p_number X n (x + y + bitw (c \<noteq> invr))), add_flags X setf n x y (bitw (c \<noteq> invr)) invr s)"
proof -
  have "doAddOperation X n a b invr cin s =
      doAddOperation X n (retS (p_number X n x)) (retS (p_number X n y)) invr (retS (flagv X c)) s"
    using assms by (simp add: doAddOperation_def sem_simps)
  then show ?thesis using assms by (simp add: doAddOperation_known)
qed

lemma add_flags_sum:
  assumes "ok s" "8 \<le> n" "n < 64" "arith_adds k"
  shows "arith_flags X getf k n c x y (add_flags X setf n x y (bitw (arith_borrow k c)) False s)"
proof -
  have w: "arith_word k c x y = x + y + bitw (arith_borrow k c)" using assms by (simp add: arith_word_def)
  have e: "arith_exact k c i j = i + j + of_bool (arith_borrow k c)" for i j using assms by (simp add: arith_exact_def)
  show ?thesis
    using assms trunc_arith_word [of n k c x y]
    by (simp add: arith_flags_def add_flags_get carry_exact(1) overflow_flag_iff sign_flag_def w adjust_carry
        carry_exact(1) [where n = 4, simplified] e)
qed

lemma add_flags_difference:
  assumes "ok s" "8 \<le> n" "n < 64" "\<not> arith_adds k"
  shows "arith_flags X getf k n c x y (add_flags X setf n x (NOT y) (bitw (\<not> arith_borrow k c)) True s)"
proof -
  have "x + NOT y + bitw (\<not> b) = x - y - bitw b" for b by (cases b) (simp_all add: not_eq_complement)
  then have w: "x + NOT y + bitw (\<not> arith_borrow k c) = arith_word k c x y" using assms by (simp add: arith_word_def)
  have e: "arith_exact k c i j = i - j - of_bool (arith_borrow k c)" for i j using assms by (simp add: arith_exact_def)
  show ?thesis
    using assms trunc_arith_word [of n k c x y]
    by (simp add: arith_flags_def add_flags_get carry_exact(2) sub_overflow_iff(1) sign_flag_def w adjust_carry
        carry_exact(2) [where n = 4, simplified] e)
qed

lemma arith_after_flags: "ok s \<Longrightarrow> 8 \<le> n \<Longrightarrow> n < 64 \<Longrightarrow> arith_flags X getf k n c x y (arith_after X setf k n c x y s)"
  by (simp add: arith_after_def add_flags_sum add_flags_difference)

lemma arith_after_ok: "ok s \<Longrightarrow> ok (arith_after X setf k n c x y s)"
  by (simp add: arith_after_def add_flags_ok)

lemma arith_case_known:
  assumes "ok s" "insn_operands insn = [a, b]" "operand_bits a = Some n" "n \<in> {8, 16, 32}"
    and "read_expr X n a s = (Inr (p_number X n x), s)" "read_expr X n b s = (Inr (p_number X n y), s)"
    and "k \<in> {x86_adc, x86_sbb} \<Longrightarrow> getf (REG_CF X) s = flagv X c"
  shows "k \<in> {x86_add, x86_adc, x86_sub, x86_sbb} \<Longrightarrow>
      translate_arith X k insn s =
      write_expr X n a (retS (p_number X n (arith_word k c x y))) (arith_after X setf k n c x y s)"
    and "translate_arith X x86_cmp insn s = (Inr (), arith_after X setf x86_cmp n c x y s)"
proof -
  have n: "8 \<le> n" "n < 64" using assms by auto
  have inverted: "invertV X n (read_expr X n b) s = (Inr (p_number X n (NOT y)), s)"
    using assms by (simp add: sem_simps invert_known)
  have false: "falseV X s = (Inr (flagv X False), s)" by (simp add: number_bit sem_simps)
  have carry: "k \<in> {x86_adc, x86_sbb} \<Longrightarrow> readRegister X 1 (REG_CF X) s = (Inr (flagv X c), s)" using assms by (simp add: flag_read)
  have diff: "x + NOT y + bitw (\<not> b) = x - y - bitw b" for b by (cases b) (simp_all add: not_eq_complement)
  have diff1: "x + NOT y + 1 = x - y" by (simp add: not_eq_complement)
  note sizes = operands2_def switch124_run [OF assms(3,4)] assms(2)
  have run: "doAddOperation X n (read_expr X n a) b invr cin s =
      (Inr (p_number X n (x + y + bitw (c \<noteq> invr))), add_flags X setf n x y (bitw (c \<noteq> invr)) invr s)"
    if "b s = (Inr (p_number X n y), s)" "cin s = (Inr (flagv X c), s)" for b y cin c invr
    using doAddOperation_run [OF assms(1) n, of "read_expr X n a"] assms(5) that by blast
  note runs = run assms(6) inverted false carry
  note names = arith_after_def arith_word_def arith_adds_def arith_borrow_def
  show "translate_arith X k insn s =
      write_expr X n a (retS (p_number X n (arith_word k c x y))) (arith_after X setf k n c x y s)"
    if "k \<in> {x86_add, x86_adc, x86_sub, x86_sbb}"
    using that
    by (elim insertE emptyE; hypsubst; simp add: x86_add_case_def x86_adc_case_def x86_sub_case_def x86_sbb_case_def
        sizes runs bind_run names diff diff1)
  show "translate_arith X x86_cmp insn s = (Inr (), arith_after X setf x86_cmp n c x y s)"
    by (simp add: x86_cmp_case_def sizes runs drop_run names)
qed

end

text \<open>Conditions are computed from the flags alone, so they may be tested in a later state.\<close>

context x86_flags
begin

lemma FLAGCOMBO_later:
  assumes "ok s" "8 \<le> n" "n < 64" "ok s'"
    and "\<And>r. getf r s' = getf r (arith_after X setf x86_cmp n c x y s)"
  shows "FLAGCOMBO X cc s' = (Inr (flagv X (cc_compare cc n x y)), s')"
proof -
  let ?s = "add_flags X setf n x (NOT y) 1 True s"
  have "arith_after X setf x86_cmp n c x y s = ?s" by (simp add: arith_after_def arith_adds_def arith_borrow_def)
  then have flags: "getf r s' = getf r ?s" for r using assms(5) by simp
  have "FLAGCOMBO X cc s' = (Inr (flagv X (cc_flags cc (\<not> carry_flag n x (NOT y) 1) (even_parity (x + NOT y + 1))
      (take_bit n (x + NOT y + 1) = 0) (sign_flag n x (NOT y) 1) (overflow_flag n x (NOT y) 1))), s')"
    using assms(1,4) by (intro FLAGCOMBO_known) (simp_all add: flags add_flags_get)
  then show ?thesis using assms(2,3) by (simp add: cc_flags_compare)
qed

end

section \<open>The partially symbolic policy\<close>

text \<open>Everything but the six status flags \<open>cf\<close>, \<open>pf\<close>, \<open>af\<close>, \<open>zf\<close>, \<open>sf\<close> and \<open>of\<close>.\<close>

definition other_flags_kept :: "psv list \<Rightarrow> psv list \<Rightarrow> bool" where
  "other_flags_kept fl fl' \<longleftrightarrow> length fl' = length fl \<and> (\<forall>i < length fl. i \<notin> {0, 2, 4, 6, 7, 11} \<longrightarrow> fl' ! i = fl ! i)"

definition same_but_flags :: "ps_state \<Rightarrow> ps_state \<Rightarrow> bool" where
  "same_but_flags s s' \<longleftrightarrow> (\<exists>fl. other_flags_kept (r_flag (cur_state s)) fl \<and> s' = s\<lparr>cur_state := (cur_state s)\<lparr>r_flag := fl\<rparr>\<rparr>)"

lemma same_but_flags_refl: "same_but_flags s s"
  by (auto simp: same_but_flags_def other_flags_kept_def intro!: exI [of _ "r_flag (cur_state s)"])

lemma same_but_flags_with:
  "same_but_flags s s' \<Longrightarrow> offset r \<in> {0, 2, 4, 6, 7, 11} \<Longrightarrow> same_but_flags s (with_flag r v s')"
  unfolding same_but_flags_def with_flag_def
  by (elim exE) (rule_tac x = "fl[offset r := v]" in exI, auto simp: other_flags_kept_def nth_list_update)

lemma same_but_flags_after: "same_but_flags s (arith_after ps_x86 with_flag k n c x y s)"
  unfolding arith_after_def add_flags_def result_flags_def
  by (auto intro!: same_but_flags_with same_but_flags_refl)

lemma same_but_flags_machine:
  "same_but_flags s s' \<Longrightarrow> r_gpr (cur_state s') = r_gpr (cur_state s) \<and> r_ip (cur_state s') = r_ip (cur_state s) \<and>
     r_memory (cur_state s') = r_memory (cur_state s) \<and> r_segreg (cur_state s') = r_segreg (cur_state s)"
  by (auto simp: same_but_flags_def)

lemma eip_advance_run:
  assumes "r_ip (cur_state s) = ps_const 32 ip"
  shows "translate ps_x86 insn s =
    translate_kind ps_x86 (ps_const 32 ip) (insn_kind insn) insn (with_ip (ps_const 32 (ip + of_nat (insn_size insn))) s)"
proof -
  have set_eip: "ps_writeRegister 32 (reg_desc 7 0 0 32) (ps_const 32 v) s = (Inr (), with_ip (ps_const 32 v) s)" for v s
    by (simp add: ps_writeRegister_def write_dword_register_def sem_simps ps_unsignedExtend_def set_ip_def update_cur_def with_ip_def)
  show ?thesis
    unfolding translate_def
    by (simp add: sem_simps read_ip_run assms ps.add_known [simplified] set_eip)
qed

text \<open>A state whose registers all hold constants; every flag has the same value.\<close>

definition const_state :: "u64 list \<Rightarrow> bool \<Rightarrow> u64 \<Rightarrow> ps_state" where
  "const_state gprs f ip =
     (let m = \<lparr>r_ip = ps_const 32 ip, r_gpr = map (ps_const 32) gprs, r_segreg = replicate 6 (ps_const 16 0),
               r_flag = replicate 32 (ps_const 1 (bitw f)), r_memory = []\<rparr> in
      \<lparr>name_counter = 0, cur_state = m, orig_state = m, discard_popped = False, ninsns = 0, cur_insn = None,
       ps_map = None, regdict = dict_new ''''\<rparr>)"

lemma const_state_sel [simp]:
  "r_ip (cur_state (const_state gprs f ip)) = ps_const 32 ip"
  "r_gpr (cur_state (const_state gprs f ip)) = map (ps_const 32) gprs"
  "r_memory (cur_state (const_state gprs f ip)) = []"
  "name_counter (const_state gprs f ip) = 0" "ninsns (const_state gprs f ip) = 0"
  "discard_popped (const_state gprs f ip) = False"
  "length gprs = 8 \<Longrightarrow> ps_ok (const_state gprs f ip)"
  by (simp_all add: const_state_def ps_ok_def machine_ok_def Let_def)

lemma const_state_flag [simp]: "k < 32 \<Longrightarrow> flag_of (reg_desc 8 0 k 1) (const_state gprs f ip) = flagv ps_x86 f"
  by (simp add: const_state_def flag_of_def flagv_def Let_def)

lemma bits_of_operand: "operand_bits e = Some n \<Longrightarrow> n \<le> 32 \<Longrightarrow> n \<in> {8, 16, 32}"
  by (cases "get_type e") (auto simp: operand_bits_def elim!: numBytesInAsmType.elims)

lemma ps_arith_known:
  assumes "ps_ok s" "insn_operands insn = [a, b]" "operand_bits a = Some n" "n \<le> 32"
    and "known_operand (cur_state s) n a = Some x" "known_operand (cur_state s) n b = Some y"
    and "k \<in> {x86_adc, x86_sbb} \<Longrightarrow> flag_of (REG_CF ps_x86) s = flagv ps_x86 c"
  shows "k \<in> {x86_add, x86_adc, x86_sub, x86_sbb} \<Longrightarrow>
      translate_arith ps_x86 k insn s =
      write_expr ps_x86 n a (retS (ps_const n (arith_word k c x y))) (arith_after ps_x86 with_flag k n c x y s)"
    and "translate_arith ps_x86 x86_cmp insn s = (Inr (), arith_after ps_x86 with_flag x86_cmp n c x y s)"
proof -
  have n: "n \<in> {8, 16, 32}" using bits_of_operand assms(3,4) .
  have reads: "read_expr ps_x86 n a s = (Inr (p_number ps_x86 n x), s)" "read_expr ps_x86 n b s = (Inr (p_number ps_x86 n y), s)"
    using read_known_operand assms(5,6) n by simp_all
  note known = ps.arith_case_known [OF assms(1-3) n reads, of k c] assms(7)
  show "translate_arith ps_x86 k insn s =
      write_expr ps_x86 n a (retS (ps_const n (arith_word k c x y))) (arith_after ps_x86 with_flag k n c x y s)"
    if "k \<in> {x86_add, x86_adc, x86_sub, x86_sbb}"
    using known that by simp
  show "translate_arith ps_x86 x86_cmp insn s = (Inr (), arith_after ps_x86 with_flag x86_cmp n c x y s)"
    using ps.arith_case_known(2) [OF assms(1-3) n reads, of x86_cmp c] by simp
qed

text \<open>Every member of the policy's state is the same but the instruction pointer, the general-purpose registers and the
  status flags.\<close>

definition rest_kept :: "ps_state \<Rightarrow> ps_state \<Rightarrow> bool" where
  "rest_kept s s' \<longleftrightarrow> (\<exists>fl. other_flags_kept (r_flag (cur_state s)) fl \<and>
     s' = s\<lparr>cur_state := (cur_state s)\<lparr>r_ip := r_ip (cur_state s'), r_gpr := r_gpr (cur_state s'), r_flag := fl\<rparr>\<rparr>)"

text \<open>Property C4. \<open>add\<close>, \<open>adc\<close>, \<open>sub\<close> and \<open>sbb\<close> of a known general-purpose register (or part of one) and a known
  register or immediate, at any operand width: the instruction succeeds, its destination holds the exact integer
  result reduced modulo the width, the other bits of the register and the other registers and the memory keep
  their values, the instruction pointer advances, and all six status flags are as the exact result demands. Nothing else of
  the policy's state changes: segment registers, the other flags, the original state, the name counter and all members
  are what they were.\<close>

theorem add_sub_known_operands:
  assumes "insn_kind insn = Arith k" "k \<in> {x86_add, x86_adc, x86_sub, x86_sbb}"
    and "insn_operands insn = [RegRef d t, b]" "operand_bits (RegRef d t) = Some n" "n \<le> 32"
    and "ps_ok s" "r_ip (cur_state s) = ps_const 32 ip"
    and "k \<in> {x86_adc, x86_sbb} \<longrightarrow> flag_of (REG_CF ps_x86) s = flagv ps_x86 c"
    and "known_operand (cur_state s) n (RegRef d t) = Some x" "known_operand (cur_state s) n b = Some y"
  shows "\<exists>s' r. translate ps_x86 insn s = (Inr (), s') \<and> ps_ok s' \<and>
    int (uval n r) = arith_exact k c (int (uval n x)) (int (uval n y)) mod 2 ^ n \<and>
    r_gpr (cur_state s') = (r_gpr (cur_state s))
      [minr d := ps_const 32 (insert_bits (offset d) n (voffset (r_gpr (cur_state s) ! minr d)) r)] \<and>
    arith_flags ps_x86 flag_of k n c x y s' \<and> r_memory (cur_state s') = r_memory (cur_state s) \<and>
    r_ip (cur_state s') = ps_const 32 (ip + of_nat (insn_size insn)) \<and>
    rest_kept s s'"
proof -
  let ?g = "r_gpr (cur_state s) ! minr d"
  from assms(9) have d: "majr d = 0" "minr d < 8" "nbits d = n" "offset d = 0 \<or> offset d = 8 \<and> n = 8"
    "?g = ps_const 32 (voffset ?g)" by (simp_all add: known_operand.simps split: if_splits)
  have n: "n \<in> {8, 16, 32}" using bits_of_operand assms(4,5) .
  define s1 where "s1 = with_ip (ps_const 32 (ip + of_nat (insn_size insn))) s"
  define s2 where "s2 = arith_after ps_x86 with_flag k n c x y s1"
  have ok: "ps_ok s1" "ps_ok s2" using assms(6) by (simp_all add: s1_def s2_def ps.arith_after_ok)
  have known: "known_operand (cur_state s1) n e = known_operand (cur_state s) n e" for e
    by (rule known_operand_gprs) (simp add: s1_def)
  have same: "r_gpr (cur_state s2) = r_gpr (cur_state s)" "r_memory (cur_state s2) = r_memory (cur_state s)"
    "r_ip (cur_state s2) = r_ip (cur_state s1)"
    using same_but_flags_machine [OF same_but_flags_after] by (simp_all add: s1_def s2_def)
  have "translate ps_x86 insn s = translate_arith ps_x86 k insn s1"
    using eip_advance_run [OF assms(7)] by (simp add: assms(1) s1_def)
  also have "\<dots> = write_expr ps_x86 n (RegRef d t) (retS (ps_const n (arith_word k c x y))) s2"
    unfolding s2_def using assms known by (intro ps_arith_known(1) [OF ok(1)]) (auto simp: s1_def)
  also have "\<dots> = (Inr (), with_gpr (minr d) (ps_const 32 (insert_bits (offset d) n (voffset ?g) (arith_word k c x y))) s2)"
    using write_gpr_known [OF n d(2,1,3,4), of s2 "voffset ?g"] d(5) by (simp add: write_expr_def sem_simps same)
  finally have run: "translate ps_x86 insn s = (Inr (), with_gpr (minr d)
      (ps_const 32 (insert_bits (offset d) n (voffset ?g) (arith_word k c x y))) s2)" .
  have "arith_flags ps_x86 flag_of k n c x y s2"
    using ps.arith_after_flags [OF ok(1)] n unfolding s2_def by auto
  then have flags: "arith_flags ps_x86 flag_of k n c x y (with_gpr i v s2)" for i v
    by (simp only: arith_flags_def with_simps)
  have "int (uval n (arith_word k c x y)) = arith_exact k c (int (uval n x)) (int (uval n y)) mod 2 ^ n"
    using assms(5) by (intro uval_arith_word) simp
  moreover have "rest_kept s (with_gpr i v s2)" for i v
    using same_but_flags_after [of s1 k n c x y]
    by (auto simp: same_but_flags_def rest_kept_def s2_def s1_def with_ip_def with_gpr_def)
  ultimately show ?thesis using run ok(2) flags
    by (intro exI conjI) (assumption | simp add: same s1_def)+
qed

text \<open>\<open>sbb bh, -128\<close> with the carry flag set: 127 + 128 - 1 overflows.\<close>

definition sbb_sample :: x86_insn where
  "sbb_sample =
     \<lparr>insn_kind = Arith x86_sbb, insn_operands = [RegRef (reg_desc 0 3 8 8) TypeByte, ByteValue 0x80], insn_size = 3,
      insn_address = 0x1000, insn_addressSize = insnsize_32, insn_operandSize = insnsize_32, insn_segmentOverride = 7\<rparr>"

theorem add_sub_known_operands_witness:
  "\<exists>s' r. translate ps_x86 sbb_sample (const_state [0, 0, 0, 0x12347F56, 0, 0, 0, 0] True 0x1000) = (Inr (), s') \<and>
    uval 8 r = 0xFE \<and> r_gpr (cur_state s') = map (ps_const 32) [0, 0, 0, 0x1234FE56, 0, 0, 0, 0] \<and>
    flag_of (REG_CF ps_x86) s' = flagv ps_x86 True \<and> flag_of (REG_OF ps_x86) s' = flagv ps_x86 True"
proof -
  let ?s = "const_state [0, 0, 0, 0x12347F56, 0, 0, 0, 0] True 0x1000"
  have x: "known_operand (cur_state ?s) 8 (RegRef (reg_desc 0 3 8 8) TypeByte) = Some 0x12347F"
    by (simp add: known_operand.simps) code_simp
  have y: "known_operand (cur_state ?s) 8 (ByteValue 0x80) = Some 0xFFFFFFFFFFFFFF80"
    by (simp add: known_operand.simps) code_simp
  obtain s' r where run: "translate ps_x86 sbb_sample ?s = (Inr (), s')" "int (uval 8 r) = 0xFE"
    "r_gpr (cur_state s') = (r_gpr (cur_state ?s)) [3 := ps_const 32 (insert_bits 8 8 0x12347F56 r)]"
    "arith_flags ps_x86 flag_of x86_sbb 8 True 0x12347F 0xFFFFFFFFFFFFFF80 s'"
    using add_sub_known_operands [of sbb_sample x86_sbb "reg_desc 0 3 8 8" TypeByte "ByteValue 0x80" 8 ?s "0x1000" True
        "0x12347F" "0xFFFFFFFFFFFFFF80"] x y
    by (auto simp: sbb_sample_def operand_bits_def arith_exact_def arith_adds_def arith_borrow_def)
  from run(2) have "take_bit 8 r = take_bit 8 0xFE" by (simp only: trunc_eq_uval) simp
  then have "insert_bits 8 8 0x12347F56 r = insert_bits 8 8 0x12347F56 0xFE" by (simp add: insert_bits_def)
  moreover have "insert_bits 8 8 0x12347F56 0xFE = 0x1234FE56" by code_simp
  ultimately have "r_gpr (cur_state s') = map (ps_const 32) [0, 0, 0, 0x1234FE56, 0, 0, 0, 0]"
    using run(3) by (simp add: One_nat_def)
  moreover have "sval 8 (0x12347F :: u64) = 127" "sval 8 (0xFFFFFFFFFFFFFF80 :: u64) = - 128" by (simp_all add: sval_def)
  then have "flag_of (REG_CF ps_x86) s' = flagv ps_x86 True" "flag_of (REG_OF ps_x86) s' = flagv ps_x86 True"
    using run(4) by (simp_all add: arith_flags_def arith_exact_def arith_adds_def arith_borrow_def)
  ultimately show ?thesis using run(1,2) by (intro exI conjI) (assumption | simp)+
qed

section \<open>Comparisons and conditional jumps\<close>

lemma set_eip_run:
  "ps_writeRegister 32 (reg_desc 7 0 0 32) (ps_const 32 v) s = (Inr (), with_ip (ps_const 32 v) s)"
  by (simp add: ps_writeRegister_def write_dword_register_def sem_simps ps_unsignedExtend_def set_ip_def update_cur_def with_ip_def)

lemma flag_ite: "ps_ite n (flagv ps_x86 c) (ps_const n x) (ps_const n y) = retS (ps_const n (if c then x else y))"
  using ps.flag_laws(5) [of n c x y] by simp

lemma jump_known:
  assumes "insn_operands insn = [b]" "known_operand (cur_state s) 32 b = Some target"
    and "cond s = (Inr (flagv ps_x86 c), s)" "r_ip (cur_state s) = ps_const 32 next"
  shows "JUMP ps_x86 cond insn s = (Inr (), with_ip (ps_const 32 (if c then target else next)) s)"
  using assms
  by (simp add: JUMP_def operands1_def read32_def sem_simps read_known_operand read_ip_run flag_ite set_eip_run)

text \<open>The states in which the policy starts and finishes an instruction.\<close>

definition ps_started :: "u64 \<Rightarrow> ps_state \<Rightarrow> ps_state" where
  "ps_started addr s = snd (ps_startInstruction addr s)"

definition ps_finished :: "ps_state \<Rightarrow> ps_state" where
  "ps_finished s = snd (ps_finishInstruction s)"

lemma start_run: "ps_startInstruction addr s = (Inr (), ps_started addr s)"
  by (simp add: ps_started_def ps_startInstruction_def modifyS_def)

lemma finish_run: "ps_finishInstruction s = (Inr (), ps_finished s)"
  by (simp add: ps_finished_def ps_finishInstruction_def modifyS_def)

lemma ps_started_sel [simp]:
  "r_ip (cur_state (ps_started addr s)) = ps_const 32 addr" "r_gpr (cur_state (ps_started addr s)) = r_gpr (cur_state s)"
  "flag_of r (ps_started addr s) = flag_of r s" "ps_ok (ps_started addr s) = ps_ok s"
  "r_memory (cur_state (ps_started addr s)) = r_memory (cur_state s)"
  by (simp_all add: ps_started_def ps_startInstruction_def modifyS_def Let_def flag_of_def ps_ok_def machine_ok_def)

lemma ps_finished_sel [simp]:
  "r_ip (cur_state (ps_finished s)) = r_ip (cur_state s)" "r_gpr (cur_state (ps_finished s)) = r_gpr (cur_state s)"
  "flag_of r (ps_finished s) = flag_of r s" "ps_ok (ps_finished s) = ps_ok s"
  by (simp_all add: ps_finished_def ps_finishInstruction_def modifyS_def Let_def discard_popped_memory_def flag_of_def
      ps_ok_def machine_ok_def)

lemma processStatement_run:
  "translate ps_x86 insn (ps_started (insn_address insn) s) = (r, s') \<Longrightarrow>
   processStatement ps_x86 (X86Stmt insn) s = (r, case r of Inl _ \<Rightarrow> s' | Inr _ \<Rightarrow> ps_finished s')"
  by (cases r) (simp_all add: processStatement_def processInstruction_def sem_simps start_run finish_run)

text \<open>Property C3. A block of \<open>cmp a, b\<close> and a conditional jump to a known target, with known operands of any
  width: after the block the instruction pointer is the target exactly if the condition of the jump holds for
  the operands, as an unsigned or signed comparison, and otherwise the address after the jump; the general
  registers are unchanged.\<close>

theorem compare_and_branch:
  assumes "insn_kind cmp = Arith x86_cmp" "insn_operands cmp = [a, b]" "operand_bits a = Some n" "n \<le> 32"
    and "insn_kind jcc = Control (x86_j cc)" "insn_operands jcc = [t]"
    and "ps_ok s"
    and "known_operand (cur_state s) n a = Some x" "known_operand (cur_state s) n b = Some y"
    and "known_operand (cur_state s) 32 t = Some target"
  shows "\<exists>s'. processBlock ps_x86 [X86Stmt cmp, X86Stmt jcc] s = (Inr (), s') \<and> ps_ok s' \<and>
    r_ip (cur_state s') =
      ps_const 32 (if cc_compare cc n x y then target else insn_address jcc + of_nat (insn_size jcc)) \<and>
    r_gpr (cur_state s') = r_gpr (cur_state s)"
proof -
  have n: "n \<in> {8, 16, 32}" using bits_of_operand assms(3,4) .
  have plain: "\<not> isRepeatedStringOp (X86Stmt i)" "\<not> isHltOrInt (X86Stmt i)" if "i \<in> {cmp, jcc}" for i
    using that assms(1,5) by (auto simp: isRepeatedStringOp_def isHltOrInt_def)
  then have block: "processBlock ps_x86 [X86Stmt cmp, X86Stmt jcc] =
      blockS [blockS [processStatement ps_x86 (X86Stmt cmp), processStatement ps_x86 (X86Stmt jcc)]]"
    using processBlock_from_pieces [of ps_x86 "[X86Stmt cmp, X86Stmt jcc]" 0]
    by (simp add: processBlock_def cut_between_def process_piece_def seq_ret seq_assoc)
  let ?start = "with_ip (ps_const 32 (insn_address cmp + of_nat (insn_size cmp))) (ps_started (insn_address cmp) s)"
  define s1 where "s1 = ps_finished (arith_after ps_x86 with_flag x86_cmp n False x y ?start)"
  have known: "known_operand (cur_state ?start) n e = known_operand (cur_state s) n e" for e
    by (rule known_operand_gprs) simp
  have "translate ps_x86 cmp (ps_started (insn_address cmp) s) = (Inr (), arith_after ps_x86 with_flag x86_cmp n False x y ?start)"
    using eip_advance_run [of "ps_started (insn_address cmp) s" "insn_address cmp" cmp] assms known
      ps_arith_known(2) [of ?start cmp a b n x y x86_cmp False] by simp
  then have first: "processStatement ps_x86 (X86Stmt cmp) s = (Inr (), s1)"
    by (simp add: processStatement_run s1_def)
  define s2 where
    "s2 = with_ip (ps_const 32 (insn_address jcc + of_nat (insn_size jcc))) (ps_started (insn_address jcc) s1)"
  have gprs: "r_gpr (cur_state s2) = r_gpr (cur_state s)"
    using same_but_flags_machine [OF same_but_flags_after] by (simp add: s2_def s1_def)
  have ok: "ps_ok s2" using assms(7) by (simp add: s2_def s1_def ps.arith_after_ok)
  have "known_operand (cur_state s2) 32 t = Some target"
    using known_operand_gprs [OF gprs] assms(10) by simp
  moreover have "FLAGCOMBO ps_x86 cc s2 = (Inr (flagv ps_x86 (cc_compare cc n x y)), s2)"
    using n assms(7) ok by (intro ps.FLAGCOMBO_later [of ?start]) (auto simp: s1_def s2_def)
  ultimately have "JUMP ps_x86 (FLAGCOMBO ps_x86 cc) jcc s2 =
      (Inr (), with_ip (ps_const 32 (if cc_compare cc n x y then target else insn_address jcc + of_nat (insn_size jcc))) s2)"
    using assms(6) by (intro jump_known) (simp_all add: s2_def)
  then have "translate ps_x86 jcc (ps_started (insn_address jcc) s1) =
      (Inr (), with_ip (ps_const 32 (if cc_compare cc n x y then target else insn_address jcc + of_nat (insn_size jcc))) s2)"
    using eip_advance_run [of "ps_started (insn_address jcc) s1" "insn_address jcc" jcc] assms(5) by (simp add: s2_def)
  from processStatement_run [OF this] ok gprs show ?thesis
    by (simp add: block first sem_simps)
qed

definition cmp_sample :: x86_insn where
  "cmp_sample =
     \<lparr>insn_kind = Arith x86_cmp, insn_operands = [RegRef (reg_desc 0 0 0 8) TypeByte, ByteValue 1], insn_size = 2,
      insn_address = 0x1000, insn_addressSize = insnsize_32, insn_operandSize = insnsize_32, insn_segmentOverride = 7\<rparr>"

definition jcc_sample :: "x86_cc \<Rightarrow> x86_insn" where
  "jcc_sample cc =
     \<lparr>insn_kind = Control (x86_j cc), insn_operands = [DoubleWordValue 0x2000], insn_size = 2,
      insn_address = 0x1002, insn_addressSize = insnsize_32, insn_operandSize = insnsize_32, insn_segmentOverride = 7\<rparr>"

text \<open>With \<open>al = 255\<close>, \<open>cmp al, 1\<close> makes \<open>jl\<close> jump and \<open>jb\<close> fall through.\<close>

theorem compare_and_branch_witness:
  "\<exists>s1 s2. processBlock ps_x86 [X86Stmt cmp_sample, X86Stmt (jcc_sample cc_l)] (const_state [255, 0, 0, 0, 0, 0, 0, 0] True 0) = (Inr (), s1) \<and>
    processBlock ps_x86 [X86Stmt cmp_sample, X86Stmt (jcc_sample cc_b)] (const_state [255, 0, 0, 0, 0, 0, 0, 0] True 0) = (Inr (), s2) \<and>
    r_ip (cur_state s1) = ps_const 32 0x2000 \<and> r_ip (cur_state s2) = ps_const 32 0x1004"
proof -
  let ?s = "const_state [255, 0, 0, 0, 0, 0, 0, 0] True 0"
  have x: "known_operand (cur_state ?s) 8 (RegRef (reg_desc 0 0 0 8) TypeByte) = Some 255"
    by (simp add: known_operand.simps)
  have y: "known_operand (cur_state ?s) 8 (ByteValue 1) = Some 1" by (simp add: known_operand.simps) code_simp
  have t: "known_operand (cur_state ?s) 32 (DoubleWordValue 0x2000) = Some 0x2000" by (simp add: known_operand.simps) code_simp
  have branch: "\<exists>s'. processBlock ps_x86 [X86Stmt cmp_sample, X86Stmt (jcc_sample cc)] ?s = (Inr (), s') \<and>
      r_ip (cur_state s') = ps_const 32 (if cc_compare cc 8 255 1 then 0x2000 else 0x1004)" for cc
    using compare_and_branch [of cmp_sample "RegRef (reg_desc 0 0 0 8) TypeByte" "ByteValue 1" 8 "jcc_sample cc" cc
        "DoubleWordValue 0x2000" ?s 255 1 "0x2000"] x y t
    by (auto simp: cmp_sample_def jcc_sample_def operand_bits_def simp del: ps_const_inject)
  have "cc_compare cc_l 8 255 1" "\<not> cc_compare cc_b 8 255 1" by (simp_all add: sval_def)
  with branch [of cc_l] branch [of cc_b] show ?thesis by auto
qed

end
