(* ===== verification/MemCorrect.thy ===== *)
theory MemCorrect
  imports ArithCorrect
begin

unbundle bit_operations_syntax

declare One_nat_def [simp del] known_operand.simps [simp del]

text \<open>
  Memory of the partially symbolic policy on constants and unknowns alike: a read after a write to the same
  address, the stack instructions as inverses of each other, and when two cells may overlap.
\<close>

section \<open>Values of 32 bits\<close>

definition wf32 :: "psv \<Rightarrow> bool" where
  "wf32 v \<longleftrightarrow> take_bit 32 (voffset v) = voffset v \<and> (vname v = 0 \<longrightarrow> \<not> vnegate v)"

text \<open>The value \<open>v + k\<close>.\<close>

definition ps_offset :: "psv \<Rightarrow> u64 \<Rightarrow> psv" where
  "ps_offset v k = v\<lparr>voffset := take_bit 32 (voffset v + k)\<rparr>"

lemma wf32_convert: "wf32 v \<Longrightarrow> ps_convert 32 v = v"
  by (simp add: wf32_def ps_convert_def and_genMask)

lemma wf32_const [simp]: "wf32 (ps_const 32 x)"
  by (simp add: wf32_def)

lemma wf32_offset [simp]: "wf32 v \<Longrightarrow> wf32 (ps_offset v k)"
  by (simp add: wf32_def ps_offset_def)

lemma offset_zero [simp]: "wf32 v \<Longrightarrow> ps_offset v 0 = v"
  by (simp add: wf32_def ps_offset_def)

lemma offset_offset [simp]: "ps_offset (ps_offset v k) j = ps_offset v (k + j)"
proof -
  have "take_bit 32 (take_bit 32 (voffset v + k) + j) = take_bit 32 (voffset v + k + j)"
    by (simp only: trunc_simps)
  then show ?thesis by (simp add: ps_offset_def add.assoc)
qed

lemma ps_add_offset: "wf32 v \<Longrightarrow> ps_add 32 v (ps_const 32 k) = retS (ps_offset v k)"
proof -
  assume v: "wf32 v"
  have "take_bit 32 (voffset v + take_bit 32 k) = take_bit 32 (voffset v + k)" by (simp only: trunc_simps)
  with v show ?thesis
    by (auto simp: ps_add_def ps_offset_def ps_const_eq ps_named_def wf32_def and_genMask)
qed

lemma ps_eq_refl [simp]: "ps_eq v v"
  by (simp add: ps_eq_def)

section \<open>Reading back what was written\<close>

definition with_memory :: "mem_cell list \<Rightarrow> ps_state \<Rightarrow> ps_state" where
  "with_memory mem s = s\<lparr>cur_state := (cur_state s)\<lparr>r_memory := mem\<rparr>\<rparr>"

lemma with_memory_sel [simp]:
  "r_gpr (cur_state (with_memory mem s)) = r_gpr (cur_state s)" "r_ip (cur_state (with_memory mem s)) = r_ip (cur_state s)"
  "r_memory (cur_state (with_memory mem s)) = mem" "ps_ok (with_memory mem s) = ps_ok s"
  "flag_of r (with_memory mem s) = flag_of r s" "discard_popped (with_memory mem s) = discard_popped s"
  by (simp_all add: with_memory_def ps_ok_def machine_ok_def flag_of_def)

text \<open>A memory holds \<open>v\<close> at an address if the first cell with that address does.\<close>

definition holds_at :: "mem_cell list \<Rightarrow> psv \<Rightarrow> psv \<Rightarrow> bool" where
  "holds_at mem addr v \<longleftrightarrow>
     (\<exists>c. find (\<lambda>c. ps_eq addr (cell_address c)) mem = Some c \<and> \<not> cell_clobbered c \<and> cell_data c = v)"

lemma mem_scan_holds:
  "holds_at mem (cell_address new) v \<Longrightarrow> \<exists>al'. mem_scan new al mem = (Some (v, mem), al')"
proof (induction mem arbitrary: al)
  case (Cons c cs)
  show ?case
  proof (cases "ps_eq (cell_address new) (cell_address c)")
    case True
    with Cons.prems show ?thesis by (simp add: holds_at_def must_alias_def)
  next
    case False
    with Cons.prems have "holds_at cs (cell_address new) v" by (simp add: holds_at_def)
    from Cons.IH [OF this, of "al \<or> may_alias new c \<and> cell_written c"] False show ?thesis
      by (auto simp: must_alias_def)
  qed
qed (simp add: holds_at_def)

lemma read_holds:
  assumes "holds_at (r_memory (cur_state s)) addr v"
  shows "ps_readMemory n seg addr c s = (Inr (ps_convert n v), s\<lparr>name_counter := name_counter s + 1\<rparr>)"
proof -
  let ?new = "mem_cell_new addr (ps_unknown (name_counter s + 1)) (n div 8)"
  have "cell_address ?new = addr" by (simp add: mem_cell_new_def)
  with mem_scan_holds [of "r_memory (cur_state s)" ?new v False] assms
  obtain al where "mem_scan ?new False (r_memory (cur_state s)) = (Some (v, r_memory (cur_state s)), al)" by auto
  then show ?thesis
    by (simp add: ps_readMemory_def mem_read_def sem_simps fresh_run Let_def getS_def update_cur_def modifyS_def)
qed

lemma mem_write_holds: "holds_at (r_memory (mem_write disc n addr v m)) addr (ps_convert 32 v)"
proof -
  let ?new = "(mem_cell_new addr v (n div 8))\<lparr>cell_written := True\<rparr>"
  have new: "cell_address ?new = addr" "\<not> cell_clobbered ?new" "cell_data ?new = ps_convert 32 v"
    by (simp_all add: mem_cell_new_def)
  have cell: "cell_address (mem_write_cell disc m ?new c) = (if must_alias ?new c then addr else cell_address c)"
    "must_alias ?new c \<Longrightarrow> mem_write_cell disc m ?new c = ?new" for c
    using new(1) by (simp_all add: mem_write_cell_def)
  have find: "find (\<lambda>c. ps_eq addr (cell_address c)) (map (mem_write_cell disc m ?new) cs) =
      (if list_ex (must_alias ?new) cs then Some ?new else None)" for cs
  proof (induction cs)
    case (Cons c cs)
    then show ?case by (simp add: cell, simp add: must_alias_def new(1))
  qed simp
  have append: "find Q (xs @ [x]) = (case find Q xs of Some y \<Rightarrow> Some y | None \<Rightarrow> if Q x then Some x else None)" for Q xs and x :: mem_cell
    by (induction xs) simp_all
  show ?thesis
    by (simp add: holds_at_def mem_write_def Let_def find append new)
qed

text \<open>Property C16. A read of any width up to 32 bits returns the low bits of the value last written to the same
  address, whether the address and the value are constants or unknowns and whatever else is in memory.\<close>

theorem read_after_write:
  assumes "n \<le> 32"
  shows "\<exists>s1 s2. ps_writeMemory m seg addr v cond s = (Inr (), s1) \<and>
    ps_readMemory n seg' addr cond' s1 = (Inr (ps_convert n v), s2) \<and>
    r_memory (cur_state s2) = r_memory (cur_state s1)"
proof -
  let ?s1 = "with_memory (r_memory (mem_write (discard_popped s) m addr v (cur_state s))) s"
  have "ps_writeMemory m seg addr v cond s = (Inr (), ?s1)"
    by (simp add: ps_writeMemory_def sem_simps getS_def update_cur_def modifyS_def with_memory_def mem_write_def Let_def)
  moreover have "holds_at (r_memory (cur_state ?s1)) addr (ps_convert 32 v)" by (simp add: mem_write_holds)
  moreover have "ps_convert n (ps_convert 32 v) = ps_convert n v"
    using assms by (simp add: ps_convert_def and_genMask min_def)
  ultimately show ?thesis using read_holds [of ?s1] by fastforce
qed

theorem read_after_write_witness:
  "\<exists>s1 s2. ps_writeMemory 32 2 (ps_named 32 7 0xFFFFFFFC False) (ps_const 32 0x12345678) (ps_const 1 1)
      (const_state [0, 0, 0, 0, 0, 0, 0, 0] False 0) = (Inr (), s1) \<and>
    ps_readMemory 16 2 (ps_named 32 7 0xFFFFFFFC False) (ps_const 1 1) s1 = (Inr (ps_convert 16 (ps_const 32 0x12345678)), s2)"
  using read_after_write [of 16 32 2 "ps_named 32 7 0xFFFFFFFC False" "ps_const 32 0x12345678"] by fastforce

section \<open>The stack\<close>

lemma read_gpr32: "i < 8 \<Longrightarrow> ps_readRegister 32 (reg_desc 0 i 0 32) s = (Inr (ps_convert 32 (r_gpr (cur_state s) ! i)), s)"
  by (simp add: ps_readRegister_def read_dword_register_def sem_simps get_gpr_def ps_unsignedExtend_def)

lemma write_gpr32: "i < 8 \<Longrightarrow> ps_writeRegister 32 (reg_desc 0 i 0 32) v s = (Inr (), with_gpr i v s)"
  by (simp add: ps_writeRegister_def write_dword_register_def sem_simps set_gpr_def update_cur_def with_gpr_def ps_signExtend_def)

lemma write_memory_run:
  "ps_writeMemory n seg addr v c s = (Inr (), with_memory (r_memory (mem_write (discard_popped s) n addr v (cur_state s))) s)"
  by (simp add: ps_writeMemory_def sem_simps getS_def update_cur_def modifyS_def with_memory_def mem_write_def Let_def)

lemma write_eip_run: "ps_writeRegister 32 (reg_desc 7 0 0 32) v s = (Inr (), with_ip (ps_convert 32 v) s)"
  by (simp add: ps_writeRegister_def write_dword_register_def sem_simps ps_unsignedExtend_def set_ip_def update_cur_def with_ip_def)

lemmas ps_steps = read_gpr32 write_gpr32 write_memory_run write_eip_run read_ip_run ps_add_offset wf32_convert

lemma translate_symbolic:
  assumes "wf32 (r_ip (cur_state s))"
  shows "translate ps_x86 insn s = translate_kind ps_x86 (r_ip (cur_state s)) (insn_kind insn) insn
    (with_ip (ps_offset (r_ip (cur_state s)) (of_nat (insn_size insn))) s)"
  using assms unfolding translate_def by (simp add: sem_simps ps_steps)

text \<open>The effect of \<open>push\<close>: the value is stored below the stack, and the stack pointer moves there.\<close>

definition pushed :: "psv \<Rightarrow> ps_state \<Rightarrow> ps_state" where
  "pushed v s =
     (let sp = ps_offset (r_gpr (cur_state s) ! 4) (- 4) in
      with_gpr 4 sp (with_memory (r_memory (mem_write (discard_popped s) 32 sp v (cur_state s))) s))"

lemma pushed_sel:
  "r_gpr (cur_state (pushed v s)) = (r_gpr (cur_state s))[4 := ps_offset (r_gpr (cur_state s) ! 4) (- 4)]"
  "r_ip (cur_state (pushed v s)) = r_ip (cur_state s)"
  "holds_at (r_memory (cur_state (pushed v s))) (ps_offset (r_gpr (cur_state s) ! 4) (- 4)) (ps_convert 32 v)"
  "ps_ok s \<Longrightarrow> ps_ok (pushed v s)"
  by (simp_all add: pushed_def Let_def mem_write_holds)

lemma push_run:
  assumes "insn_operands insn = [RegRef (reg_desc 0 i 0 32) t]" "i < 8" "sizes32 insn"
    and "wf32 (r_gpr (cur_state s) ! 4)" "wf32 (r_gpr (cur_state s) ! i)"
  shows "x86_push_case ps_x86 insn s = (Inr (), pushed (r_gpr (cur_state s) ! i) s)"
  using assms
  by (simp add: x86_push_case_def operands1_def sem_simps ps_steps read32_def pushed_def Let_def)

lemma pop_run:
  assumes "insn_operands insn = [RegRef (reg_desc 0 j 0 32) t]" "j < 8" "sizes32 insn"
    and "wf32 (r_gpr (cur_state s) ! 4)" "holds_at (r_memory (cur_state s)) (r_gpr (cur_state s) ! 4) v"
  shows "x86_pop_case ps_x86 insn s =
    (Inr (), with_gpr j (ps_convert 32 v) ((with_gpr 4 (ps_offset (r_gpr (cur_state s) ! 4) 4) s)\<lparr>name_counter := name_counter s + 1\<rparr>))"
proof -
  let ?s = "with_gpr 4 (ps_offset (r_gpr (cur_state s) ! 4) 4) s"
  have "holds_at (r_memory (cur_state ?s)) (r_gpr (cur_state s) ! 4) v" using assms(5) by simp
  note read = read_holds [OF this]
  have "name_counter ?s = name_counter s" by (simp add: with_gpr_def)
  then show ?thesis
    using assms(1-4) by (simp add: x86_pop_case_def operands1_def sem_simps ps_steps write32_def write_expr_def read)
qed

lemma counter_sel [simp]:
  "cur_state (s\<lparr>name_counter := c\<rparr>) = cur_state s" "ps_ok (s\<lparr>name_counter := c\<rparr>) = ps_ok s"
  by (simp_all add: ps_ok_def)

text \<open>Property C11. \<open>push\<close> of a general register followed by \<open>pop\<close> into one, with all values (stack pointer,
  instruction pointer and the pushed value) symbolic or constant: both succeed, the popped register has the
  value pushed, the stack pointer and all other general registers are as before.\<close>

theorem push_pop_roundtrip:
  assumes "insn_kind push = Data x86_push" "insn_operands push = [RegRef (reg_desc 0 i 0 32) t]" "sizes32 push" "i < 8"
    and "insn_kind pop = Data x86_pop" "insn_operands pop = [RegRef (reg_desc 0 j 0 32) u]" "sizes32 pop" "j < 8" "j \<noteq> 4"
    and "ps_ok s" "wf32 (r_ip (cur_state s))" "wf32 (r_gpr (cur_state s) ! 4)" "wf32 (r_gpr (cur_state s) ! i)"
  shows "\<exists>s1 s2. translate ps_x86 push s = (Inr (), s1) \<and> translate ps_x86 pop s1 = (Inr (), s2) \<and>
    r_gpr (cur_state s2) = (r_gpr (cur_state s))[j := r_gpr (cur_state s) ! i] \<and>
    r_ip (cur_state s2) = ps_offset (r_ip (cur_state s)) (of_nat (insn_size push + insn_size pop))"
proof -
  let ?g = "r_gpr (cur_state s)" and ?ip = "r_ip (cur_state s)"
  define s1 where "s1 = pushed (?g ! i) (with_ip (ps_offset ?ip (of_nat (insn_size push))) s)"
  have len: "length ?g = 8" using assms(10) by (simp add: ps_ok_def machine_ok_def)
  have one: "translate ps_x86 push s = (Inr (), s1)"
    using translate_symbolic [OF assms(11), of push] push_run [OF assms(2,4,3)] assms by (simp add: s1_def)
  define s1' where "s1' = with_ip (ps_offset (r_ip (cur_state s1)) (of_nat (insn_size pop))) s1"
  have s1': "r_gpr (cur_state s1') = ?g[4 := ps_offset (?g ! 4) (- 4)]" "wf32 (r_ip (cur_state s1))"
    "holds_at (r_memory (cur_state s1')) (ps_offset (?g ! 4) (- 4)) (?g ! i)"
    "r_ip (cur_state s1') = ps_offset ?ip (of_nat (insn_size push + insn_size pop))"
    using assms pushed_sel [where v = "?g ! i" and s = "with_ip (ps_offset ?ip (of_nat (insn_size push))) s"]
    by (simp_all add: s1'_def s1_def wf32_convert)
  have "\<exists>s2. translate ps_x86 pop s1 = (Inr (), s2) \<and> r_gpr (cur_state s2) = ?g[4 := ?g ! 4, j := ?g ! i] \<and>
      r_ip (cur_state s2) = r_ip (cur_state s1')"
    using translate_symbolic [OF s1'(2), of pop] pop_run [OF assms(6,8,7), of s1' "?g ! i"] s1' assms len
    by (simp add: s1'_def [symmetric] wf32_convert)
  then show ?thesis using one s1'(4) by fastforce
qed

lemma call_run:
  assumes "insn_operands insn = [e]" "sizes32 insn" "known_operand (cur_state s) 32 e = Some target"
    and "wf32 (r_gpr (cur_state s) ! 4)" "wf32 (r_ip (cur_state s))"
  shows "x86_call_case ps_x86 insn s = (Inr (), with_ip (ps_const 32 target) (pushed (r_ip (cur_state s)) s))"
proof -
  let ?sp = "ps_offset (r_gpr (cur_state s) ! 4) (- 4)"
  let ?m = "with_memory (r_memory (mem_write (discard_popped s) 32 ?sp (r_ip (cur_state s)) (cur_state s))) s"
  have "known_operand (cur_state ?m) 32 e = Some target"
    using known_operand_gprs [of "cur_state ?m" "cur_state s"] assms(3) by simp
  then have "read_expr ps_x86 32 e ?m = (Inr (ps_const 32 target), ?m)" by (rule read_known_operand) simp
  moreover have "with_gpr i v (with_ip w q) = with_ip w (with_gpr i v q)" for i v w q by (simp add: with_gpr_def with_ip_def)
  ultimately show ?thesis
    using assms(1,2,4,5)
    by (simp add: x86_call_case_def operands1_def sem_simps ps_steps read32_def pushed_def Let_def)
qed

lemma ret_run:
  assumes "insn_operands insn = []" "sizes32 insn"
    and "wf32 (r_gpr (cur_state s) ! 4)" "holds_at (r_memory (cur_state s)) (r_gpr (cur_state s) ! 4) v"
  shows "x86_ret_case ps_x86 insn s =
    (Inr (), with_gpr 4 (ps_offset (r_gpr (cur_state s) ! 4) 4) (with_ip (ps_convert 32 (ps_convert 32 v)) (s\<lparr>name_counter := name_counter s + 1\<rparr>)))"
  using assms
  by (simp add: x86_ret_case_def sem_simps ps_steps ps_add_offset [of "ps_const 32 4", simplified] read_holds [OF assms(4)])

text \<open>Property C15. \<open>call\<close> of a known target followed by \<open>ret\<close>, with symbolic or constant stack and instruction
  pointers: after the call execution is at the target, after the return it is at the instruction behind the call
  and all general registers, the stack pointer among them, have their old values.\<close>

theorem call_ret_roundtrip:
  assumes "insn_kind call = Control x86_call" "insn_operands call = [e]" "sizes32 call"
    and "known_operand (cur_state s) 32 e = Some target"
    and "insn_kind ret = Control x86_ret" "insn_operands ret = []" "sizes32 ret"
    and "ps_ok s" "wf32 (r_ip (cur_state s))" "wf32 (r_gpr (cur_state s) ! 4)"
  shows "\<exists>s1 s2. translate ps_x86 call s = (Inr (), s1) \<and> r_ip (cur_state s1) = ps_const 32 target \<and>
    translate ps_x86 ret s1 = (Inr (), s2) \<and> r_gpr (cur_state s2) = r_gpr (cur_state s) \<and>
    r_ip (cur_state s2) = ps_offset (r_ip (cur_state s)) (of_nat (insn_size call))"
proof -
  let ?g = "r_gpr (cur_state s)" and ?behind = "ps_offset (r_ip (cur_state s)) (of_nat (insn_size call))"
  define s1 where "s1 = with_ip (ps_const 32 target) (pushed ?behind (with_ip ?behind s))"
  have len: "length ?g = 8" using assms(8) by (simp add: ps_ok_def machine_ok_def)
  have "known_operand (cur_state (with_ip ?behind s)) 32 e = Some target"
    using known_operand_gprs [of "cur_state (with_ip ?behind s)" "cur_state s"] assms(4) by simp
  then have one: "translate ps_x86 call s = (Inr (), s1)"
    using translate_symbolic [OF assms(9), of call] call_run [OF assms(2,3), of "with_ip ?behind s"] assms by (simp add: s1_def)
  define s1' where "s1' = with_ip (ps_offset (r_ip (cur_state s1)) (of_nat (insn_size ret))) s1"
  have s1': "r_gpr (cur_state s1') = ?g[4 := ps_offset (?g ! 4) (- 4)]" "wf32 (r_ip (cur_state s1))"
    "holds_at (r_memory (cur_state s1')) (ps_offset (?g ! 4) (- 4)) ?behind"
    using assms pushed_sel [where v = ?behind and s = "with_ip ?behind s"] by (simp_all add: s1'_def s1_def wf32_convert)
  have "\<exists>s2. translate ps_x86 ret s1 = (Inr (), s2) \<and> r_gpr (cur_state s2) = ?g \<and> r_ip (cur_state s2) = ?behind"
    using translate_symbolic [OF s1'(2), of ret] ret_run [OF assms(6,7), of s1' ?behind] s1' assms len
    by (simp add: s1'_def [symmetric] wf32_convert)
  then show ?thesis using one by (auto simp: s1_def)
qed

definition sample_insn :: "x86_kind \<Rightarrow> asm_expr list \<Rightarrow> x86_insn" where
  "sample_insn k ops =
     \<lparr>insn_kind = k, insn_operands = ops, insn_size = 5, insn_address = 0x1000, insn_addressSize = insnsize_32,
      insn_operandSize = insnsize_32, insn_segmentOverride = 7\<rparr>"

text \<open>A state with an unknown stack pointer.\<close>

definition stack_sample :: ps_state where
  "stack_sample = with_gpr 4 (ps_named 32 9 0x10 False) (const_state [1, 2, 3, 4, 0, 5, 6, 7] False 0x1000)"

lemma stack_sample_ok:
  "ps_ok stack_sample" "wf32 (r_ip (cur_state stack_sample))" "r_ip (cur_state stack_sample) = ps_const 32 0x1000"
  "r_gpr (cur_state stack_sample) =
     [ps_const 32 1, ps_const 32 2, ps_const 32 3, ps_const 32 4, ps_named 32 9 0x10 False, ps_const 32 5, ps_const 32 6, ps_const 32 7]"
  "wf32 (ps_named 32 9 0x10 False)"
  by (simp_all add: stack_sample_def One_nat_def wf32_def ps_named_def and_genMask)

theorem push_pop_roundtrip_witness:
  "\<exists>s1 s2. translate ps_x86 (sample_insn (Data x86_push) [RegRef (reg_desc 0 4 0 32) TypeDoubleWord]) stack_sample = (Inr (), s1) \<and>
    translate ps_x86 (sample_insn (Data x86_pop) [RegRef (reg_desc 0 0 0 32) TypeDoubleWord]) s1 = (Inr (), s2) \<and>
    r_gpr (cur_state s2) ! 0 = ps_named 32 9 0x10 False \<and> r_gpr (cur_state s2) ! 4 = ps_named 32 9 0x10 False"
proof -
  let ?push = "sample_insn (Data x86_push) [RegRef (reg_desc 0 4 0 32) TypeDoubleWord]"
  let ?pop = "sample_insn (Data x86_pop) [RegRef (reg_desc 0 0 0 32) TypeDoubleWord]"
  have "\<exists>s1 s2. translate ps_x86 ?push stack_sample = (Inr (), s1) \<and> translate ps_x86 ?pop s1 = (Inr (), s2) \<and>
      r_gpr (cur_state s2) = (r_gpr (cur_state stack_sample))[0 := r_gpr (cur_state stack_sample) ! 4] \<and>
      r_ip (cur_state s2) = ps_offset (r_ip (cur_state stack_sample)) (of_nat (insn_size ?push + insn_size ?pop))"
    by (rule push_pop_roundtrip [where t = TypeDoubleWord and u = TypeDoubleWord and i = 4 and j = 0]) 
      (simp_all add: sample_insn_def sizes32_def, simp_all add: stack_sample_ok One_nat_def)
  then obtain s1 s2 where run: "translate ps_x86 ?push stack_sample = (Inr (), s1)" "translate ps_x86 ?pop s1 = (Inr (), s2)"
    "r_gpr (cur_state s2) = (r_gpr (cur_state stack_sample))[0 := r_gpr (cur_state stack_sample) ! 4]" by (elim exE conjE)
  have "r_gpr (cur_state s2) ! 0 = ps_named 32 9 0x10 False" "r_gpr (cur_state s2) ! 4 = ps_named 32 9 0x10 False"
    unfolding run(3) by (simp_all add: stack_sample_ok One_nat_def)
  with run(1,2) show ?thesis by (intro exI conjI)
qed

theorem call_ret_roundtrip_witness:
  "\<exists>s1 s2. translate ps_x86 (sample_insn (Control x86_call) [DoubleWordValue 0x4000]) stack_sample = (Inr (), s1) \<and>
    r_ip (cur_state s1) = ps_const 32 0x4000 \<and>
    translate ps_x86 (sample_insn (Control x86_ret) []) s1 = (Inr (), s2) \<and>
    r_ip (cur_state s2) = ps_const 32 0x1005 \<and> r_gpr (cur_state s2) = r_gpr (cur_state stack_sample)"
proof -
  let ?call = "sample_insn (Control x86_call) [DoubleWordValue 0x4000]" and ?ret = "sample_insn (Control x86_ret) []"
  have t: "known_operand (cur_state stack_sample) 32 (DoubleWordValue 0x4000) = Some 0x4000"
    by (simp add: known_operand.simps) code_simp
  have "\<exists>s1 s2. translate ps_x86 ?call stack_sample = (Inr (), s1) \<and> r_ip (cur_state s1) = ps_const 32 0x4000 \<and>
      translate ps_x86 ?ret s1 = (Inr (), s2) \<and> r_gpr (cur_state s2) = r_gpr (cur_state stack_sample) \<and>
      r_ip (cur_state s2) = ps_offset (r_ip (cur_state stack_sample)) (of_nat (insn_size ?call))"
    by (rule call_ret_roundtrip) (use t in \<open>simp_all add: sample_insn_def sizes32_def stack_sample_ok One_nat_def\<close>)
  moreover have "ps_offset (ps_const 32 0x1000) 5 = ps_const 32 0x1005"
    by (simp add: ps_offset_def ps_const_eq)
  ultimately show ?thesis by (auto simp: stack_sample_ok sample_insn_def)
qed

section \<open>Aliasing\<close>

text \<open>Two cells overlap if they have a byte address in common. The addresses are offsets from the same unknown,
  or constants.\<close>

definition same_base :: "mem_cell \<Rightarrow> mem_cell \<Rightarrow> bool" where
  "same_base c d \<longleftrightarrow> vname (cell_address c) = vname (cell_address d) \<and>
     (vname (cell_address c) = 0 \<or> vnegate (cell_address c) = vnegate (cell_address d))"

definition cell_offset :: "mem_cell \<Rightarrow> u32" where
  "cell_offset c = ucast (voffset (cell_address c))"

definition cells_overlap :: "mem_cell \<Rightarrow> mem_cell \<Rightarrow> bool" where
  "cells_overlap c d \<longleftrightarrow>
     (\<exists>i < cell_nbytes c. \<exists>j < cell_nbytes d. cell_offset c + of_nat i = cell_offset d + of_nat j)"

lemma unat_u32: "unat (x :: u32) < 2 ^ 32"
  by (rule order.strict_trans2 [OF unsigned_less]) simp

lemma ucast_word_of_int: "(ucast (word_of_int k :: u64) :: u32) = word_of_int k"
proof -
  have "word_of_int (take_bit 64 k) = (word_of_int k :: u32)" by (simp add: word_of_int_eq_iff)
  then show ?thesis by (simp add: unsigned_of_int)
qed

lemma ucast_minus_nat: "(ucast (- of_nat n :: u64) :: u32) = - of_nat n"
  using ucast_word_of_int [of "- int n"] by (simp del: word_of_int_minus)

lemma ucast_diff: "(ucast (x - y :: u64) :: u32) = ucast x - ucast y"
  using ucast_word_of_int [of "uint x - uint y"] ucast_word_of_int [of "uint x"] ucast_word_of_int [of "uint y"] by simp

lemma overlap_arith:
  fixes a b :: u32
  assumes "0 < m" "0 < n" "m < 2 ^ 31" "n < 2 ^ 31"
  shows "(\<exists>i < m. \<exists>j < n. a + of_nat i = b + of_nat j) \<longleftrightarrow> unat (a - b) < n \<or> 2 ^ 32 - m < unat (a - b)" (is "?L \<longleftrightarrow> ?R")
proof
  assume ?L
  then obtain i j where ij: "i < m" "j < n" "a + of_nat i = b + of_nat j" by blast
  then have diff: "a - b = of_nat j - of_nat i" by (simp add: algebra_simps)
  show ?R
  proof (cases "i \<le> j")
    case True
    then have "a - b = of_nat (j - i)" using diff by (simp add: of_nat_diff)
    then have "unat (a - b) = j - i" using ij assms by (simp add: unat_of_nat)
    then show ?thesis using ij by linarith
  next
    case False
    then have "a - b = - of_nat (i - j)" using diff by (simp add: of_nat_diff)
    also have "\<dots> = of_nat (2 ^ 32 - (i - j))" using ij assms by (simp add: of_nat_diff One_nat_def)
    finally have "unat (a - b) = (2 ^ 32 - (i - j)) mod 2 ^ 32" by (simp add: unat_of_nat)
    also have "\<dots> = 2 ^ 32 - (i - j)" using False ij assms by simp
    finally show ?thesis using ij False assms by linarith
  qed
next
  assume R: ?R
  show ?L
  proof (cases "unat (a - b) < n")
    case True
    then show ?thesis using assms(1) by (intro exI [of _ 0] conjI exI [of _ "unat (a - b)"]) (simp_all)
  next
    case False
    let ?k = "2 ^ 32 - unat (a - b)"
    have k: "?k < m" using False R unat_u32 [of "a - b"] by simp
    have "(of_nat ?k :: u32) = - of_nat (unat (a - b))"
      using unat_u32 [of "a - b"] by (simp add: of_nat_diff One_nat_def)
    then have "a + of_nat ?k = b" by simp
    then show ?thesis using assms(2) k by (intro exI [of _ ?k] conjI exI [of _ 0]) simp_all
  qed
qed

lemma may_alias_distance:
  assumes "same_base c d" "cell_nbytes c < 2 ^ 31" "0 < cell_nbytes d" "cell_nbytes d < 2 ^ 31"
  shows "may_alias c d \<longleftrightarrow>
    unat (cell_offset c - cell_offset d) < cell_nbytes c \<or> 2 ^ 32 - cell_nbytes d < unat (cell_offset c - cell_offset d)"
proof -
  have "unat (ucast (- of_nat n :: u64) :: u32) = 2 ^ 32 - n" if "0 < n" "n < 2 ^ 31" for n
  proof -
    have "(ucast (- of_nat n :: u64) :: u32) = - of_nat n" by (rule ucast_minus_nat)
    also have "\<dots> = of_nat (2 ^ 32 - n)" using that by (simp add: of_nat_diff One_nat_def)
    finally have "unat (ucast (- of_nat n :: u64) :: u32) = (2 ^ 32 - n) mod 2 ^ LENGTH(32)" by (simp only: unat_of_nat)
    then show ?thesis using that by simp
  qed
  note bound = this [OF assms(3,4)]
  have "ucast (voffset (cell_address c) - voffset (cell_address d)) = cell_offset c - cell_offset d"
    by (simp only: cell_offset_def ucast_diff)
  with assms(1) show ?thesis by (auto simp: may_alias_def same_base_def Let_def word_less_nat_alt bound)
qed

text \<open>Property C20. For two cells of the same size whose addresses have the same base, \<open>may_alias\<close> is exact: it
  holds if and only if the cells have a byte in common, also across the end of the address space.\<close>

theorem may_alias_exact_equal_sizes:
  assumes "same_base c d" "cell_nbytes c = cell_nbytes d" "0 < cell_nbytes d" "cell_nbytes d < 2 ^ 31"
  shows "may_alias c d \<longleftrightarrow> cells_overlap c d"
  using assms may_alias_distance [OF assms(1)] overlap_arith [of "cell_nbytes c" "cell_nbytes d" "cell_offset c" "cell_offset d"]
  by (auto simp: cells_overlap_def)

definition cell_at :: "u64 \<Rightarrow> nat \<Rightarrow> mem_cell" where
  "cell_at a n = mem_cell_new (ps_const 32 a) (ps_const 32 0) n"

theorem may_alias_exact_equal_sizes_witness:
  "may_alias (cell_at 0xFFFFFFFE 4) (cell_at 1 4) \<longleftrightarrow> cells_overlap (cell_at 0xFFFFFFFE 4) (cell_at 1 4)"
  by (rule may_alias_exact_equal_sizes) (simp_all add: cell_at_def mem_cell_new_def same_base_def)

text \<open>Property C33. For cells of different sizes \<open>may_alias\<close> compares each distance with the size of the wrong
  cell: a byte inside a double word is reported as disjoint from it. A double word that was written, then changed
  in its third byte, is therefore read back with its old value.\<close>

theorem may_alias_misses_smaller_cell:
  "cells_overlap (cell_at 2 1) (cell_at 0 4) \<and> \<not> may_alias (cell_at 2 1) (cell_at 0 4) \<and>
   (\<exists>s1 s2 s3. ps_writeMemory 32 2 (ps_const 32 0) (ps_const 32 0x11223344) (ps_const 1 1)
        (const_state [9, 9, 9, 9, 9, 9, 9, 9] False 0) = (Inr (), s1) \<and>
      ps_writeMemory 8 2 (ps_const 32 2) (ps_const 8 0xFF) (ps_const 1 1) s1 = (Inr (), s2) \<and>
      ps_readMemory 32 2 (ps_const 32 0) (ps_const 1 1) s2 = (Inr (ps_const 32 0x11223344), s3))"
proof (intro conjI)
  show "cells_overlap (cell_at 2 1) (cell_at 0 4)"
    unfolding cells_overlap_def by (intro exI [of _ 0] conjI exI [of _ 2]) (simp_all add: cell_at_def mem_cell_new_def cell_offset_def)
  show miss: "\<not> may_alias (cell_at 2 1) (cell_at 0 4)" by code_simp
  let ?s = "const_state [9, 9, 9, 9, 9, 9, 9, 9] False 0"
  let ?four = "(mem_cell_new (ps_const 32 0) (ps_const 32 0x11223344) 4)\<lparr>cell_written := True\<rparr>"
  let ?one = "(mem_cell_new (ps_const 32 2) (ps_const 8 0xFF) 1)\<lparr>cell_written := True\<rparr>"
  have apart: "\<not> may_alias ?one ?four" by code_simp
  have holds: "holds_at [?four, ?one] (ps_const 32 0) (ps_const 32 0x11223344)"
    by (simp add: holds_at_def mem_cell_new_def)
  have first: "ps_writeMemory 32 2 (ps_const 32 0) (ps_const 32 0x11223344) (ps_const 1 1) ?s = (Inr (), with_memory [?four] ?s)"
    by (simp add: write_memory_run mem_write_def Let_def)
  have second: "ps_writeMemory 8 2 (ps_const 32 2) (ps_const 8 0xFF) (ps_const 1 1) (with_memory [?four] ?s) =
      (Inr (), with_memory [?four, ?one] ?s)"
    using apart by (simp add: write_memory_run mem_write_def mem_write_cell_def Let_def must_alias_def, simp add: mem_cell_new_def with_memory_def)
  have third: "ps_readMemory 32 2 (ps_const 32 0) (ps_const 1 1) (with_memory [?four, ?one] ?s) =
      (Inr (ps_const 32 0x11223344), (with_memory [?four, ?one] ?s)\<lparr>name_counter := name_counter (with_memory [?four, ?one] ?s) + 1\<rparr>)"
    using read_holds [of "with_memory [?four, ?one] ?s" "ps_const 32 0" "ps_const 32 0x11223344"] holds by simp
  from first second third show "\<exists>s1 s2 s3. ps_writeMemory 32 2 (ps_const 32 0) (ps_const 32 0x11223344) (ps_const 1 1) ?s = (Inr (), s1) \<and>
      ps_writeMemory 8 2 (ps_const 32 2) (ps_const 8 0xFF) (ps_const 1 1) s1 = (Inr (), s2) \<and>
      ps_readMemory 32 2 (ps_const 32 0) (ps_const 1 1) s2 = (Inr (ps_const 32 0x11223344), s3)"
    by (intro exI conjI)
qed

end
