(* ===== verification/Safety.thy ===== *)
theory Safety
  imports SafetyRules MemCorrect
begin

declare One_nat_def [simp del]

text \<open>
  The partially symbolic policy is safe: the invariant of its states, the interface of predicates that its operations keep
  (\<open>policy_state\<close>), the states that a policy object can reach, and the two assertions of \<open>mem_read\<close>.
\<close>

section \<open>The partially symbolic policy\<close>

text \<open>The cells of the original state stand for memory as it was before the first instruction: none of them is
  written or clobbered.\<close>

definition clean_memory :: "ps_machine \<Rightarrow> bool" where
  "clean_memory m \<longleftrightarrow> list_all (\<lambda>c. \<not> cell_written c \<and> \<not> cell_clobbered c) (r_memory m)"

definition ps_inv :: "RegisterDictionary \<Rightarrow> ps_state \<Rightarrow> bool" where
  "ps_inv d s \<longleftrightarrow> machine_ok (cur_state s) \<and> machine_ok (orig_state s) \<and> clean_memory (orig_state s) \<and> regdict s = d"

abbreviation (input) clean_cell :: "mem_cell \<Rightarrow> bool" where
  "clean_cell c \<equiv> \<not> cell_written c \<and> \<not> cell_clobbered c"

definition no_memory_assertion :: "sem_error \<Rightarrow> bool" where
  "no_memory_assertion e \<longleftrightarrow> e \<noteq> Abort ''is_clobbered'' \<and> e \<noteq> Abort ''is_written''"

lemma safe_policy_fail [safe_intros]:
  "safe P no_memory_assertion (failS (PolicyException msg))" "safe P no_memory_assertion (guardS b (PolicyException msg))"
  by (simp_all add: safe_fail safe_guard no_memory_assertion_def)

lemma safe_policy_abort [safe_intros]:
  "msg \<notin> {''is_clobbered'', ''is_written''} \<Longrightarrow> safe P no_memory_assertion (failS (Abort msg))"
  "msg \<notin> {''is_clobbered'', ''is_written''} \<Longrightarrow> safe P no_memory_assertion (guardS b (Abort msg))"
  by (auto simp: no_memory_assertion_def intro: safe_fail safe_guard)

text \<open>What \<open>mem_scan\<close> does to the cells.\<close>

lemma mem_scan_cells:
  "mem_scan new al mem = (Some (v, mem'), al') \<Longrightarrow>
   mem' = mem \<or> (\<exists>pre c post w. mem = pre @ c # post \<and> mem' = pre @ c\<lparr>cell_clobbered := False, cell_data := w\<rparr> # post)"
proof (induction mem arbitrary: al mem')
  case (Cons c cs)
  show ?case
  proof (cases "must_alias new c")
    case True
    then show ?thesis using Cons.prems by (auto split: if_splits intro!: exI [of _ "[]"])
  next
    case False
    then obtain cs' where cs': "mem_scan new (al \<or> may_alias new c \<and> cell_written c) cs = (Some (v, cs'), al')" "mem' = c # cs'"
      using Cons.prems by (auto split: prod.splits option.splits)
    from Cons.IH [OF cs'(1)] show ?thesis
    proof (elim disjE exE conjE)
      assume "cs' = cs"
      then show ?thesis using cs'(2) by simp
    next
      fix pre c' post w
      assume "cs = pre @ c' # post" "cs' = pre @ c'\<lparr>cell_clobbered := False, cell_data := w\<rparr> # post"
      then have "c # cs = (c # pre) @ c' # post \<and> mem' = (c # pre) @ c'\<lparr>cell_clobbered := False, cell_data := w\<rparr> # post"
        using cs'(2) by simp
      then show ?thesis by blast
    qed
  qed
qed simp

text \<open>
  What the operations of the policy rely on. A predicate \<open>P\<close> on its states must not depend on the name counter, imply that
  all registers exist and that the original memory is clean, and be kept if the current state is replaced by one whose
  memory satisfies \<open>M\<close> or if a clean cell is added to the original memory. Everything but \<open>writeMemory\<close> and the
  start of an instruction then keeps \<open>P\<close>.
\<close>

locale policy_state =
  fixes P :: "ps_state \<Rightarrow> bool" and M :: "mem_cell list \<Rightarrow> bool"
  assumes counter: "P (s\<lparr>name_counter := nm\<rparr>) = P s"
    and current: "P s \<Longrightarrow> machine_ok m \<Longrightarrow> M (r_memory m) \<Longrightarrow> P (s\<lparr>cur_state := m\<rparr>)"
    and holds: "P s \<Longrightarrow> machine_ok (cur_state s) \<and> M (r_memory (cur_state s)) \<and> clean_memory (orig_state s)"
    and original: "P s \<Longrightarrow> clean_cell c \<Longrightarrow> P (s\<lparr>orig_state := (orig_state s)\<lparr>r_memory := r_memory (orig_state s) @ [c]\<rparr>\<rparr>)"
    and cells: "M []" "M mem \<Longrightarrow> clean_cell c \<Longrightarrow> M (mem @ [c])"
      "M (pre @ c # post) \<Longrightarrow> M (pre @ c\<lparr>cell_clobbered := False, cell_data := v\<rparr> # post)"
begin

lemma safe_fresh [safe_intros]: "safe P E ps_fresh"
  by (simp add: safe_def ps_fresh_def Let_def counter)

lemma safe_update_cur:
  "(\<And>m. machine_ok m \<Longrightarrow> machine_ok (f m)) \<Longrightarrow> (\<And>m. M (r_memory m) \<Longrightarrow> M (r_memory (f m))) \<Longrightarrow> safe P E (update_cur f)"
  unfolding update_cur_def by (rule safe_modify) (simp add: holds current)

lemma safe_state_access [safe_intros]:
  "safe P E (get_gpr i)" "safe P E (set_gpr i v)"
  "safe P E (get_segreg i)" "safe P E (set_segreg i v)"
  "safe P E (get_flag i)" "safe P E (set_flag i v)"
  "safe P E get_ip" "safe P E (set_ip v)"
  unfolding get_gpr_def set_gpr_def get_segreg_def set_segreg_def get_flag_def set_flag_def get_ip_def set_ip_def
  by (rule safe_get safe_update_cur; simp add: machine_ok_def)+

lemma safe_ps_values [safe_intros]:
  "safe P E (ps_signExtend m n v)" "safe P E (ps_extract i j n v)"
  "safe P E (ps_unsignedExtend m n v)" "safe P E (ps_add n v w)"
  "safe P E (ps_addWithCarries n v w u)" "safe P E (ps_and n v w)"
  "safe P E (ps_equalToZero n v)" "safe P E (ps_invert n v)"
  "safe P E (ps_concat m n v w)" "safe P E (ps_ite n v w u)"
  "safe P E (ps_leastSignificantSetBit n v)" "safe P E (ps_mostSignificantSetBit n v)"
  "safe P E (ps_negate n v)" "safe P E (ps_or n v w)"
  "safe P E (ps_rotateLeft n m v w)" "safe P E (ps_rotateRight n m v w)"
  "safe P E (ps_shiftLeft n m v w)" "safe P E (ps_shiftRight n m v w)"
  "safe P E (ps_shiftRightArithmetic n m v w)" "safe P E (ps_xor n v w)"
  unfolding ps_signExtend_def ps_extract_def ps_unsignedExtend_def ps_add_def ps_addWithCarries_def ps_and_def
    ps_equalToZero_def ps_invert_def ps_concat_def ps_ite_def ps_leastSignificantSetBit_def ps_mostSignificantSetBit_def
    ps_negate_def ps_or_def ps_rotateLeft_def ps_rotateRight_def ps_shiftLeft_def ps_shiftRight_def
    ps_shiftRightArithmetic_def ps_xor_def
  by (intro safe_intros)+

lemma safe_ps_arith [safe_intros]:
  "safe P no_memory_assertion (ps_signedDivide m n v w)"
  "safe P no_memory_assertion (ps_signedModulo m n v w)"
  "safe P no_memory_assertion (ps_signedMultiply m n v w)"
  "safe P no_memory_assertion (ps_unsignedDivide m n v w)"
  "safe P no_memory_assertion (ps_unsignedModulo m n v w)"
  "safe P no_memory_assertion (ps_unsignedMultiply m n v w)"
  unfolding ps_signedDivide_def ps_signedModulo_def ps_signedMultiply_def ps_unsignedDivide_def ps_unsignedModulo_def
    ps_unsignedMultiply_def
  by (intro safe_intros)+

lemma safe_flags [safe_intros]:
  "safe P no_memory_assertion (read_flags i j)" "safe P no_memory_assertion (write_flags n ks v)"
  "safe P no_memory_assertion (ps_findRegister name n)"
  "safe P no_memory_assertion (concat_flags fs)"
proof -
  show "safe P no_memory_assertion (read_flags i j)"
    unfolding read_flags_def by (intro safe_intros)
  show "safe P no_memory_assertion (write_flags n ks v)"
    unfolding write_flags_def by (rule safe_block) (auto simp: list_all_iff intro!: safe_intros)
  show "safe P no_memory_assertion (ps_findRegister name n)"
    unfolding ps_findRegister_def by (intro safe_intros)
  show "safe P no_memory_assertion (concat_flags fs)"
    by (induction fs rule: concat_flags.induct) (auto intro!: safe_intros)
qed

lemma safe_register_access [safe_intros]:
  "safe P no_memory_assertion (read_bit_register r)" "safe P no_memory_assertion (read_byte_register r)"
  "safe P no_memory_assertion (read_word_register r)" "safe P no_memory_assertion (write_bit_register r v)"
  "safe P no_memory_assertion (write_byte_register r v)" "safe P no_memory_assertion (write_word_register r v)"
  unfolding read_bit_register_def read_byte_register_def read_word_register_def write_bit_register_def
    write_byte_register_def write_word_register_def
  by (intro safe_intros; simp)+

lemma safe_dword_access [safe_intros]:
  "safe P no_memory_assertion (read_dword_register r)" "safe P no_memory_assertion (write_dword_register r v)"
  unfolding read_dword_register_def write_dword_register_def by (intro safe_intros; simp)+

lemma safe_ps_registers [safe_intros]:
  "safe P no_memory_assertion (ps_readRegister n r)" "safe P no_memory_assertion (ps_writeRegister n r v)"
  unfolding ps_readRegister_def ps_writeRegister_def by (intro safe_intros; simp)+

lemma mem_read_yields:
  assumes "M mem"
  shows "yields P no_memory_assertion (\<lambda>(v, mem'). M mem') (mem_read io n addr mem)"
proof -
  have from_orig: "yields P no_memory_assertion (\<lambda>(v, mem'). M mem')
      (seqS (guardS (\<not> cell_clobbered c) (Abort ''is_clobbered''))
        (seqS (guardS (\<not> cell_written c) (Abort ''is_written'')) (retS (ps_convert n (cell_data c), mem @ [c]))))"
    if "clean_cell c" for c
    using that assms by (intro yields_seq yields_ret safe_guard) (simp_all add: cells)
  have add_orig: "yields P no_memory_assertion (\<lambda>(v, mem'). M mem')
      (seqS (modifyS (\<lambda>s. s\<lparr>orig_state := (orig_state s)\<lparr>r_memory := r_memory (orig_state s) @ [c]\<rparr>\<rparr>))
        (retS (ps_convert n (cell_data c), mem @ [c])))" if "clean_cell c" for c
    using that assms by (intro yields_seq yields_ret safe_modify) (simp_all add: cells original)
  have from_map: "yields P no_memory_assertion clean_cell
      (case mp of
         Some rd \<Rightarrow>
           if is_known addr then
             seqS (guardS (n div 8 < 8) (Abort ''Len/8 < sizeof buf''))
             (let buf = rd (voffset addr) (n div 8) in
              retS (if length buf = n div 8 then c\<lparr>cell_data := ps_const 32 (map_bytes_value buf)\<rparr> else c))
           else retS c
       | None \<Rightarrow> retS c)" if "clean_cell c" for c mp
  proof (cases mp)
    case (Some rd)
    show ?thesis unfolding Some option.case
    proof (cases "is_known addr")
      case True
      show "yields P no_memory_assertion clean_cell (if is_known addr then
             seqS (guardS (n div 8 < 8) (Abort ''Len/8 < sizeof buf''))
             (let buf = rd (voffset addr) (n div 8) in
              retS (if length buf = n div 8 then c\<lparr>cell_data := ps_const 32 (map_bytes_value buf)\<rparr> else c))
           else retS c)"
        unfolding if_P [OF True] Let_def using that by (intro yields_seq yields_ret) (auto intro!: safe_intros)
    qed (use that in \<open>simp add: yields_ret\<close>)
  qed (use that in \<open>simp add: yields_ret\<close>)
  show ?thesis
    unfolding mem_read_def Let_def
  proof (rule yields_bind [OF yields_safe(1) [OF safe_fresh]], goal_cases)
    case (1 v)
    let ?c = "mem_cell_new addr v (n div 8)"
    obtain found al where scan: "mem_scan ?c False mem = (found, al)" by fastforce
    have new: "clean_cell ?c" by (simp add: mem_cell_new_def)
    show ?case
    proof (cases found)
      case (Some p)
      obtain w mem' where p: "p = (w, mem')" by fastforce
      have "M mem'" using mem_scan_cells [OF scan [unfolded Some p]] assms cells(3) by auto
      then show ?thesis by (simp add: scan Some p yields_ret)
    next
      case None
      have look: "yields P no_memory_assertion (\<lambda>found. \<forall>c. found = Some c \<longrightarrow> clean_cell c)
          (getS (\<lambda>s. find (must_alias ?c) (r_memory (orig_state s))))"
        by (rule yields_get) (use holds in \<open>force simp: clean_memory_def find_Some_iff list_all_length\<close>)
      have fresh_cell: "yields P no_memory_assertion (\<lambda>(v, mem'). M mem') (retS (ps_convert n (cell_data ?c), mem @ [?c]))"
        using assms new by (intro yields_ret) (simp add: cells)
      show ?thesis
      proof (cases "\<not> al \<and> \<not> io")
        case True
        show ?thesis unfolding scan None prod.case option.case if_P [OF True]
        proof (rule yields_bind [OF look], goal_cases)
          case (1 found)
          show ?case
          proof (cases found)
            case None
            show ?thesis unfolding None option.case
              by (rule yields_bind [OF yields_safe(1) [OF safe_get]], rule yields_bind [OF from_map [OF new, unfolded Let_def] add_orig])
          qed (use 1 from_orig in simp)
        qed
      next
        case False
        show ?thesis unfolding scan None prod.case option.case if_not_P [OF False] by (rule fresh_cell)
      qed
    qed
  qed
qed

lemma safe_read_memory [safe_intros]: "safe P no_memory_assertion (ps_readMemory n seg a c)"
  unfolding ps_readMemory_def
proof (rule yields_safe(2), rule yields_bind [where Q = M], rule yields_get)
  fix mem assume "M mem"
  then show "yields P no_memory_assertion (\<lambda>_. True) (bindS (mem_read False n a mem) (\<lambda>(v, mem').
     seqS (update_cur (\<lambda>m. m\<lparr>r_memory := mem'\<rparr>)) (retS v)))"
    by (intro yields_bind [OF mem_read_yields], assumption)
      (auto intro!: yields_seq yields_ret safe_update_cur simp: machine_ok_def)
qed (simp add: holds)

lemma safe_write_memory:
  "(\<And>mem. M mem) \<Longrightarrow> safe P E (ps_writeMemory n seg a v c)"
  unfolding ps_writeMemory_def
  by (intro safe_intros safe_update_cur; simp add: machine_ok_def mem_write_def Let_def)

lemma safe_reset [safe_intros]: "safe P E ps_reset"
  unfolding safe_def ps_reset_def
  by (simp add: bind_run machine_clear_run modifyS_def)
    (auto intro!: current simp: counter machine_ok_def fresh_machine_def cells(1) simp del: upt_rec_numeral)

end

text \<open>Before the first instruction the current state has written nothing either, since it becomes the original. The bound
  \<open>k\<close> is on the instructions that have been started, and with it the counter cannot have come back to 0.\<close>

definition ps_idle :: "RegisterDictionary \<Rightarrow> ps_state \<Rightarrow> bool" where
  "ps_idle d s \<longleftrightarrow> ps_inv d s \<and> ninsns s = 0 \<and> clean_memory (cur_state s)"

definition ps_running :: "RegisterDictionary \<Rightarrow> nat \<Rightarrow> ps_state \<Rightarrow> bool" where
  "ps_running d k s \<longleftrightarrow> ps_inv d s \<and> ninsns s \<noteq> 0 \<and> unat (ninsns s) \<le> k"

definition ps_between :: "RegisterDictionary \<Rightarrow> nat \<Rightarrow> ps_state \<Rightarrow> bool" where
  "ps_between d k = (\<lambda>s. ps_idle d s \<or> ps_running d k s)"

interpretation running: policy_state "ps_running d k" "\<lambda>_. True" for d k
  by unfold_locales (simp_all add: ps_running_def ps_inv_def clean_memory_def machine_ok_def)

interpretation idle: policy_state "ps_idle d" "list_all clean_cell" for d
  by unfold_locales (simp_all add: ps_idle_def ps_inv_def clean_memory_def machine_ok_def)

lemma safe_running_write [safe_intros]: "safe (ps_running d k) E (ps_writeMemory n seg a v c)"
  by (rule running.safe_write_memory) simp

lemma start_between:
  assumes "ps_between d k s" "Suc k < 2 ^ 64"
  shows "ps_running d (Suc k) (snd (ps_startInstruction a s))"
proof -
  have count: "ninsns s + 1 \<noteq> 0" "unat (ninsns s + 1) \<le> Suc k"
  proof -
    have le: "unat (ninsns s) \<le> k" using assms(1) by (auto simp: ps_between_def ps_running_def ps_idle_def)
    have "ninsns s + 1 = of_nat (Suc (unat (ninsns s)))" by simp
    moreover have "Suc (unat (ninsns s)) < 2 ^ LENGTH(64)" using le assms(2) by simp
    ultimately have "unat (ninsns s + 1) = Suc (unat (ninsns s))" by (simp only: unat_of_nat_less)
    then show "ninsns s + 1 \<noteq> 0" "unat (ninsns s + 1) \<le> Suc k" using le by auto
  qed
  show ?thesis
    using assms(1) count
    by (auto simp: ps_startInstruction_def modifyS_def Let_def ps_between_def ps_running_def ps_idle_def ps_inv_def
        machine_ok_def clean_memory_def)
qed

lemma ps_safe_policy: "safe_policy ps_x86 (ps_running d k) no_memory_assertion"
proof (unfold_locales, goal_cases)
  case 1
  show ?case by (simp add: no_memory_assertion_def)
next
  case 2
  then show ?case by (auto simp: no_memory_assertion_def x86_aborts_def)
qed (simp only: ps_x86_ops ps_x86_actions, intro safe_intros)+

interpretation ps: safe_block_policy ps_x86 "ps_running d" no_memory_assertion "ps_between d" "2 ^ 64" for d
proof (rule safe_block_policy.intro, goal_cases)
  case (1 k)
  show ?case by (rule ps_safe_policy)
next
  case (2 k s)
  then show ?case by (simp add: ps_between_def)
next
  case (3 k s l)
  then show ?case by (auto simp: ps_between_def ps_running_def)
next
  case (4 k s a)
  then show ?case using start_between [of d k s] by (simp add: ps_x86_actions ps_startInstruction_def modifyS_def)
next
  case (5 k)
  show ?case
    unfolding ps_x86_actions ps_finishInstruction_def
    by (rule safe_modify) (simp add: ps_running_def ps_inv_def machine_ok_def discard_popped_memory_def Let_def)
qed (simp only: ps_x86_actions, intro safe_intros)+

section \<open>Reachable states\<close>

text \<open>
  The states of a policy object with a bound for the number of instructions that were started: after its construction, and
  after any sequence of its public operations: processing an instruction or a block, which may fail and leave the state that
  it reached, reading and writing registers, reading memory, writing memory once an instruction has been started, and setting
  the memory map or the property about popped memory. Not among them are \<open>set_ninsns\<close> and assignments
  through the references that the accessors of the two states return, which can put the object into any state, and writing
  memory before the first instruction, which breaks the invariant (see below).
\<close>

inductive ps_reachable :: "nat \<Rightarrow> ps_state \<Rightarrow> bool" where
  new: "ps_new c = Some s \<Longrightarrow> ps_reachable 0 s"
| instruction: "ps_reachable k s \<Longrightarrow> ps_reachable (Suc k) (snd (processInstruction ps_x86 insn s))"
| block: "ps_reachable k s \<Longrightarrow> ps_reachable (k + length stmts) (snd (processBlock ps_x86 stmts s))"
| read_register: "ps_reachable k s \<Longrightarrow> ps_reachable k (snd (ps_readRegister n r s))"
| write_register: "ps_reachable k s \<Longrightarrow> ps_reachable k (snd (ps_writeRegister n r v s))"
| read_memory: "ps_reachable k s \<Longrightarrow> ps_reachable k (snd (ps_readMemory n seg a c s))"
| write_memory: "ps_reachable k s \<Longrightarrow> ninsns s \<noteq> 0 \<Longrightarrow> ps_reachable k (snd (ps_writeMemory n seg a v c s))"
| set_map: "ps_reachable k s \<Longrightarrow> ps_reachable k (s\<lparr>ps_map := mp\<rparr>)"
| set_discard_popped_memory: "ps_reachable k s \<Longrightarrow> ps_reachable k (s\<lparr>discard_popped := b\<rparr>)"

lemma ps_new_run:
  assumes "dictionary_pentium4 = Some d"
  shows "ps_new c = Some
    \<lparr>name_counter = c + 94, cur_state = fresh_machine (c + 47), orig_state = fresh_machine (c + 47),
     discard_popped = False, ninsns = 0, cur_insn = None, ps_map = None, regdict = d\<rparr>"
  by (simp add: ps_new_def assms sem_simps machine_clear_run ac_simps)

lemma fresh_machine_ok: "machine_ok (fresh_machine c)" "clean_memory (fresh_machine c)"
  by (simp_all add: machine_ok_def clean_memory_def fresh_machine_def del: upt_rec_numeral)

lemma ps_new_between: "ps_new c = Some s \<Longrightarrow> dictionary_pentium4 = Some d \<Longrightarrow> ps_between d k s"
  using ps_new_run [of d c] by (auto simp: ps_between_def ps_idle_def ps_inv_def fresh_machine_ok)

lemma between_keeps:
  "safe (ps_idle d) no_memory_assertion m \<Longrightarrow> safe (ps_running d k) no_memory_assertion m \<Longrightarrow> ps_between d k s \<Longrightarrow>
   ps_between d k (snd (m s))"
  unfolding safe_def ps_between_def by blast

lemma reachable_between:
  "ps_reachable k s \<Longrightarrow> dictionary_pentium4 = Some d \<Longrightarrow> k < 2 ^ 64 \<Longrightarrow> ps_between d k s"
proof (induction rule: ps_reachable.induct)
  case (new c s)
  then show ?case using ps_new_between by blast
next
  case (instruction k s insn)
  then show ?case using ps.counted_instruction [of k d insn] by (simp add: leads_def)
next
  case (block k s stmts)
  then show ?case using ps.counted_block [of k stmts d] by (simp add: leads_def)
next
  case (read_register k s n r)
  then show ?case by (intro between_keeps) (simp_all add: idle.safe_ps_registers running.safe_ps_registers)
next
  case (write_register k s n r v)
  then show ?case by (intro between_keeps) (simp_all add: idle.safe_ps_registers running.safe_ps_registers)
next
  case (read_memory k s n seg a c)
  then show ?case by (intro between_keeps) (simp_all add: idle.safe_read_memory running.safe_read_memory)
next
  case (write_memory k s n seg a v c)
  then have "ps_running d k s" by (simp add: ps_between_def ps_idle_def)
  then show ?case using safe_running_write [of d k no_memory_assertion n seg a v c] by (simp add: safe_def ps_between_def)
qed (simp_all add: ps_between_def ps_idle_def ps_running_def ps_inv_def)

section \<open>A block that reads memory\<close>

text \<open>
  A load from an address that the memory map knows, an interrupt, which resets the current state, and the load again: the
  first load takes the value from the map and puts a cell into the original memory, and the second one meets that cell
  and evaluates the two assertions about it.
\<close>

definition load_sample :: x86_insn where
  "load_sample =
     sample_insn (Data x86_mov)
       [RegRef (reg_desc 0 0 0 32) TypeDoubleWord, MemRef (DoubleWordValue 0x2000) (RegRef (reg_desc x86_regclass_segment x86_segreg_ds 0 16) TypeWord) TypeDoubleWord]"

definition int_sample :: x86_insn where
  "int_sample = sample_insn (Control x86_int) [ByteValue 3]"

definition known_cell :: mem_cell where
  "known_cell =
     \<lparr>cell_address = ps_const 32 0x2000, cell_data = ps_const 32 0x04030201, cell_nbytes = 4, cell_clobbered = False,
      cell_written = False\<rparr>"

lemma known_cell_sel [simp]:
  "cell_data known_cell = ps_const 32 0x04030201" "\<not> cell_clobbered known_cell" "\<not> cell_written known_cell"
  "must_alias (mem_cell_new (ps_const 32 0x2000) v n) known_cell"
  by (simp_all add: known_cell_def must_alias_def mem_cell_new_def ps_eq_def)

lemma read_from_map:
  assumes "r_memory (cur_state s) = []" "r_memory (orig_state s) = []" "ps_map s = Some (\<lambda>_ n. take n [1, 2, 3, 4])"
  shows "ps_readMemory 32 seg (ps_const 32 0x2000) c s = (Inr (ps_const 32 0x04030201),
    s\<lparr>name_counter := name_counter s + 1, orig_state := (orig_state s)\<lparr>r_memory := [known_cell]\<rparr>,
      cur_state := (cur_state s)\<lparr>r_memory := [known_cell]\<rparr>\<rparr>)"
proof -
  have bytes: "map_bytes_value [1, 2, 3, 4] = 0x04030201" by code_simp
  have "is_known (ps_const 32 0x2000)" by (simp add: is_known_def)
  then show ?thesis
    using assms bytes
    by (simp add: ps_readMemory_def mem_read_def sem_simps fresh_run Let_def getS_def modifyS_def update_cur_def guardS_def
        known_cell_def mem_cell_new_def)
qed

lemma read_from_original:
  assumes "r_memory (cur_state s) = []" "r_memory (orig_state s) = [known_cell]"
  shows "ps_readMemory 32 seg (ps_const 32 0x2000) c s = (Inr (ps_const 32 0x04030201),
    s\<lparr>name_counter := name_counter s + 1, cur_state := (cur_state s)\<lparr>r_memory := [known_cell]\<rparr>\<rparr>)"
  using assms
  by (simp add: ps_readMemory_def mem_read_def sem_simps fresh_run Let_def getS_def modifyS_def update_cur_def guardS_def)

lemma load_run:
  assumes "r_ip (cur_state s) = ps_const 32 ip"
    and "ps_readMemory 32 3 (ps_const 32 0x2000) (ps_const 1 1) (with_ip (ps_const 32 (ip + 5)) s) = (Inr (ps_const 32 x), s')"
  shows "translate ps_x86 load_sample s = (Inr (), with_gpr 0 (ps_const 32 x) s')"
proof -
  have "signExtend 32 64 8192 AND mask 32 = (8192 :: u64)" by code_simp
  then show ?thesis
    using eip_advance_run [OF assms(1), of load_sample] assms(2)
    by (simp add: load_sample_def sample_insn_def x86_mov_case_def operands2_def sem_simps ps_steps
       write_expr_def switch124_def operand_bytes_def getSegregFromMemoryReference_def)
qed


text \<open>A state before the first instruction, with a memory map, and the state at the end of the block.\<close>

definition mapped_state :: "RegisterDictionary \<Rightarrow> ps_state" where
  "mapped_state d =
     \<lparr>name_counter = 94, cur_state = fresh_machine 47, orig_state = fresh_machine 47, discard_popped = False, ninsns = 0,
      cur_insn = None, ps_map = Some (\<lambda>_ n. take n [1, 2, 3, 4]), regdict = d\<rparr>"

lemma finished_sel:
  "\<not> discard_popped s \<Longrightarrow> ps_finished s = s\<lparr>cur_insn := None\<rparr>"
  by (simp add: ps_finished_def ps_finishInstruction_def modifyS_def Let_def)

lemma sample_address [simp]: "insn_address load_sample = 0x1000" "insn_address int_sample = 0x1000"
  by (simp_all add: load_sample_def int_sample_def sample_insn_def)

lemma load_from_map:
  assumes "r_memory (cur_state s) = []" "ps_map s = Some (\<lambda>_ n. take n [1, 2, 3, 4])" "ninsns s = 0" "\<not> discard_popped s"
  shows "\<exists>s'. processStatement ps_x86 (X86Stmt load_sample) s = (Inr (), s') \<and>
    r_memory (orig_state s') = [known_cell] \<and> \<not> discard_popped s' \<and> ninsns s' = 1"
proof -
  let ?s = "ps_started 0x1000 s"
  have s: "r_memory (cur_state ?s) = []" "r_memory (orig_state ?s) = []" "ps_map ?s = Some (\<lambda>_ n. take n [1, 2, 3, 4])"
    "r_ip (cur_state ?s) = ps_const 32 0x1000" "\<not> discard_popped ?s" "ninsns ?s = 1"
    using assms by (simp_all add: ps_started_def ps_startInstruction_def modifyS_def Let_def)
  let ?i = "with_ip (ps_const 32 (0x1000 + 5)) ?s"
  have i: "r_memory (cur_state ?i) = []" "r_memory (orig_state ?i) = []" "ps_map ?i = Some (\<lambda>_ n. take n [1, 2, 3, 4])"
    using s by (simp_all, simp_all add: with_ip_def)
  from processStatement_run [of load_sample s, unfolded sample_address, OF load_run [OF s(4) read_from_map [OF i]]]
  show ?thesis using s(5,6)
    by (intro exI conjI) (assumption | simp add: finished_sel with_gpr_def with_ip_def)+
qed

lemma int_resets:
  assumes "ninsns s \<noteq> 0" "\<not> discard_popped s"
  shows "\<exists>s'. processStatement ps_x86 (X86Stmt int_sample) s = (Inr (), s') \<and>
    r_memory (cur_state s') = [] \<and> length (r_gpr (cur_state s')) = 8 \<and> orig_state s' = orig_state s \<and>
    \<not> discard_popped s' \<and> ninsns s' = ninsns s + 1"
proof -
  let ?s = "ps_started 0x1000 s"
  have s: "r_ip (cur_state ?s) = ps_const 32 0x1000" "\<not> discard_popped ?s" "orig_state ?s = orig_state s"
    "ninsns ?s = ninsns s + 1"
    using assms by (simp_all add: ps_started_def ps_startInstruction_def modifyS_def Let_def)
  let ?i = "with_ip (ps_const 32 (0x1000 + 5)) ?s"
  have "translate ps_x86 int_sample ?s = (Inr (), ?i\<lparr>name_counter := name_counter ?i + 47, cur_state := fresh_machine (name_counter ?i)\<rparr>)"
    using eip_advance_run [OF s(1), of int_sample]
    by (simp add: int_sample_def sample_insn_def x86_int_case_def operands1_def sem_simps ps_x86_ops ps_x86_actions ps_reset_def
        machine_clear_run modifyS_def)
  from processStatement_run [of int_sample s, unfolded sample_address, OF this]
  show ?thesis using s
    by (intro exI conjI) (assumption | simp add: finished_sel with_ip_def fresh_machine_def del: upt_rec_numeral)+
qed

lemma load_from_original:
  assumes "r_memory (cur_state s) = []" "r_memory (orig_state s) = [known_cell]" "length (r_gpr (cur_state s)) = 8"
    and "ninsns s \<noteq> 0" "\<not> discard_popped s"
  shows "\<exists>s'. processStatement ps_x86 (X86Stmt load_sample) s = (Inr (), s') \<and> r_gpr (cur_state s') ! 0 = ps_const 32 0x04030201"
proof -
  let ?s = "ps_started 0x1000 s"
  have s: "r_memory (cur_state ?s) = []" "r_memory (orig_state ?s) = [known_cell]" "length (r_gpr (cur_state ?s)) = 8"
    "r_ip (cur_state ?s) = ps_const 32 0x1000" "\<not> discard_popped ?s"
    using assms by (simp_all add: ps_started_def ps_startInstruction_def modifyS_def Let_def)
  let ?i = "with_ip (ps_const 32 (0x1000 + 5)) ?s"
  have i: "r_memory (cur_state ?i) = []" "r_memory (orig_state ?i) = [known_cell]"
    using s by (simp_all, simp_all add: with_ip_def)
  from processStatement_run [of load_sample s, unfolded sample_address, OF load_run [OF s(4) read_from_original [OF i]]]
  show ?thesis using s(3,5)
    by (intro exI conjI) (assumption | simp add: finished_sel with_gpr_def with_ip_def)+
qed

lemma mapped_state_reachable: "dictionary_pentium4 = Some d \<Longrightarrow> ps_reachable 0 (mapped_state d)"
  using ps_reachable.set_map [OF ps_reachable.new [OF ps_new_run [of d 0]], of "Some (\<lambda>_ n. take n [1, 2, 3, 4])"]
  by (simp add: mapped_state_def)

lemma load_block_run:
  "\<exists>s'. processBlock ps_x86 [X86Stmt load_sample, X86Stmt int_sample, X86Stmt load_sample] (mapped_state d) = (Inr (), s') \<and>
     r_gpr (cur_state s') ! 0 = ps_const 32 0x04030201"
proof -
  let ?s = "mapped_state d"
  have s: "r_memory (cur_state ?s) = []" "ps_map ?s = Some (\<lambda>_ n. take n [1, 2, 3, 4])" "ninsns ?s = 0" "\<not> discard_popped ?s"
    by (simp_all add: mapped_state_def fresh_machine_def del: upt_rec_numeral)
  from load_from_map [OF s] obtain s1 where
    s1: "processStatement ps_x86 (X86Stmt load_sample) ?s = (Inr (), s1)"
      "r_memory (orig_state s1) = [known_cell]" "\<not> discard_popped s1" "ninsns s1 = 1" by blast
  have n1: "ninsns s1 \<noteq> 0" using s1(4) by simp
  from int_resets [OF n1 s1(3)] obtain s2 where
    s2: "processStatement ps_x86 (X86Stmt int_sample) s1 = (Inr (), s2)" "r_memory (cur_state s2) = []"
      "length (r_gpr (cur_state s2)) = 8" "orig_state s2 = orig_state s1" "\<not> discard_popped s2" "ninsns s2 = ninsns s1 + 1" by blast
  have n2: "r_memory (orig_state s2) = [known_cell]" "ninsns s2 \<noteq> 0" using s2(4,6) s1(2,4) by simp_all
  from load_from_original [OF s2(2) n2(1) s2(3) n2(2) s2(5)] obtain s3 where
    s3: "processStatement ps_x86 (X86Stmt load_sample) s2 = (Inr (), s3)" "r_gpr (cur_state s3) ! 0 = ps_const 32 0x04030201" by blast
  have kinds: "\<not> isHltOrInt (X86Stmt load_sample)" "isHltOrInt (X86Stmt int_sample)"
    "\<not> isRepeatedStringOp (X86Stmt load_sample)" "\<not> isRepeatedStringOp (X86Stmt int_sample)"
    by (simp_all add: isHltOrInt_def isRepeatedStringOp_def load_sample_def int_sample_def sample_insn_def)
  have "pieces [X86Stmt load_sample, X86Stmt int_sample, X86Stmt load_sample] =
      [[X86Stmt load_sample, X86Stmt int_sample], [X86Stmt load_sample]]"
    using kinds by (simp add: cut_between_def)
  then have "processBlock ps_x86 [X86Stmt load_sample, X86Stmt int_sample, X86Stmt load_sample] ?s = (Inr (), s3)"
    using s1(1) s2(1) s3(1)
    by (simp add: processBlock_def processBlock_from_pieces process_piece_def ps_x86_actions sem_simps)
  then show ?thesis using s3(2) by blast
qed

section \<open>Properties\<close>

text \<open>Property C7. In every state that a policy object can reach with fewer than \<open>2 ^ 64\<close> instructions, whatever instructions
  and blocks were processed and however they failed, whatever registers and memory were accessed in between, with and
  without a memory map, the current and the original state have all their registers, the register dictionary is the
  one of the constructor, and no cell of the original memory is marked as written or clobbered.\<close>

theorem reachable_state_invariant:
  assumes "ps_reachable k s" "k < 2 ^ 64"
  shows "machine_ok (cur_state s) \<and> machine_ok (orig_state s) \<and> clean_memory (orig_state s) \<and>
    Some (regdict s) = dictionary_pentium4"
proof -
  obtain d where d: "dictionary_pentium4 = Some d" using dict_chain(6) by blast
  from reachable_between [OF assms(1) d assms(2)] show ?thesis
    by (auto simp: ps_between_def ps_idle_def ps_running_def ps_inv_def d)
qed

text \<open>Property C8. The two assertions of \<open>mem_read\<close> about cells of the original memory never fail: processing a block in a
  state that a policy object can reach does not end in them, if the instructions before and in the block are fewer than
  \<open>2 ^ 64\<close>.\<close>

theorem memory_assertions_hold:
  assumes "ps_reachable k s" "k + length stmts < 2 ^ 64"
  shows "fst (processBlock ps_x86 stmts s) \<noteq> Inl (Abort ''is_clobbered'') \<and>
    fst (processBlock ps_x86 stmts s) \<noteq> Inl (Abort ''is_written'')"
proof -
  obtain d where d: "dictionary_pentium4 = Some d" using dict_chain(6) by blast
  have "ps_between d k s" using reachable_between [OF assms(1) d] assms(2) by simp
  then have "no_memory_assertion e" if "fst (processBlock ps_x86 stmts s) = Inl e" for e
    using ps.counted_block [OF assms(2), of d] that by (simp add: leads_def)
  then show ?thesis by (auto simp: no_memory_assertion_def)
qed

theorem reachable_state_invariant_witness:
  "\<exists>d s. ps_reachable 3 s \<and> clean_memory (orig_state s) \<and> machine_ok (cur_state s) \<and>
     s = snd (processBlock ps_x86 [X86Stmt load_sample, X86Stmt int_sample, X86Stmt load_sample] (mapped_state d))"
proof -
  obtain d where d: "dictionary_pentium4 = Some d" using dict_chain(6) by blast
  let ?s = "snd (processBlock ps_x86 [X86Stmt load_sample, X86Stmt int_sample, X86Stmt load_sample] (mapped_state d))"
  have r: "ps_reachable 3 ?s"
    using ps_reachable.block [OF mapped_state_reachable [OF d], of "[X86Stmt load_sample, X86Stmt int_sample, X86Stmt load_sample]"]
    by (simp add: numeral_3_eq_3)
  have "clean_memory (orig_state ?s) \<and> machine_ok (cur_state ?s)" using reachable_state_invariant [OF r] by simp
  then show ?thesis using r by blast
qed

theorem memory_assertions_hold_witness:
  "\<exists>d s'. ps_reachable 0 (mapped_state d) \<and>
     processBlock ps_x86 [X86Stmt load_sample, X86Stmt int_sample, X86Stmt load_sample] (mapped_state d) = (Inr (), s') \<and>
     r_gpr (cur_state s') ! 0 = ps_const 32 0x04030201 \<and>
     fst (processBlock ps_x86 [X86Stmt load_sample, X86Stmt int_sample, X86Stmt load_sample] (mapped_state d)) \<noteq>
       Inl (Abort ''is_written'')"
proof -
  obtain d where "dictionary_pentium4 = Some d" using dict_chain(6) by blast
  note r = mapped_state_reachable [OF this]
  show ?thesis
    using memory_assertions_hold [OF r, of "[X86Stmt load_sample, X86Stmt int_sample, X86Stmt load_sample]"]
      load_block_run [of d] r by auto
qed

section \<open>Memory that is written before the first instruction\<close>

lemma read_meets_written:
  assumes "r_memory (cur_state s) = []" "r_memory (orig_state s) = [w]" "\<And>v n. must_alias (mem_cell_new addr v n) w"
    and "cell_written w" "\<not> cell_clobbered w"
  shows "fst (ps_readMemory 32 seg addr c s) = Inl (Abort ''is_written'')"
  using assms
  by (simp add: ps_readMemory_def mem_read_def sem_simps fresh_run Let_def getS_def guardS_def)

text \<open>
  Memory that is written before the first instruction becomes part of the original state with its mark, since starting the
  first instruction copies the current state. If the current state is reset afterwards, a read of the address fails the
  assertion.
\<close>

lemma early_write_fails:
  assumes "r_memory (cur_state s) = []" "ninsns s = 0" "\<not> discard_popped s"
  shows "\<exists>s1. ps_writeMemory 32 3 (ps_const 32 0x2000) v c s = (Inr (), s1) \<and>
    fst (processBlock ps_x86 [X86Stmt int_sample, X86Stmt load_sample] s1) = Inl (Abort ''is_written'')"
proof -
  let ?c = "(mem_cell_new (ps_const 32 0x2000) v 4)\<lparr>cell_written := True\<rparr>"
  define s1 where "s1 = s\<lparr>cur_state := (cur_state s)\<lparr>r_memory := [?c]\<rparr>\<rparr>"
  have stored: "ps_writeMemory 32 3 (ps_const 32 0x2000) v c s = (Inr (), s1)"
    using assms(1) by (simp add: ps_writeMemory_def sem_simps getS_def update_cur_def modifyS_def mem_write_def Let_def s1_def)
  let ?s = "ps_started 0x1000 s1"
  have s: "r_ip (cur_state ?s) = ps_const 32 0x1000" "\<not> discard_popped ?s" "r_memory (orig_state ?s) = [?c]"
    using assms by (simp_all add: ps_started_def ps_startInstruction_def modifyS_def Let_def s1_def)
  let ?i = "with_ip (ps_const 32 (0x1000 + 5)) ?s"
  have "translate ps_x86 int_sample ?s = (Inr (), ?i\<lparr>name_counter := name_counter ?i + 47, cur_state := fresh_machine (name_counter ?i)\<rparr>)"
    using eip_advance_run [OF s(1), of int_sample]
    by (simp add: int_sample_def sample_insn_def x86_int_case_def operands1_def sem_simps ps_x86_ops ps_x86_actions ps_reset_def
        machine_clear_run modifyS_def)
  from processStatement_run [of int_sample s1, unfolded sample_address, OF this] obtain s2 where
    s2: "processStatement ps_x86 (X86Stmt int_sample) s1 = (Inr (), s2)" "r_memory (orig_state s2) = [?c]"
      "r_memory (cur_state s2) = []" "ninsns s2 = 1"
    using s assms(2)
    by (simp add: finished_sel with_ip_def fresh_machine_def ps_started_def ps_startInstruction_def modifyS_def Let_def s1_def
        del: upt_rec_numeral)
  have same: "must_alias (mem_cell_new (ps_const 32 0x2000) w n) ?c" for w n
    by (simp add: must_alias_def mem_cell_new_def ps_eq_def)
  let ?t = "ps_started 0x1000 s2"
  have t: "r_ip (cur_state ?t) = ps_const 32 0x1000" "r_memory (cur_state ?t) = []" "r_memory (orig_state ?t) = [?c]"
    using s2(2-4) by (simp_all add: ps_started_def ps_startInstruction_def modifyS_def Let_def)
  let ?u = "with_ip (ps_const 32 (0x1000 + 5)) ?t"
  have "r_memory (cur_state ?u) = []" "r_memory (orig_state ?u) = [?c]"
    using t by (simp_all, simp_all add: with_ip_def)
  then have "fst (ps_readMemory 32 3 (ps_const 32 0x2000) (ps_const 1 1) ?u) = Inl (Abort ''is_written'')"
    using same by (rule read_meets_written) (simp_all add: mem_cell_new_def)
  moreover have "signExtend 32 64 8192 AND mask 32 = (8192 :: u64)" by code_simp
  ultimately have "fst (translate ps_x86 load_sample ?t) = Inl (Abort ''is_written'')"
    using eip_advance_run [OF t(1), of load_sample]
    by (simp add: load_sample_def sample_insn_def x86_mov_case_def operands2_def sem_simps ps_steps
       write_expr_def switch124_def operand_bytes_def getSegregFromMemoryReference_def bindS_def split: prod.splits)
  then obtain s3 where "translate ps_x86 load_sample ?t = (Inl (Abort ''is_written''), s3)" by (metis prod.collapse)
  from processStatement_run [of load_sample s2, unfolded sample_address, OF this]
  have s3: "processStatement ps_x86 (X86Stmt load_sample) s2 = (Inl (Abort ''is_written''), s3)" by simp
  have kinds: "isHltOrInt (X86Stmt int_sample)" "\<not> isRepeatedStringOp (X86Stmt load_sample)" "\<not> isRepeatedStringOp (X86Stmt int_sample)"
    by (simp_all add: isHltOrInt_def isRepeatedStringOp_def load_sample_def int_sample_def sample_insn_def)
  then have "pieces [X86Stmt int_sample, X86Stmt load_sample] = [[X86Stmt int_sample], [X86Stmt load_sample]]"
    by (simp add: cut_between_def)
  then have "fst (processBlock ps_x86 [X86Stmt int_sample, X86Stmt load_sample] s1) = Inl (Abort ''is_written'')"
    using s2(1) s3
    by (simp add: processBlock_def processBlock_from_pieces process_piece_def ps_x86_actions sem_simps)
  then show ?thesis using stored by blast
qed

end
