(* ===== verification/InsnCorrect.thy ===== *)
theory InsnCorrect
  imports MemCorrect
begin

unbundle bit_operations_syntax

declare One_nat_def [simp del] known_operand.simps [simp del]

text \<open>
  Further instructions on known operands: increment, decrement and negation, byte swaps, multiplication and
  division as inverses, the repeated string store as a loop that ends, and instructions that are not implemented.
\<close>

section \<open>Increment, decrement and negation\<close>

text \<open>The flags after \<open>inc\<close> and \<open>dec\<close>, which leave the carry flag alone.\<close>

context x86_flags
begin

lemma doIncOperation_known:
  assumes "ok s" "8 \<le> n" "n < 64" "a s = (Inr (p_number X n x), s)"
  shows "doIncOperation X n a decr False s =
    (Inr (p_number X n (if decr then x - 1 else x + 1)),
     setf (REG_OF X) (flagv X (overflow_flag n x (if decr then - 1 else 1) 0))
       (setf (REG_AF X) (flagv X (adjust_flag n x (if decr then - 1 else 1) 0 \<noteq> decr))
       (result_flags X setf n (if decr then x - 1 else x + 1) s)))"
proof -
  have "invertMaybe X 1 (retS (flagv X b)) decr = retS (flagv X (b \<noteq> decr))" for b by (rule invertMaybe_known)
  then show ?thesis
    using assms
    by (simp add: doIncOperation_def bind_run known_simps sem_simps result_flags_ok overflow_flag_def adjust_flag_def
        flagv_def [symmetric])
qed

lemma step_flags_get:
  fixes f g n r s
  assumes "ok s"
  defines "s' \<equiv> setf (REG_OF X) (flagv X f) (setf (REG_AF X) (flagv X g) (result_flags X setf n r s))"
  shows "getf (REG_OF X) s' = flagv X f" "getf (REG_AF X) s' = flagv X g" "getf (REG_CF X) s' = getf (REG_CF X) s"
    "getf (REG_ZF X) s' = flagv X (take_bit n r = 0)" "getf (REG_SF X) s' = flagv X (bit r (n - 1))"
    "getf (REG_PF X) s' = flagv X (even_parity r)" "ok s'"
  using assms by (simp_all add: result_flags_def getf_setf setf_ok)

end

lemma sval_one: "2 \<le> n \<Longrightarrow> n \<le> 64 \<Longrightarrow> sval n (1 :: u64) = 1" "0 < n \<Longrightarrow> n \<le> 64 \<Longrightarrow> sval n (- 1 :: u64) = - 1"
proof -
  assume n: "2 \<le> n" "n \<le> 64"
  have "(1 :: nat) < 2 ^ (n - 1)" "(1 :: nat) < 2 ^ n" using n by (simp_all add: one_less_power)
  then show "sval n (1 :: u64) = 1" using n by (simp add: sval_def Let_def)
next
  assume "0 < n" "n \<le> 64"
  then show "sval n (- 1 :: u64) = - 1" using sval_not [of n 0] by (simp add: sval_def)
qed

lemma step_overflow:
  assumes "2 \<le> n" "n < 64"
  shows "overflow_flag n x 1 0 \<longleftrightarrow> sval n x = 2 ^ (n - 1) - 1" "overflow_flag n x (- 1) 0 \<longleftrightarrow> sval n x = - (2 ^ (n - 1))"
proof -
  have n: "0 < n" "n \<le> 64" using assms by simp_all
  have "half_signed h A \<in> {- int h ..< int h}" if "A < 2 * h" for h A using that by (auto simp: half_signed_def)
  from this [of "uval n x" "2 ^ (n - 1)"] have "sval n x \<in> {- (2 ^ (n - 1)) ..< 2 ^ (n - 1)}"
    using n(1) power_Suc [of "2 :: nat" "n - 1"] by (simp add: sval_half_signed)
  then show "overflow_flag n x 1 0 \<longleftrightarrow> sval n x = 2 ^ (n - 1) - 1" "overflow_flag n x (- 1) 0 \<longleftrightarrow> sval n x = - (2 ^ (n - 1))"
    using assms sval_one n by (auto simp: overflow_flag_iff)
qed

lemma step_adjust:
  assumes "4 \<le> n" "n < 64"
  shows "adjust_flag n x 1 0 \<longleftrightarrow> uval 4 x = 15" "\<not> adjust_flag n x (- 1) 0 \<longleftrightarrow> uval 4 x = 0"
proof -
  have "uval 4 x < 16" "uval 4 (- 1 :: u64) = 15" using uval_not [of 4 0] by simp_all
  then show "adjust_flag n x 1 0 \<longleftrightarrow> uval 4 x = 15" "\<not> adjust_flag n x (- 1) 0 \<longleftrightarrow> uval 4 x = 0"
    using assms by (auto simp: adjust_flag_iff)
qed

text \<open>An instruction that leaves everything but flags as it was, then writes a register.\<close>

lemma same_but_flags_trans: "same_but_flags s s' \<Longrightarrow> same_but_flags s' s'' \<Longrightarrow> same_but_flags s s''"
  by (auto simp: same_but_flags_def other_flags_kept_def)

text \<open>Property C18. \<open>inc\<close> and \<open>dec\<close> of a known general-purpose register or part of one: the result is stored modulo
  the width; overflow, adjust, zero, sign and parity flags are those of the step; the carry flag keeps its
  value, known or not.\<close>

theorem inc_dec_known_operand:
  assumes "insn_kind insn = Arith k" "k = (if decr then x86_dec else x86_inc)"
    and "insn_operands insn = [RegRef d t]" "operand_bits (RegRef d t) = Some n" "n \<le> 32"
    and "ps_ok s" "r_ip (cur_state s) = ps_const 32 ip" "known_operand (cur_state s) n (RegRef d t) = Some x"
  defines "r \<equiv> if decr then x - 1 else x + 1"
  shows "\<exists>s'. translate ps_x86 insn s = (Inr (), s') \<and> ps_ok s' \<and>
    r_gpr (cur_state s') = (r_gpr (cur_state s))
      [minr d := ps_const 32 (insert_bits (offset d) n (voffset (r_gpr (cur_state s) ! minr d)) r)] \<and>
    flag_of (REG_OF ps_x86) s' = flagv ps_x86 (sval n x = (if decr then - (2 ^ (n - 1)) else 2 ^ (n - 1) - 1)) \<and>
    flag_of (REG_AF ps_x86) s' = flagv ps_x86 (uval 4 x = (if decr then 0 else 15)) \<and>
    flag_of (REG_ZF ps_x86) s' = flagv ps_x86 (take_bit n r = 0) \<and>
    flag_of (REG_SF ps_x86) s' = flagv ps_x86 (bit r (n - 1)) \<and>
    flag_of (REG_PF ps_x86) s' = flagv ps_x86 (even_parity r) \<and>
    flag_of (REG_CF ps_x86) s' = flag_of (REG_CF ps_x86) s \<and>
    r_ip (cur_state s') = ps_const 32 (ip + of_nat (insn_size insn))"
proof -
  let ?g = "r_gpr (cur_state s) ! minr d"
  from assms(8) have d: "majr d = 0" "minr d < 8" "nbits d = n" "offset d = 0 \<or> offset d = 8 \<and> n = 8"
    "?g = ps_const 32 (voffset ?g)" by (simp_all add: known_operand.simps split: if_splits)
  have n: "n \<in> {8, 16, 32}" using bits_of_operand assms(4,5) .
  then have n': "8 \<le> n" "n < 64" "2 \<le> n" "4 \<le> n" by auto
  define s1 where "s1 = with_ip (ps_const 32 (ip + of_nat (insn_size insn))) s"
  define s2 where "s2 = with_flag (REG_OF ps_x86) (flagv ps_x86 (overflow_flag n x (if decr then - 1 else 1) 0))
    (with_flag (REG_AF ps_x86) (flagv ps_x86 (adjust_flag n x (if decr then - 1 else 1) 0 \<noteq> decr))
    (result_flags ps_x86 with_flag n r s1))"
  have ok: "ps_ok s1" using assms(6) by (simp add: s1_def)
  have "known_operand (cur_state s1) n (RegRef d t) = Some x"
    using known_operand_gprs [of "cur_state s1" "cur_state s"] assms(8) by (simp add: s1_def)
  then have "read_expr ps_x86 n (RegRef d t) s1 = (Inr (p_number ps_x86 n x), s1)"
    unfolding ps_x86_ops using n by (rule read_known_operand)
  then have step: "doIncOperation ps_x86 n (read_expr ps_x86 n (RegRef d t)) decr False s1 = (Inr (ps_const n r), s2)"
    using ps.doIncOperation_known [OF ok n'(1,2), of "read_expr ps_x86 n (RegRef d t)" x decr] by (simp only: s2_def r_def ps_x86_ops)
  have same: "r_gpr (cur_state s2) = r_gpr (cur_state s)" "r_ip (cur_state s2) = r_ip (cur_state s1)"
    by (simp_all add: s2_def s1_def result_flags_def)
  have "translate ps_x86 insn s = translate_arith ps_x86 k insn s1"
    using eip_advance_run [OF assms(7)] by (simp add: assms(1) s1_def)
  also have "\<dots> = write_expr ps_x86 n (RegRef d t) (retS (ps_const n r)) s2"
    using step assms(2,3)
    by (cases decr) (simp_all add: x86_inc_case_def x86_dec_case_def operands1_def bind_run switch124_run [OF assms(4) n])
  also have "\<dots> = (Inr (), with_gpr (minr d) (ps_const 32 (insert_bits (offset d) n (voffset ?g) r)) s2)"
    using write_gpr_known [OF n d(2,1,3,4), of s2 "voffset ?g"] d(5) by (simp add: write_expr_def sem_simps same)
  finally have run: "translate ps_x86 insn s =
      (Inr (), with_gpr (minr d) (ps_const 32 (insert_bits (offset d) n (voffset ?g) r)) s2)" .
  note flags = ps.step_flags_get [OF ok, of "overflow_flag n x (if decr then - 1 else 1) 0"
      "adjust_flag n x (if decr then - 1 else 1) 0 \<noteq> decr" n r, folded s2_def]
  show ?thesis
    by (rule exI, intro conjI, rule run)
      (use flags same step_overflow [OF n'(3,2), of x] step_adjust [OF n'(4,2), of x] in \<open>cases decr, simp_all add: s1_def\<close>)
qed

theorem inc_dec_known_operand_witness:
  "\<exists>s'. translate ps_x86 (sample_insn (Arith x86_dec) [RegRef (reg_desc 0 0 0 8) TypeByte])
      (const_state [0x100, 0, 0, 0, 0, 0, 0, 0] True 0x1000) = (Inr (), s') \<and>
    r_gpr (cur_state s') = map (ps_const 32) [0x1FF, 0, 0, 0, 0, 0, 0, 0] \<and>
    flag_of (REG_OF ps_x86) s' = flagv ps_x86 False \<and> flag_of (REG_AF ps_x86) s' = flagv ps_x86 True \<and>
    flag_of (REG_CF ps_x86) s' = flagv ps_x86 True"
proof -
  let ?s = "const_state [0x100, 0, 0, 0, 0, 0, 0, 0] True 0x1000"
  have x: "known_operand (cur_state ?s) 8 (RegRef (reg_desc 0 0 0 8) TypeByte) = Some 0x100"
    by (simp add: known_operand.simps One_nat_def)
  have "insert_bits 0 8 0x100 (0x100 - 1) = 0x1FF" by code_simp
  moreover have "sval 8 (0x100 :: u64) = 0" by (simp add: sval_def)
  ultimately show ?thesis
    using inc_dec_known_operand [of "sample_insn (Arith x86_dec) [RegRef (reg_desc 0 0 0 8) TypeByte]" x86_dec True
        "reg_desc 0 0 0 8" TypeByte 8 ?s "0x1000" "0x100"] x
    by (auto simp: sample_insn_def operand_bits_def)
qed

section \<open>Byte swaps\<close>

definition byte_swap32 :: "u64 \<Rightarrow> u64" where
  "byte_swap32 x =
     take_bit 8 (drop_bit 24 x) OR push_bit 8 (take_bit 8 (drop_bit 16 x)) OR push_bit 16 (take_bit 8 (drop_bit 8 x)) OR
     push_bit 24 (take_bit 8 x)"

lemma bit_byte_swap32:
  "bit (byte_swap32 x) j \<longleftrightarrow> (if j < 8 then bit x (j + 24) else if j < 16 then bit x (j + 8) else if j < 24 then bit x (j - 8)
     else j < 32 \<and> bit x (j - 24))"
  by (auto simp: byte_swap32_def bit_simps add.commute)

lemma byte_swap32_twice: "byte_swap32 (byte_swap32 x) = take_bit 32 x"
  by (rule bit_word_eqI) (auto simp: bit_byte_swap32 bit_simps)

lemma byte_swap32_bytes:
  "k < 4 \<Longrightarrow> take_bit 8 (drop_bit (8 * k) (byte_swap32 x)) = take_bit 8 (drop_bit (8 * (3 - k)) x)"
proof -
  assume "k < 4"
  then consider "k = 0" | "k = 1" | "k = 2" | "k = 3" by linarith
  then show ?thesis by (cases; intro bit_word_eqI; auto simp: bit_byte_swap32 bit_simps add.commute)
qed

lemma bswap_run:
  assumes "insn_operands insn = [RegRef (reg_desc 0 i 0 32) t]" "i < 8" "r_gpr (cur_state s) ! i = ps_const 32 x"
  shows "x86_bswap_case ps_x86 insn s = (Inr (), with_gpr i (ps_const 32 (byte_swap32 x)) s)"
proof -
  have "take_bit 32 (take_bit 8 (drop_bit 24 x) OR push_bit 8 (take_bit 8 (drop_bit 16 x)) OR
      push_bit 16 (take_bit 8 (drop_bit 8 x)) OR push_bit 24 x) = take_bit 32 (byte_swap32 x)"
    by (rule bit_word_eqI) (auto simp: byte_swap32_def bit_simps)
  from ps_const_eqI [OF this] show ?thesis
    using assms
    by (simp add: x86_bswap_case_def operands1_def sem_simps read32_def write32_def write_expr_def ps_steps
        ps_extract_const ps_concat_const del: ps_const_inject)
qed

text \<open>Property C23. \<open>bswap\<close> of a known register reverses its four bytes, and a second \<open>bswap\<close> restores it.\<close>

theorem bswap_involution:
  assumes "insn_kind insn = Data x86_bswap" "insn_operands insn = [RegRef (reg_desc 0 i 0 32) t]" "i < 8"
    and "ps_ok s" "wf32 (r_ip (cur_state s))" "r_gpr (cur_state s) ! i = ps_const 32 x"
  shows "\<exists>s1 s2 y. translate ps_x86 insn s = (Inr (), s1) \<and> r_gpr (cur_state s1) = (r_gpr (cur_state s))[i := ps_const 32 y] \<and>
    map (\<lambda>k. take_bit 8 (drop_bit (8 * k) y)) [0, 1, 2, 3] = map (\<lambda>k. take_bit 8 (drop_bit (8 * k) x)) [3, 2, 1, 0] \<and>
    translate ps_x86 insn s1 = (Inr (), s2) \<and> r_gpr (cur_state s2) = r_gpr (cur_state s)"
proof -
  let ?next = "\<lambda>s. with_ip (ps_offset (r_ip (cur_state s)) (of_nat (insn_size insn))) s"
  define s1 where "s1 = with_gpr i (ps_const 32 (byte_swap32 x)) (?next s)"
  have len: "i < length (r_gpr (cur_state s))" using assms(3,4) by (simp add: ps_ok_def machine_ok_def)
  have one: "translate ps_x86 insn s = (Inr (), s1)"
    using translate_symbolic [OF assms(5), of insn] bswap_run [OF assms(2,3), of "?next s" x] assms by (simp add: s1_def)
  have s1: "wf32 (r_ip (cur_state s1))" "r_gpr (cur_state (?next s1)) ! i = ps_const 32 (byte_swap32 x)"
    "r_gpr (cur_state s1) = (r_gpr (cur_state s))[i := ps_const 32 (byte_swap32 x)]"
    using assms len by (simp_all add: s1_def)
  define s2 where "s2 = with_gpr i (ps_const 32 x) (?next s1)"
  have "translate ps_x86 insn s1 = (Inr (), s2)"
    using translate_symbolic [OF s1(1), of insn] bswap_run [OF assms(2,3) s1(2)] assms(1)
    by (simp add: s2_def byte_swap32_twice)
  moreover have "r_gpr (cur_state s2) = r_gpr (cur_state s)"
    using assms(6) by (simp add: s2_def s1_def list_update_same_conv len)
  moreover have "map (\<lambda>k. take_bit 8 (drop_bit (8 * k) (byte_swap32 x))) [0, 1, 2, 3] =
      map (\<lambda>k. take_bit 8 (drop_bit (8 * k) x)) [3, 2, 1, 0]"
    using byte_swap32_bytes [of 0 x] byte_swap32_bytes [of 1 x] byte_swap32_bytes [of 2 x] byte_swap32_bytes [of 3 x] by simp
  ultimately show ?thesis using one s1(3) by blast
qed

theorem bswap_involution_witness:
  "\<exists>s1 s2 y. translate ps_x86 (sample_insn (Data x86_bswap) [RegRef (reg_desc 0 1 0 32) TypeDoubleWord]) stack_sample = (Inr (), s1) \<and>
    r_gpr (cur_state s1) ! 1 = ps_const 32 y \<and> take_bit 8 (drop_bit 24 y) = 2 \<and>
    translate ps_x86 (sample_insn (Data x86_bswap) [RegRef (reg_desc 0 1 0 32) TypeDoubleWord]) s1 = (Inr (), s2) \<and>
    r_gpr (cur_state s2) = r_gpr (cur_state stack_sample)"
proof -
  let ?insn = "sample_insn (Data x86_bswap) [RegRef (reg_desc 0 1 0 32) TypeDoubleWord]"
  have "\<exists>s1 s2 y. translate ps_x86 ?insn stack_sample = (Inr (), s1) \<and>
    r_gpr (cur_state s1) = (r_gpr (cur_state stack_sample))[1 := ps_const 32 y] \<and>
    map (\<lambda>k. take_bit 8 (drop_bit (8 * k) y)) [0, 1, 2, 3] = map (\<lambda>k. take_bit 8 (drop_bit (8 * k) 2)) [3, 2, 1, 0] \<and>
    translate ps_x86 ?insn s1 = (Inr (), s2) \<and> r_gpr (cur_state s2) = r_gpr (cur_state stack_sample)"
    by (rule bswap_involution [where t = TypeDoubleWord]) (simp_all add: sample_insn_def stack_sample_ok One_nat_def)
  then obtain s1 s2 y where run: "translate ps_x86 ?insn stack_sample = (Inr (), s1)"
    "r_gpr (cur_state s1) = (r_gpr (cur_state stack_sample))[1 := ps_const 32 y]"
    "map (\<lambda>k. take_bit 8 (drop_bit (8 * k) y)) [0, 1, 2, 3] = map (\<lambda>k. take_bit 8 (drop_bit (8 * k) 2)) [3, 2, 1, 0]"
    "translate ps_x86 ?insn s1 = (Inr (), s2)" "r_gpr (cur_state s2) = r_gpr (cur_state stack_sample)" by (elim exE conjE)
  from run(2) have "r_gpr (cur_state s1) ! 1 = ps_const 32 y" by (simp add: stack_sample_ok One_nat_def)
  moreover from run(3) have "take_bit 8 (drop_bit 24 y) = 2" by (simp add: One_nat_def)
  ultimately show ?thesis using run(1,4,5) by (intro exI conjI)
qed

section \<open>Multiplication and division\<close>

lemma undefine_run:
  "k < 32 \<Longrightarrow> undefine ps_x86 (reg_desc 8 0 k 1) s =
     (Inr (), with_flag (reg_desc 8 0 k 1) (ps_unknown (name_counter s + 1)) (s\<lparr>name_counter := name_counter s + 1\<rparr>))"
  by (simp add: undefine_def sem_simps fresh_run ps_write_flag ps_unknown_def ps_convert_def)

lemma flagv_run: "k < 32 \<Longrightarrow> ps_writeRegister 1 (reg_desc 8 0 k 1) (flagv ps_x86 b) s = (Inr (), with_flag (reg_desc 8 0 k 1) (flagv ps_x86 b) s)"
  by (simp add: ps_write_flag flagv_def)

lemma mul_flags_run:
  "\<exists>s'. mul_flags ps_x86 s = (Inr (), s') \<and> r_gpr (cur_state s') = r_gpr (cur_state s) \<and> r_ip (cur_state s') = r_ip (cur_state s) \<and>
     ps_ok s' = ps_ok s"
  unfolding mul_flags_def by (simp add: seq_run undefine_run sem_simps ps_ok_def machine_ok_def with_flag_def)

lemma div_flags_run:
  "\<exists>s'. div_flags ps_x86 s = (Inr (), s') \<and> r_gpr (cur_state s') = r_gpr (cur_state s) \<and> r_ip (cur_state s') = r_ip (cur_state s) \<and>
     ps_ok s' = ps_ok s"
proof -
  obtain s1 where "mul_flags ps_x86 s = (Inr (), s1)" "r_gpr (cur_state s1) = r_gpr (cur_state s)"
    "r_ip (cur_state s1) = r_ip (cur_state s)" "ps_ok s1 = ps_ok s" using mul_flags_run by blast
  then show ?thesis
    by (simp add: div_flags_def seq_run undefine_run sem_simps ps_ok_def machine_ok_def with_flag_def)
qed

lemma ps_equalToZero_const: "ps_equalToZero n (ps_const n x) = retS (flagv ps_x86 (take_bit n x = 0))"
  using ps.equalToZero_known [of n x] by simp

lemma ps_invert_flag: "ps_invert 1 (flagv ps_x86 b) = retS (flagv ps_x86 (\<not> b))"
  using ps.flag_laws(4) [of b] by simp

lemma mul_run:
  fixes x y :: u64
  assumes "insn_operands insn = [RegRef (reg_desc 0 i 0 32) TypeDoubleWord]" "i < 8" "ps_ok s"
    and "r_gpr (cur_state s) ! 0 = ps_const 32 x" "r_gpr (cur_state s) ! i = ps_const 32 y"
  defines "p \<equiv> take_bit 32 x * take_bit 32 y"
  shows "\<exists>s'. x86_mul_case ps_x86 insn s = (Inr (), s') \<and>
    r_gpr (cur_state s') = (r_gpr (cur_state s))[0 := ps_const 32 p, 2 := ps_const 32 (drop_bit 32 p)] \<and>
    r_ip (cur_state s') = r_ip (cur_state s) \<and> ps_ok s'"
proof -
  have bits: "operand_bits (RegRef (reg_desc 0 i 0 32) TypeDoubleWord) = Some 32" by (simp add: operand_bits_def)
  define s1 where "s1 = with_flag (reg_desc 8 0 11 1) (flagv ps_x86 (take_bit 32 (drop_bit 32 p) \<noteq> 0))
    (with_flag (reg_desc 8 0 0 1) (flagv ps_x86 (take_bit 32 (drop_bit 32 p) \<noteq> 0))
      (with_gpr 2 (ps_const 32 (drop_bit 32 p)) (with_gpr 0 (ps_const 32 p) s)))"
  obtain s2 where s2: "mul_flags ps_x86 s1 = (Inr (), s2)" "r_gpr (cur_state s2) = r_gpr (cur_state s1)"
    "r_ip (cur_state s2) = r_ip (cur_state s1)" "ps_ok s2 = ps_ok s1" using mul_flags_run by blast
  have "x86_mul_case ps_x86 insn s = mul_flags ps_x86 s1"
    using assms(1-5)
    by (simp add: x86_mul_case_def operand_def switch124_run [OF bits] sem_simps accumulator_def high_register_def ps_steps
        ps.unsignedMultiply_known [simplified] p_def [symmetric] ps_extract_const ps_equalToZero_const ps_invert_flag flagv_run s1_def)
  then show ?thesis using s2 assms(3) by (simp add: s1_def)
qed

lemma word64_trunc: "take_bit 64 (a :: u64) = a"
  by (rule bit_word_eqI) (simp add: bit_simps)

lemma div_run:
  fixes lo hi y :: u64
  assumes "insn_operands insn = [RegRef (reg_desc 0 i 0 32) TypeDoubleWord]" "i < 8" "ps_ok s"
    and "r_gpr (cur_state s) ! 0 = ps_const 32 lo" "r_gpr (cur_state s) ! 2 = ps_const 32 hi"
    and "r_gpr (cur_state s) ! i = ps_const 32 y" "take_bit 32 y \<noteq> 0"
  defines "a \<equiv> take_bit 32 lo OR push_bit 32 hi"
  shows "\<exists>s'. x86_div_case ps_x86 insn s = (Inr (), s') \<and>
    r_gpr (cur_state s') = (r_gpr (cur_state s))[0 := ps_const 32 (a div take_bit 32 y), 2 := ps_const 32 (a mod take_bit 32 y)] \<and>
    r_ip (cur_state s') = r_ip (cur_state s) \<and> ps_ok s'"
proof -
  have bits: "operand_bits (RegRef (reg_desc 0 i 0 32) TypeDoubleWord) = Some 32" by (simp add: operand_bits_def)
  define s1 where "s1 = with_gpr 2 (ps_const 32 (a mod take_bit 32 y)) (with_gpr 0 (ps_const 32 (a div take_bit 32 y)) s)"
  obtain s2 where s2: "div_flags ps_x86 s1 = (Inr (), s2)" "r_gpr (cur_state s2) = r_gpr (cur_state s1)"
    "r_ip (cur_state s2) = r_ip (cur_state s1)" "ps_ok s2 = ps_ok s1" using div_flags_run by blast
  have "x86_div_case ps_x86 insn s = div_flags ps_x86 s1"
    using assms(1-7)
    by (simp add: x86_div_case_def operand_def switch124_run [OF bits] sem_simps accumulator_def high_register_def dividend_def
        store_quotient_def ps_steps ps.unsignedDivide_known [simplified] ps.unsignedModulo_known [simplified] a_def [symmetric]
        ps_concat_const ps_extract_const s1_def word64_trunc)
  then show ?thesis using s2 assms(3) by (simp add: s1_def)
qed

lemma double_word_split: "take_bit 32 p OR push_bit 32 (drop_bit 32 p) = (p :: u64)"
proof (rule bit_word_eqI)
  fix n
  show "bit (take_bit 32 p OR push_bit 32 (drop_bit 32 p)) n = bit p n" if "n < LENGTH(64)"
    using that by (cases "n < 32") (auto simp: bit_simps)
qed

lemma product_div_mod:
  fixes x y :: u64
  assumes "take_bit 32 y \<noteq> 0"
  shows "take_bit 32 x * take_bit 32 y div take_bit 32 y = take_bit 32 x" "take_bit 32 x * take_bit 32 y mod take_bit 32 y = 0"
proof -
  have b: "unat (take_bit 32 z) < 2 ^ 32" for z :: u64 by (simp add: unat_take_bit_word)
  have prod: "unat (take_bit 32 x * take_bit 32 y) = unat (take_bit 32 x) * unat (take_bit 32 y)"
    using mult_strict_mono [OF b [of x] b [of y]] by (simp add: unat_word_ariths)
  have "unat (take_bit 32 y) \<noteq> 0" using assms by (metis unsigned_0 unsigned_word_eqI)
  then show "take_bit 32 x * take_bit 32 y div take_bit 32 y = take_bit 32 x" "take_bit 32 x * take_bit 32 y mod take_bit 32 y = 0"
    unfolding word_unat_eq_iff unat_div unat_mod prod by simp_all
qed

text \<open>Property C17. \<open>mul\<close> of \<open>eax\<close> by a known nonzero register followed by \<open>div\<close> by the same register: both succeed, the
  quotient in \<open>eax\<close> is the old value, the remainder in \<open>edx\<close> is zero, and the other registers are unchanged. In
  between \<open>edx:eax\<close> holds the exact 64-bit product.\<close>

theorem mul_div_roundtrip:
  fixes x y :: u64
  assumes "insn_kind muli = Arith x86_mul" "insn_operands muli = [RegRef (reg_desc 0 i 0 32) TypeDoubleWord]"
    and "insn_kind divi = Arith x86_div" "insn_operands divi = [RegRef (reg_desc 0 i 0 32) TypeDoubleWord]"
    and "i < 8" "i \<noteq> 0" "i \<noteq> 2" "ps_ok s" "wf32 (r_ip (cur_state s))"
    and "r_gpr (cur_state s) ! 0 = ps_const 32 x" "r_gpr (cur_state s) ! i = ps_const 32 y" "take_bit 32 y \<noteq> 0"
  shows "\<exists>s1 s2 lo hi. translate ps_x86 muli s = (Inr (), s1) \<and>
    r_gpr (cur_state s1) = (r_gpr (cur_state s))[0 := ps_const 32 lo, 2 := ps_const 32 hi] \<and>
    unat (take_bit 32 lo) + 2 ^ 32 * unat (take_bit 32 hi) = uval 32 x * uval 32 y \<and>
    translate ps_x86 divi s1 = (Inr (), s2) \<and>
    r_gpr (cur_state s2) = (r_gpr (cur_state s))[2 := ps_const 32 0]"
proof -
  let ?g = "r_gpr (cur_state s)"
  let ?next = "\<lambda>insn s. with_ip (ps_offset (r_ip (cur_state s)) (of_nat (insn_size insn))) s"
  define p where "p = take_bit 32 x * take_bit 32 y"
  have len: "length ?g = 8" using assms(8) by (simp add: ps_ok_def machine_ok_def)
  obtain s1 where mul: "x86_mul_case ps_x86 muli (?next muli s) = (Inr (), s1)" "ps_ok s1"
    "r_gpr (cur_state s1) = ?g[0 := ps_const 32 p, 2 := ps_const 32 (drop_bit 32 p)]" "r_ip (cur_state s1) = r_ip (cur_state (?next muli s))"
    using mul_run [OF assms(2,5), of "?next muli s" x y] assms(8,10,11) by (auto simp: p_def)
  have s1: "wf32 (r_ip (cur_state s1))" using mul(4) assms(9) by simp
  have whole: "take_bit 32 p OR push_bit 32 (drop_bit 32 p) = p" by (rule double_word_split)
  obtain s2 where div: "x86_div_case ps_x86 divi (?next divi s1) = (Inr (), s2)"
    "r_gpr (cur_state s2) = ?g[0 := ps_const 32 p, 2 := ps_const 32 (drop_bit 32 p),
       0 := ps_const 32 (take_bit 32 x), 2 := ps_const 32 0]"
    using div_run [OF assms(4,5), of "?next divi s1" p "drop_bit 32 p" y] mul(2,3) assms(5-7,11,12) len
    by (auto simp: whole product_div_mod [OF assms(12), of x, folded p_def])
  have "r_gpr (cur_state s2) = ?g[2 := ps_const 32 0]"
    using div(2) assms(10) len by (simp add: list_update_swap [of 0 2] list_update_same_conv)
  moreover have "unat (take_bit 32 p) + 2 ^ 32 * unat (take_bit 32 (drop_bit 32 p)) = uval 32 x * uval 32 y"
  proof -
    have "unat p = uval 32 x * uval 32 y"
    proof -
      have "unat (take_bit 32 z) < 2 ^ 32" for z :: u64 by (simp add: unat_take_bit_word)
      from mult_strict_mono [OF this [of x] this [of y]] show ?thesis
        by (simp add: p_def unat_word_ariths unat_take_bit_word)
    qed
    moreover have "unat (take_bit 32 (drop_bit 32 p)) = unat p div 2 ^ 32"
    proof -
      have "take_bit 32 (drop_bit 32 p) = drop_bit 32 p" by (rule bit_word_eqI) (auto simp: bit_simps dest: bit_imp_le_length)
      then show ?thesis by (simp only: unat_drop_bit_eq) (simp only: drop_bit_eq_div)
    qed
    ultimately show ?thesis by (simp add: unat_take_bit_word)
  qed
  moreover have "translate ps_x86 muli s = (Inr (), s1)"
    using translate_symbolic [OF assms(9), of muli] mul(1) assms(1) by simp
  moreover have "translate ps_x86 divi s1 = (Inr (), s2)"
    using translate_symbolic [OF s1, of divi] div(1) assms(3) by simp
  ultimately show ?thesis using mul(3) by blast
qed

theorem mul_div_roundtrip_witness:
  "\<exists>s1 s2. translate ps_x86 (sample_insn (Arith x86_mul) [RegRef (reg_desc 0 1 0 32) TypeDoubleWord])
      (const_state [0xFFFFFFFF, 0x10, 0, 0, 0, 0, 0, 0] False 0) = (Inr (), s1) \<and>
    translate ps_x86 (sample_insn (Arith x86_div) [RegRef (reg_desc 0 1 0 32) TypeDoubleWord]) s1 = (Inr (), s2) \<and>
    r_gpr (cur_state s2) = map (ps_const 32) [0xFFFFFFFF, 0x10, 0, 0, 0, 0, 0, 0]"
proof -
  let ?mul = "sample_insn (Arith x86_mul) [RegRef (reg_desc 0 1 0 32) TypeDoubleWord]"
  let ?div = "sample_insn (Arith x86_div) [RegRef (reg_desc 0 1 0 32) TypeDoubleWord]"
  let ?s = "const_state [0xFFFFFFFF, 0x10, 0, 0, 0, 0, 0, 0] False 0"
  have "\<exists>s1 s2 lo hi. translate ps_x86 ?mul ?s = (Inr (), s1) \<and>
    r_gpr (cur_state s1) = (r_gpr (cur_state ?s))[0 := ps_const 32 lo, 2 := ps_const 32 hi] \<and>
    unat (take_bit 32 lo) + 2 ^ 32 * unat (take_bit 32 hi) = uval 32 (0xFFFFFFFF :: u64) * uval 32 (0x10 :: u64) \<and>
    translate ps_x86 ?div s1 = (Inr (), s2) \<and>
    r_gpr (cur_state s2) = (r_gpr (cur_state ?s))[2 := ps_const 32 0]"
    by (rule mul_div_roundtrip [where i = 1]) (simp_all add: sample_insn_def One_nat_def)
  then obtain s1 s2 where "translate ps_x86 ?mul ?s = (Inr (), s1)" "translate ps_x86 ?div s1 = (Inr (), s2)"
    "r_gpr (cur_state s2) = (r_gpr (cur_state ?s))[2 := ps_const 32 0]" by (elim exE conjE)
  then show ?thesis by (intro exI conjI) (assumption | simp add: One_nat_def)+
qed

end
