(* ===== verification/StringLoop.thy ===== *)
theory StringLoop
  imports InsnCorrect
begin

unbundle bit_operations_syntax

declare One_nat_def [simp del] known_operand.simps [simp del]

text \<open>
  The repeated store \<open>rep stos\<close>, whose iterations are single executions of the instruction with the instruction
  pointer set back to it: one execution, the whole loop, and the case of a zero count.
\<close>

section \<open>One execution\<close>

lemma ps_ite_known: "ps_ite n (flagv ps_x86 True) a b = retS a"
  by (auto simp: ps_ite_def flagv_def)

lemma flag_simps:
  "ps_and 1 (flagv ps_x86 a) (flagv ps_x86 b) = retS (flagv ps_x86 (a \<and> b))"
  using ps.flag_laws(1) [of a b] by simp

lemma ps_const_true: "ps_const 1 1 = flagv ps_x86 True"
  by (simp add: flagv_def)

lemma ps_add_known: "ps_add n (ps_const n x) (ps_const n y) = retS (ps_const n (x + y))"
  using ps.add_known [of n x y] by simp

lemma rep_enter_run:
  assumes "r_gpr (cur_state s) ! 1 = ps_const 32 c"
  shows "rep_enter ps_x86 s = (Inr (flagv ps_x86 (take_bit 32 c \<noteq> 0)), s)"
  using assms by (simp add: rep_enter_def sem_simps ps_steps ps_equalToZero_const ps_invert_flag)

lemma string_step_run:
  assumes "flag_of (REG_DF ps_x86) s = flagv ps_x86 df"
  shows "string_step ps_x86 N s = (Inr (ps_const 32 (if df then - of_nat N else of_nat N)), s)"
  using assms by (simp add: string_step_def sem_simps ps_read_flag flag_ite)

text \<open>The state after one store: the cell, and the moved pointer.\<close>

definition stored :: "nat \<Rightarrow> bool \<Rightarrow> ps_state \<Rightarrow> ps_state" where
  "stored N df s =
     (let g = r_gpr (cur_state s) in
      with_gpr 7 (ps_offset (g ! 7) (if df then - of_nat N else of_nat N))
        (with_memory (r_memory (mem_write (discard_popped s) (8 * N) (g ! 7) (ps_convert (8 * N) (g ! 0)) (cur_state s))) s))"

lemma stos_run:
  assumes "insn_operands insn = []" "insn_addressSize insn = insnsize_32" "N \<in> {1, 2, 4}"
    and "wf32 (r_gpr (cur_state s) ! 7)" "wf32 (r_gpr (cur_state s) ! 0)" "flag_of (REG_DF ps_x86) s = flagv ps_x86 df"
  shows "stos_semantics ps_x86 N insn (flagv ps_x86 True) s = (Inr (), stored N df s)"
proof -
  let ?m = "with_memory (r_memory (mem_write (discard_popped s) (8 * N) (r_gpr (cur_state s) ! 7)
    (ps_convert (8 * N) (r_gpr (cur_state s) ! 0)) (cur_state s))) s"
  have low_bytes: "ps_extract 0 (8 * N) 32 v = retS (ps_convert (8 * N) v)" for v by (simp add: ps_extract_def)
  have "flag_of (REG_DF ps_x86) ?m = flagv ps_x86 df" using assms(6) by simp
  note step = string_step_run [OF this, of N]
  have "advance_if ps_x86 N (REG_EDI ps_x86) (flagv ps_x86 True) ?m = (Inr (), stored N df s)"
    using assms(4) step by (simp add: advance_if_def sem_simps ps_steps ps_ite_known stored_def Let_def)
  then show ?thesis
    using assms(1,2,4,5)
    by (simp add: stos_semantics_def string_checks_def sem_simps ps_steps low_bytes)
qed

lemma rep_repeat_run:
  assumes "r_gpr (cur_state s) ! 1 = ps_const 32 c" "r_ip (cur_state s) = ps_const 32 nxt"
  shows "rep_repeat ps_x86 (ps_const 32 addr) (ps_const 1 1) (flagv ps_x86 True) s =
    (Inr (), with_ip (ps_const 32 (if take_bit 32 (c - 1) \<noteq> 0 then addr else nxt)) (with_gpr 1 (ps_const 32 (c - 1)) s))"
  using assms
  by (simp add: rep_repeat_def sem_simps ps_steps ps_ite_known ps_add_known ps_const_true flag_simps ps_equalToZero_const
      ps_invert_flag flag_ite set_eip_run del: ps_const_inject)

abbreviation (input) step_of :: "nat \<Rightarrow> bool \<Rightarrow> u64" where
  "step_of N df \<equiv> (if df then - of_nat N else of_nat N)"

lemma stored_sel:
  "r_gpr (cur_state (stored N df s)) = (r_gpr (cur_state s))[7 := ps_offset (r_gpr (cur_state s) ! 7) (step_of N df)]"
  "r_ip (cur_state (stored N df s)) = r_ip (cur_state s)" "ps_ok s \<Longrightarrow> ps_ok (stored N df s)"
  "flag_of r (stored N df s) = flag_of r s"
  "holds_at (r_memory (cur_state (stored N df s))) (r_gpr (cur_state s) ! 7) (ps_convert 32 (ps_convert (8 * N) (r_gpr (cur_state s) ! 0)))"
  by (simp_all add: stored_def Let_def mem_write_holds)

definition rep_stos_insn :: "x86_insn \<Rightarrow> nat \<Rightarrow> bool" where
  "rep_stos_insn insn N \<longleftrightarrow> (\<exists>sz. insn_kind insn = StringOp prefix_rep op_stos sz \<and> str_bytes sz = Some N) \<and>
     insn_operands insn = [] \<and> insn_addressSize insn = insnsize_32"

lemma str_bytes_cases: "str_bytes sz = Some N \<Longrightarrow> N \<in> {1, 2, 4}"
  by (cases sz) auto

lemma rep_stos_once:
  assumes "rep_stos_insn insn N" "ps_ok s" "r_gpr (cur_state s) ! 1 = ps_const 32 c" "take_bit 32 c \<noteq> 0"
    and "wf32 (r_gpr (cur_state s) ! 7)" "wf32 (r_gpr (cur_state s) ! 0)" "flag_of (REG_DF ps_x86) s = flagv ps_x86 df"
  shows "\<exists>s'. processInstruction ps_x86 insn s = (Inr (), s') \<and> ps_ok s' \<and> flag_of (REG_DF ps_x86) s' = flagv ps_x86 df \<and>
    r_gpr (cur_state s') = (r_gpr (cur_state s))[7 := ps_offset (r_gpr (cur_state s) ! 7) (step_of N df), 1 := ps_const 32 (c - 1)] \<and>
    r_ip (cur_state s') = ps_const 32 (if take_bit 32 (c - 1) \<noteq> 0 then insn_address insn else insn_address insn + of_nat (insn_size insn))"
proof -
  let ?a = "insn_address insn"
  define s1 where "s1 = with_ip (ps_const 32 (?a + of_nat (insn_size insn))) (ps_started ?a s)"
  have s1: "r_gpr (cur_state s1) = r_gpr (cur_state s)" "flag_of (REG_DF ps_x86) s1 = flagv ps_x86 df" "ps_ok s1"
    "r_ip (cur_state s1) = ps_const 32 (?a + of_nat (insn_size insn))" using assms(2,7) by (simp_all add: s1_def)
  obtain sz where sz: "insn_kind insn = StringOp prefix_rep op_stos sz" "str_bytes sz = Some N" "insn_operands insn = []"
    "insn_addressSize insn = insnsize_32" using assms(1) unfolding rep_stos_insn_def by blast
  define s2 where "s2 = stored N df s1"
  have s2: "r_gpr (cur_state s2) ! 1 = ps_const 32 c" "r_ip (cur_state s2) = ps_const 32 (?a + of_nat (insn_size insn))"
    using assms(3) s1 by (simp_all add: s2_def stored_sel)
  let ?s3 = "with_ip (ps_const 32 (if take_bit 32 (c - 1) \<noteq> 0 then ?a else ?a + of_nat (insn_size insn))) (with_gpr 1 (ps_const 32 (c - 1)) s2)"
  have "translate ps_x86 insn (ps_started ?a s) = rep_stos_semantics ps_x86 N insn (ps_const 32 ?a) s1"
    using eip_advance_run [of "ps_started ?a s" ?a insn] sz by (simp add: s1_def x86_string_case_def)
  also have "\<dots> = (Inr (), ?s3)"
    using rep_enter_run [of s1 c] assms(3,4) s1 stos_run [OF sz(3,4) str_bytes_cases [OF sz(2)], of s1 df] assms(5,6)
      rep_repeat_run [OF s2, of ?a]
    by (simp add: rep_stos_semantics_def sem_simps s2_def)
  finally have "processStatement ps_x86 (X86Stmt insn) s = (Inr (), ps_finished ?s3)"
    using processStatement_run by fastforce
  then have "processInstruction ps_x86 insn s = (Inr (), ps_finished ?s3)" by (simp add: processStatement_def)
  moreover have "ps_ok (ps_finished ?s3)" "flag_of (REG_DF ps_x86) (ps_finished ?s3) = flagv ps_x86 df"
    using s1 by (simp_all add: s2_def stored_sel)
  ultimately show ?thesis using s1 by (simp add: s2_def stored_sel)
qed

section \<open>The loop\<close>

text \<open>Executing the instruction \<open>k\<close> times.\<close>

fun process_times :: "nat \<Rightarrow> x86_insn \<Rightarrow> (ps_state, unit) sem" where
  "process_times 0 insn = retS ()"
| "process_times (Suc k) insn = seqS (process_times k insn) (processInstruction ps_x86 insn)"

lemma count_down:
  assumes "k \<le> uval 32 c"
  shows "take_bit 32 (c - of_nat k) = 0 \<longleftrightarrow> uval 32 c = k"
proof -
  have k: "k < 2 ^ 32" using assms by (meson le_less_trans mod_less_divisor zero_less_numeral zero_less_power)
  then have uk: "uval 32 (of_nat k :: u64) = k" by (simp add: unat_of_nat)
  have "take_bit 32 (c - of_nat k) = 0 \<longleftrightarrow> take_bit 32 (c + NOT (of_nat k) + 1) = 0"
    by (simp add: not_eq_complement)
  then show ?thesis using sub_zero_iff [of 32 c "of_nat k"] uk by simp
qed

lemma rep_stos_times:
  assumes "rep_stos_insn insn N" "ps_ok s" "r_gpr (cur_state s) ! 1 = ps_const 32 c" "wf32 (r_gpr (cur_state s) ! 7)"
    and "wf32 (r_gpr (cur_state s) ! 0)" "flag_of (REG_DF ps_x86) s = flagv ps_x86 df" "k \<le> uval 32 c"
  shows "\<exists>s'. process_times k insn s = (Inr (), s') \<and> ps_ok s' \<and> flag_of (REG_DF ps_x86) s' = flagv ps_x86 df \<and>
    r_gpr (cur_state s') = (r_gpr (cur_state s))
      [7 := ps_offset (r_gpr (cur_state s) ! 7) (of_nat k * step_of N df), 1 := ps_const 32 (c - of_nat k)] \<and>
    (0 < k \<longrightarrow> r_ip (cur_state s') =
       ps_const 32 (if k < uval 32 c then insn_address insn else insn_address insn + of_nat (insn_size insn)))"
  using assms(7)
proof (induction k)
  case 0
  have "(r_gpr (cur_state s))[1 := ps_const 32 c] = r_gpr (cur_state s)" using assms(3) by (metis list_update_id)
  then show ?case using assms(2,4,6) by (simp add: retS_def)
next
  case (Suc k)
  let ?g = "r_gpr (cur_state s)"
  from Suc obtain s1 where s1: "process_times k insn s = (Inr (), s1)" "ps_ok s1" "flag_of (REG_DF ps_x86) s1 = flagv ps_x86 df"
    "r_gpr (cur_state s1) = ?g[7 := ps_offset (?g ! 7) (of_nat k * step_of N df), 1 := ps_const 32 (c - of_nat k)]" by auto
  have len: "length ?g = 8" using assms(2) by (simp add: ps_ok_def machine_ok_def)
  have pos: "take_bit 32 (c - of_nat k) \<noteq> 0" using count_down [of k c] Suc.prems by simp
  have last: "take_bit 32 (c - of_nat k - 1) \<noteq> 0 \<longleftrightarrow> Suc k < uval 32 c"
    using count_down [of "Suc k" c] Suc.prems by (auto simp: algebra_simps)
  have "\<exists>s'. processInstruction ps_x86 insn s1 = (Inr (), s') \<and> ps_ok s' \<and> flag_of (REG_DF ps_x86) s' = flagv ps_x86 df \<and>
    r_gpr (cur_state s') = (r_gpr (cur_state s1))[7 := ps_offset (r_gpr (cur_state s1) ! 7) (step_of N df), 1 := ps_const 32 (c - of_nat k - 1)] \<and>
    r_ip (cur_state s') = ps_const 32 (if take_bit 32 (c - of_nat k - 1) \<noteq> 0 then insn_address insn else insn_address insn + of_nat (insn_size insn))"
    using assms(1,4,5) s1 pos len by (intro rep_stos_once) simp_all
  moreover have "(r_gpr (cur_state s1))[7 := ps_offset (r_gpr (cur_state s1) ! 7) (step_of N df), 1 := ps_const 32 (c - of_nat k - 1)] =
      ?g[7 := ps_offset (?g ! 7) (of_nat (Suc k) * step_of N df), 1 := ps_const 32 (c - of_nat (Suc k))]"
    using s1(4) len by (simp add: list_update_swap [of 1 7] algebra_simps)
  ultimately show ?case using s1(1) last by (auto simp: seq_run)
qed

text \<open>Property C12. \<open>rep stosb\<close>, \<open>stosw\<close> and \<open>stosd\<close> with a known count \<open>n > 0\<close> and a known direction flag end: each of the
  first \<open>n - 1\<close> executions goes back to the instruction, the \<open>n\<close>-th leaves it for the next one with \<open>ecx = 0\<close> and with
  \<open>edi\<close>, which may be unknown, moved by \<open>n\<close> times the operand size in the direction of the flag.\<close>

theorem rep_stos_terminates:
  assumes "rep_stos_insn insn N" "ps_ok s" "r_gpr (cur_state s) ! 1 = ps_const 32 c" "0 < uval 32 c"
    and "wf32 (r_gpr (cur_state s) ! 7)" "wf32 (r_gpr (cur_state s) ! 0)" "flag_of (REG_DF ps_x86) s = flagv ps_x86 df"
  shows "(\<exists>s'. process_times (uval 32 c) insn s = (Inr (), s') \<and>
      r_ip (cur_state s') = ps_const 32 (insn_address insn + of_nat (insn_size insn)) \<and>
      r_gpr (cur_state s') = (r_gpr (cur_state s))
        [7 := ps_offset (r_gpr (cur_state s) ! 7) (of_nat (uval 32 c) * (if df then - of_nat N else of_nat N)), 1 := ps_const 32 0]) \<and>
    (\<forall>k. 0 < k \<longrightarrow> k < uval 32 c \<longrightarrow>
      (\<exists>s'. process_times k insn s = (Inr (), s') \<and> r_ip (cur_state s') = ps_const 32 (insn_address insn)))"
proof -
  have zero: "ps_const 32 (c - of_nat (uval 32 c)) = ps_const 32 0"
    using count_down [of "uval 32 c" c] by (intro ps_const_eqI) simp
  note times = rep_stos_times [OF assms(1-3,5-7)]
  show ?thesis
  proof (intro conjI allI impI)
    show "\<exists>s'. process_times (uval 32 c) insn s = (Inr (), s') \<and>
      r_ip (cur_state s') = ps_const 32 (insn_address insn + of_nat (insn_size insn)) \<and>
      r_gpr (cur_state s') = (r_gpr (cur_state s))
        [7 := ps_offset (r_gpr (cur_state s) ! 7) (of_nat (uval 32 c) * (if df then - of_nat N else of_nat N)), 1 := ps_const 32 0]"
      using times [OF order_refl] assms(4)
      by (elim exE conjE) (intro exI conjI, assumption, simp only: less_irrefl if_False, simp only: zero)
    show "\<exists>s'. process_times k insn s = (Inr (), s') \<and> r_ip (cur_state s') = ps_const 32 (insn_address insn)"
      if "0 < k" "k < uval 32 c" for k
      using times [OF less_imp_le [OF that(2)]] that
      by (elim exE conjE) (intro exI conjI, assumption, simp only: if_True)
  qed
qed

definition rep_stosd_sample :: x86_insn where
  "rep_stosd_sample = sample_insn (StringOp prefix_rep op_stos size_d) []"

lemma rep_stosd_sample_ok: "rep_stos_insn rep_stosd_sample 4"
  by (simp add: rep_stosd_sample_def sample_insn_def rep_stos_insn_def)

theorem rep_stos_terminates_witness:
  "\<exists>s'. process_times 3 rep_stosd_sample (const_state [0x11, 3, 0, 0, 0, 0, 0, 0x5000] False 0) = (Inr (), s') \<and>
    r_ip (cur_state s') = ps_const 32 0x1005 \<and> r_gpr (cur_state s') ! 7 = ps_const 32 0x500C \<and> r_gpr (cur_state s') ! 1 = ps_const 32 0"
proof -
  let ?s = "const_state [0x11, 3, 0, 0, 0, 0, 0, 0x5000] False 0"
  have edi: "ps_offset (ps_const 32 0x5000) 0xC = ps_const 32 0x500C" by (simp add: ps_offset_def ps_const_eq)
  have "(\<exists>s'. process_times (uval 32 (3 :: u64)) rep_stosd_sample ?s = (Inr (), s') \<and>
      r_ip (cur_state s') = ps_const 32 (insn_address rep_stosd_sample + of_nat (insn_size rep_stosd_sample)) \<and>
      r_gpr (cur_state s') = (r_gpr (cur_state ?s))
        [7 := ps_offset (r_gpr (cur_state ?s) ! 7) (of_nat (uval 32 (3 :: u64)) * (if False then - of_nat 4 else of_nat 4)), 1 := ps_const 32 0])"
    using rep_stos_terminates [OF rep_stosd_sample_ok, of ?s 3 False] by (simp add: One_nat_def const_state_flag [unfolded One_nat_def])
  then show ?thesis
    by (elim exE) (rule_tac x = s' in exI, simp add: rep_stosd_sample_def sample_insn_def edi One_nat_def)
qed

section \<open>A zero count\<close>

lemma ite_else:
  "ps_ite n (flagv ps_x86 False) (ps_const n x) (ps_const n y) = retS (ps_const n y)"
  "ps_ite n (flagv ps_x86 False) (ps_offset v k) v = retS v"
proof -
  have "ps_eq (ps_offset v k) v \<Longrightarrow> ps_offset v k = v" by (simp add: ps_eq_def ps_offset_def)
  then show "ps_ite n (flagv ps_x86 False) (ps_offset v k) v = retS v" by (simp add: ps_ite_def flagv_def)
  show "ps_ite n (flagv ps_x86 False) (ps_const n x) (ps_const n y) = retS (ps_const n y)" by (simp add: flag_ite)
qed

lemma write_memory_cond: "ps_writeMemory n seg a v c = ps_writeMemory n seg a v c'"
  by (simp add: ps_writeMemory_def)

lemma stos_skipped:
  assumes "insn_operands insn = []" "insn_addressSize insn = insnsize_32" "N \<in> {1, 2, 4}"
    and "wf32 (r_gpr (cur_state s) ! 7)" "wf32 (r_gpr (cur_state s) ! 0)" "flag_of (REG_DF ps_x86) s = flagv ps_x86 df"
  shows "stos_semantics ps_x86 N insn (flagv ps_x86 False) s = (Inr (), with_gpr 7 (r_gpr (cur_state s) ! 7)
    (with_memory (r_memory (mem_write (discard_popped s) (8 * N) (r_gpr (cur_state s) ! 7)
      (ps_convert (8 * N) (r_gpr (cur_state s) ! 0)) (cur_state s))) s))"
proof -
  let ?m = "with_memory (r_memory (mem_write (discard_popped s) (8 * N) (r_gpr (cur_state s) ! 7)
    (ps_convert (8 * N) (r_gpr (cur_state s) ! 0)) (cur_state s))) s"
  have low_bytes: "ps_extract 0 (8 * N) 32 v = retS (ps_convert (8 * N) v)" for v by (simp add: ps_extract_def)
  have "flag_of (REG_DF ps_x86) ?m = flagv ps_x86 df" using assms(6) by simp
  note step = string_step_run [OF this, of N]
  have "advance_if ps_x86 N (REG_EDI ps_x86) (flagv ps_x86 False) ?m = (Inr (), with_gpr 7 (r_gpr (cur_state s) ! 7) ?m)"
    using assms(4) step by (simp add: advance_if_def sem_simps ps_steps ite_else)
  then show ?thesis
    using assms(1,2,4,5)
    by (simp add: stos_semantics_def string_checks_def sem_simps ps_steps low_bytes)
qed

lemma rep_repeat_skipped:
  assumes "r_gpr (cur_state s) ! 1 = ps_const 32 0" "r_ip (cur_state s) = ps_const 32 nxt"
  shows "rep_repeat ps_x86 (ps_const 32 addr) (ps_const 1 1) (flagv ps_x86 False) s =
    (Inr (), with_ip (ps_const 32 nxt) (with_gpr 1 (ps_const 32 0) s))"
  using assms
  by (simp add: rep_repeat_def sem_simps ps_steps ite_else ps_add_known ps_const_true flag_simps ps_equalToZero_const
      ps_invert_flag set_eip_run del: ps_const_inject)

lemma low_bytes_kept: "n \<le> 32 \<Longrightarrow> ps_convert n (ps_convert 32 (ps_convert n v)) = ps_convert n v"
  by (simp add: ps_convert_def and_genMask)

lemma mem_write_with_ip:
  "r_memory (mem_write d n a v (cur_state (with_ip w s))) = r_memory (mem_write d n a v (cur_state s))"
  by (simp add: mem_write_def mem_write_cell_def memory_reference_type_def with_ip_def Let_def cong: if_cong)

lemma with_same:
  "with_gpr i (r_gpr (cur_state s) ! i) s = s" "with_ip (r_ip (cur_state s)) s = s"
  by (simp_all add: with_gpr_def with_ip_def)

text \<open>Property C34. \<open>rep stos\<close> with a count of zero must do nothing, but the policy stores: its \<open>writeMemory\<close> does not look at
  the condition under which the store is to happen, and is the same function for every condition. For every width, every
  address in \<open>edi\<close> and every value in \<open>eax\<close>, known or not: the instruction goes on behind itself and keeps all registers and
  flags, as it should, but the bytes at \<open>edi\<close> have been overwritten and read as the low bytes of \<open>eax\<close> from then on.\<close>

theorem rep_stos_zero_count_stores:
  assumes "rep_stos_insn insn N" "r_ip (cur_state s) = ps_const 32 ip" "r_gpr (cur_state s) ! 1 = ps_const 32 0"
    and "wf32 (r_gpr (cur_state s) ! 7)" "wf32 (r_gpr (cur_state s) ! 0)" "flag_of (REG_DF ps_x86) s = flagv ps_x86 df"
  defines "cells \<equiv> r_memory (mem_write (discard_popped s) (8 * N) (r_gpr (cur_state s) ! 7)
    (ps_convert (8 * N) (r_gpr (cur_state s) ! 0)) (cur_state s))"
  shows "translate ps_x86 insn s = (Inr (), s\<lparr>cur_state := (cur_state s)
      \<lparr>r_ip := ps_const 32 (ip + of_nat (insn_size insn)), r_memory := cells\<rparr>\<rparr>) \<and>
    (\<forall>s' seg c. cur_state s' = (cur_state s)\<lparr>r_ip := ps_const 32 (ip + of_nat (insn_size insn)), r_memory := cells\<rparr> \<longrightarrow>
      fst (ps_readMemory (8 * N) seg (r_gpr (cur_state s) ! 7) c s') = Inr (ps_convert (8 * N) (r_gpr (cur_state s) ! 0))) \<and>
    (\<forall>n seg a v c c'. ps_writeMemory n seg a v c = ps_writeMemory n seg a v c')"
proof (intro conjI allI impI write_memory_cond)
  let ?next = "ps_const 32 (ip + of_nat (insn_size insn))"
  define s1 where "s1 = with_ip ?next s"
  obtain sz where sz: "insn_kind insn = StringOp prefix_rep op_stos sz" "str_bytes sz = Some N" "insn_operands insn = []"
    "insn_addressSize insn = insnsize_32" using assms(1) unfolding rep_stos_insn_def by blast
  have s1: "r_gpr (cur_state s1) = r_gpr (cur_state s)" "flag_of (REG_DF ps_x86) s1 = flagv ps_x86 df"
    "r_ip (cur_state s1) = ?next" "discard_popped s1 = discard_popped s"
    using assms(6) by (simp_all add: s1_def, simp add: with_ip_def)
  define s2 where "s2 = with_memory cells s1"
  have "translate ps_x86 insn s = rep_stos_semantics ps_x86 N insn (ps_const 32 ip) s1"
    using eip_advance_run [OF assms(2), of insn] sz by (simp add: s1_def x86_string_case_def)
  also have "\<dots> = (Inr (), with_ip ?next (with_gpr 1 (ps_const 32 0) (with_gpr 7 (r_gpr (cur_state s) ! 7) s2)))"
  proof -
    have stos: "stos_semantics ps_x86 N insn (flagv ps_x86 False) s1 = (Inr (), with_gpr 7 (r_gpr (cur_state s) ! 7) s2)"
      using stos_skipped [OF sz(3,4) str_bytes_cases [OF sz(2)], of s1 df] assms(4,5) s1
      by (simp add: s2_def cells_def s1_def mem_write_with_ip)
    have "rep_enter ps_x86 s1 = (Inr (flagv ps_x86 False), s1)" using rep_enter_run [of s1 0] assms(3) s1 by simp
    then show ?thesis
      using stos rep_repeat_skipped [of "with_gpr 7 (r_gpr (cur_state s) ! 7) s2" "ip + of_nat (insn_size insn)" ip] assms(3) s1
      by (simp add: rep_stos_semantics_def sem_simps s2_def)
  qed
  also have "with_ip ?next (with_gpr 1 (ps_const 32 0) (with_gpr 7 (r_gpr (cur_state s) ! 7) s2)) = s2"
    using with_same(1) [of 7 s2] with_same(1) [of 1 s2] with_same(2) [of s2] assms(3) s1 by (simp add: s2_def)
  finally show "translate ps_x86 insn s = (Inr (), s\<lparr>cur_state := (cur_state s)\<lparr>r_ip := ?next, r_memory := cells\<rparr>\<rparr>)"
    by (simp add: s2_def s1_def with_ip_def with_memory_def)
  fix s' :: ps_state and seg c assume "cur_state s' = (cur_state s)\<lparr>r_ip := ?next, r_memory := cells\<rparr>"
  then have "holds_at (r_memory (cur_state s')) (r_gpr (cur_state s) ! 7) (ps_convert 32 (ps_convert (8 * N) (r_gpr (cur_state s) ! 0)))"
    by (simp add: cells_def mem_write_holds)
  moreover have "N \<in> {1, 2, 4}" using str_bytes_cases [OF sz(2)] .
  ultimately show "fst (ps_readMemory (8 * N) seg (r_gpr (cur_state s) ! 7) c s') = Inr (ps_convert (8 * N) (r_gpr (cur_state s) ! 0))"
    using read_holds [of s' "r_gpr (cur_state s) ! 7"] by (auto simp: low_bytes_kept)
qed

theorem rep_stos_zero_count_stores_witness:
  "\<exists>s1. translate ps_x86 rep_stosd_sample (const_state [0x11, 0, 0, 0, 0, 0, 0, 0x5000] False 0x1000) = (Inr (), s1) \<and>
    r_memory (cur_state (const_state [0x11, 0, 0, 0, 0, 0, 0, 0x5000] False 0x1000)) = [] \<and>
    fst (ps_readMemory 32 0 (ps_const 32 0x5000) (ps_const 1 1) s1) = Inr (ps_const 32 0x11)"
proof -
  let ?s = "const_state [0x11, 0, 0, 0, 0, 0, 0, 0x5000] False 0x1000"
  note skipped = rep_stos_zero_count_stores [OF rep_stosd_sample_ok, of ?s "0x1000" False]
  show ?thesis using skipped by (intro exI conjI) (auto simp: One_nat_def const_state_flag [unfolded One_nat_def])
qed

end
