(* ===== verification/Soundness.thy ===== *)
theory Soundness
  imports ArithCorrect
begin

unbundle bit_operations_syntax

declare One_nat_def [simp del]

text \<open>
  What symbolic values mean. A valuation gives every name a number; a value then denotes its offset from that
  number. The operations of the domain refine the machine operations: whatever the valuation, their result
  denotes the machine result, once the name that the operation may have made up is given a suitable number.
\<close>

section \<open>The meaning of values\<close>

type_synonym valuation = "u64 \<Rightarrow> u64"

definition symbol :: "valuation \<Rightarrow> psv \<Rightarrow> u64" where
  "symbol \<rho> v = (if vname v = 0 then 0 else if vnegate v then - \<rho> (vname v) else \<rho> (vname v))"

definition meaning :: "valuation \<Rightarrow> nat \<Rightarrow> psv \<Rightarrow> u64" where
  "meaning \<rho> n v = take_bit n (symbol \<rho> v + voffset v)"

text \<open>Values of \<open>n\<close> bits with names that have been made up already.\<close>

definition wf_value :: "u64 \<Rightarrow> nat \<Rightarrow> psv \<Rightarrow> bool" where
  "wf_value c n v \<longleftrightarrow> vname v \<le> c \<and> take_bit n (voffset v) = voffset v \<and> (vname v = 0 \<longrightarrow> \<not> vnegate v)"

definition agree_upto :: "u64 \<Rightarrow> valuation \<Rightarrow> valuation \<Rightarrow> bool" where
  "agree_upto c \<rho> \<rho>' \<longleftrightarrow> (\<forall>k \<le> c. \<rho>' k = \<rho> k)"

text \<open>The action \<open>m\<close> in state \<open>s\<close> computes a value of \<open>n\<close> bits that denotes \<open>w\<close>, makes up at most \<open>k\<close> names and changes
  nothing else.\<close>

definition denotes :: "valuation \<Rightarrow> ps_state \<Rightarrow> nat \<Rightarrow> nat \<Rightarrow> (ps_state, psv) sem \<Rightarrow> u64 \<Rightarrow> bool" where
  "denotes \<rho> s k n m w \<longleftrightarrow>
     (\<exists>v j \<rho>'. j \<le> k \<and> m s = (Inr v, s\<lparr>name_counter := name_counter s + of_nat j\<rparr>) \<and>
        wf_value (name_counter s + of_nat j) n v \<and> agree_upto (name_counter s) \<rho> \<rho>' \<and> meaning \<rho>' n v = take_bit n w)"

lemma agree_refl [simp]: "agree_upto c \<rho> \<rho>"
  by (simp add: agree_upto_def)

lemma meaning_agree: "wf_value c n v \<Longrightarrow> agree_upto c \<rho> \<rho>' \<Longrightarrow> meaning \<rho>' n v = meaning \<rho> n v"
  by (simp add: meaning_def symbol_def wf_value_def agree_upto_def)

lemma wf_const [simp]: "wf_value c n (ps_const n x)"
  by (simp add: wf_value_def)

lemma meaning_const [simp]: "meaning \<rho> n (ps_const n x) = take_bit n x"
  by (simp add: meaning_def symbol_def)

lemma meaning_known: "vname v = 0 \<Longrightarrow> wf_value c n v \<Longrightarrow> meaning \<rho> n v = voffset v"
  by (simp add: meaning_def symbol_def wf_value_def)

lemma meaning_eq: "ps_eq a b \<Longrightarrow> wf_value c n a \<Longrightarrow> wf_value c n b \<Longrightarrow> meaning \<rho> n a = meaning \<rho> n b"
  by (auto simp: meaning_def symbol_def wf_value_def ps_eq_def)

text \<open>A result that makes up no name, and one that is a new name.\<close>

lemma denotes_ret:
  assumes "wf_value (name_counter s) n v" "meaning \<rho> n v = take_bit n w"
  shows "denotes \<rho> s k n (retS v) w"
  unfolding denotes_def
  by (intro exI [of _ v] exI [of _ 0] exI [of _ \<rho>]) (use assms in \<open>simp add: retS_def\<close>)

definition room :: "ps_state \<Rightarrow> nat \<Rightarrow> bool" where
  "room s k \<longleftrightarrow> unat (name_counter s) + k < 2 ^ 64"

lemma room_next: "room s k \<Longrightarrow> j \<le> k \<Longrightarrow> unat (name_counter s + of_nat j) = unat (name_counter s) + j"
  by (simp add: room_def unat_word_ariths unat_of_nat)

lemma room_later: "room s (j + k) \<Longrightarrow> room (s\<lparr>name_counter := name_counter s + of_nat j\<rparr>) k"
  using room_next [of s "j + k" j] by (simp add: room_def)

lemma room_le: "room s k \<Longrightarrow> j \<le> k \<Longrightarrow> room s j"
  by (simp add: room_def)

lemma counter_mono: "room s k \<Longrightarrow> j \<le> k \<Longrightarrow> name_counter s \<le> name_counter s + of_nat j"
  by (simp add: word_le_nat_alt room_next)

lemma denotes_fresh:
  assumes "room s k" "0 < k"
  shows "denotes \<rho> s k n ps_fresh w"
proof -
  let ?c = "name_counter s"
  have "unat (?c + 1) = unat ?c + 1" using room_next [OF assms(1), of 1] assms(2) by simp
  then have c: "?c < ?c + 1" by (simp add: word_less_nat_alt)
  show ?thesis
    unfolding denotes_def
    using c assms(2)
    by (intro exI [of _ "ps_unknown (?c + 1)"] exI [of _ 1] exI [of _ "\<rho>(?c + 1 := w)"])
      (auto simp: fresh_run ps_unknown_def wf_value_def agree_upto_def meaning_def symbol_def)
qed

section \<open>Single operations\<close>

abbreviation (input) wf_in :: "ps_state \<Rightarrow> nat \<Rightarrow> psv \<Rightarrow> bool" where
  "wf_in s n v \<equiv> wf_value (name_counter s) n v"

lemma meaning_unfold: "meaning \<rho> n v = take_bit n (symbol \<rho> v + voffset v)"
  by (rule meaning_def)

lemma trunc_op:
  "take_bit n (take_bit n x + take_bit n y) = take_bit n (x + y :: u64)"
  "take_bit n (- take_bit n x) = take_bit n (- x :: u64)"
  "take_bit n (NOT (take_bit n x)) = take_bit n (NOT x :: u64)"
  by (simp_all only: trunc_simps)

lemma add_sound:
  assumes "wf_in s n a" "wf_in s n b" "room s k" "0 < k"
  shows "denotes \<rho> s k n (ps_add n a b) (meaning \<rho> n a + meaning \<rho> n b)"
proof -
  have target: "take_bit n (meaning \<rho> n a + meaning \<rho> n b) = take_bit n (symbol \<rho> a + symbol \<rho> b + (voffset a + voffset b))"
    by (simp only: meaning_def trunc_op) (simp only: ac_simps)
  consider (const) "vname a = vname b \<and> (vname a = 0 \<or> vnegate a \<noteq> vnegate b)"
    | (offset) "\<not> (vname a = vname b \<and> (vname a = 0 \<or> vnegate a \<noteq> vnegate b))" "vname a = 0 \<or> vname b = 0"
    | (unknown) "\<not> (vname a = vname b \<and> (vname a = 0 \<or> vnegate a \<noteq> vnegate b))" "vname a \<noteq> 0" "vname b \<noteq> 0" by blast
  then show ?thesis
  proof cases
    case const
    then have "symbol \<rho> a + symbol \<rho> b = 0" by (auto simp: symbol_def)
    then show ?thesis using const by (auto simp: ps_add_def target intro!: denotes_ret)
  next
    case offset
    let ?r = "ps_named n (vname a + vname b) (voffset a + voffset b) (vnegate a \<or> vnegate b)"
    have "symbol \<rho> ?r = symbol \<rho> a + symbol \<rho> b"
      using offset assms(1,2) by (auto simp: symbol_def ps_named_def wf_value_def)
    moreover have "voffset ?r = take_bit n (voffset a + voffset b)" by (simp add: ps_named_def and_genMask)
    ultimately have "meaning \<rho> n ?r = take_bit n (meaning \<rho> n a + meaning \<rho> n b)"
      unfolding target by (simp only: meaning_def trunc_simps)
    moreover have "wf_in s n ?r"
      using offset assms(1,2) by (auto simp: ps_named_def wf_value_def and_genMask)
    ultimately show ?thesis using offset by (auto simp: ps_add_def intro!: denotes_ret)
  next
    case unknown
    then show ?thesis using denotes_fresh [OF assms(3,4)] by (auto simp: ps_add_def)
  qed
qed

lemma invert_value_sound:
  assumes "wf_value c n a"
  shows "wf_value c n (ps_invert_value n a)" "meaning \<rho> n (ps_invert_value n a) = take_bit n (NOT (meaning \<rho> n a))"
proof -
  show "wf_value c n (ps_invert_value n a)"
    using assms by (auto simp: ps_invert_value_def wf_value_def ps_named_def and_genMask)
  have "symbol \<rho> (ps_invert_value n a) = - symbol \<rho> a" "voffset (ps_invert_value n a) = take_bit n (NOT (voffset a))"
    using assms by (auto simp: ps_invert_value_def symbol_def ps_named_def wf_value_def and_genMask)
  moreover have "- x + NOT y = NOT (x + y)" for x y :: u64 by (simp add: not_eq_complement)
  ultimately show "meaning \<rho> n (ps_invert_value n a) = take_bit n (NOT (meaning \<rho> n a))"
    by (simp only: meaning_def trunc_op) (simp only: trunc_simps)
qed

lemma negate_value_sound:
  assumes "wf_value c n a"
  shows "wf_value c n (ps_negate_value n a)" "meaning \<rho> n (ps_negate_value n a) = take_bit n (- meaning \<rho> n a)"
proof -
  show "wf_value c n (ps_negate_value n a)"
    using assms by (auto simp: ps_negate_value_def wf_value_def ps_named_def and_genMask)
  have "symbol \<rho> (ps_negate_value n a) = - symbol \<rho> a" "voffset (ps_negate_value n a) = take_bit n (- voffset a)"
    using assms by (auto simp: ps_negate_value_def symbol_def ps_named_def wf_value_def and_genMask)
  moreover have "- x + - y = - (x + y)" for x y :: u64 by simp
  ultimately show "meaning \<rho> n (ps_negate_value n a) = take_bit n (- meaning \<rho> n a)"
    by (simp only: meaning_def trunc_op) (simp only: trunc_simps)
qed

lemma invert_sound: "wf_in s n a \<Longrightarrow> denotes \<rho> s k n (ps_invert n a) (NOT (meaning \<rho> n a))"
  unfolding ps_invert_def by (rule denotes_ret) (simp_all add: invert_value_sound)

lemma negate_sound: "wf_in s n a \<Longrightarrow> denotes \<rho> s k n (ps_negate n a) (- meaning \<rho> n a)"
  unfolding ps_negate_def by (rule denotes_ret) (simp_all add: negate_value_sound)

lemma meaning_trunc [simp]: "take_bit n (meaning \<rho> n v) = meaning \<rho> n v"
  by (simp add: meaning_def)

lemma meaning_mask:
  "mask n OR meaning \<rho> n v = mask n" "meaning \<rho> n v OR mask n = mask n"
  "meaning \<rho> n v XOR mask n = take_bit n (NOT (meaning \<rho> n v))" "mask n XOR meaning \<rho> n v = take_bit n (NOT (meaning \<rho> n v))"
  by (rule bit_word_eqI, auto simp: meaning_def bit_simps)+

lemma wf_trunc: "wf_value c n v \<Longrightarrow> take_bit n (voffset v) = voffset v"
  by (simp add: wf_value_def)

lemma and_sound:
  assumes "wf_in s n a" "wf_in s n b" "room s k" "0 < k"
  shows "denotes \<rho> s k n (ps_and n a b) (meaning \<rho> n a AND meaning \<rho> n b)"
  using assms
  by (auto simp: ps_and_def meaning_known intro!: denotes_ret denotes_fresh)

lemma or_sound:
  assumes "wf_in s n a" "wf_in s n b" "room s k" "0 < k"
  shows "denotes \<rho> s k n (ps_or n a b) (meaning \<rho> n a OR meaning \<rho> n b)"
  using assms meaning_eq [of a b]
  by (auto simp: ps_or_def meaning_known genMask_eq_mask meaning_mask wf_trunc intro!: denotes_ret denotes_fresh)

lemma xor_sound:
  assumes "wf_in s n a" "wf_in s n b" "room s k" "0 < k"
  shows "denotes \<rho> s k n (ps_xor n a b) (meaning \<rho> n a XOR meaning \<rho> n b)"
  using assms meaning_eq [of a b]
  by (auto simp: ps_xor_def meaning_known genMask_eq_mask meaning_mask wf_trunc invert_value_sound intro!: denotes_ret denotes_fresh)

lemma equalToZero_sound:
  assumes "wf_in s n a" "room s k" "0 < k"
  shows "denotes \<rho> s k 1 (ps_equalToZero n a) (of_bool (meaning \<rho> n a = 0))"
  using assms by (auto simp: ps_equalToZero_def meaning_known intro!: denotes_ret denotes_fresh)

lemma ite_sound:
  assumes "wf_in s 1 c" "wf_in s n a" "wf_in s n b" "room s k" "0 < k"
  shows "denotes \<rho> s k n (ps_ite n c a b) (if meaning \<rho> 1 c \<noteq> 0 then meaning \<rho> n a else meaning \<rho> n b)"
  using assms meaning_eq [of a b]
  by (auto simp: ps_ite_def meaning_known intro!: denotes_ret denotes_fresh)

section \<open>Composition\<close>

lemma wf_value_mono: "wf_value c n v \<Longrightarrow> c \<le> c' \<Longrightarrow> wf_value c' n v"
  by (auto simp: wf_value_def)

lemma agree_trans: "agree_upto c \<rho> \<rho>' \<Longrightarrow> agree_upto c' \<rho>' \<rho>'' \<Longrightarrow> c \<le> c' \<Longrightarrow> agree_upto c \<rho> \<rho>''"
  by (auto simp: agree_upto_def)

lemma denotes_bind:
  assumes "denotes \<rho> s k m ma x" "room s (k + l)"
    and "\<And>v j \<rho>'. j \<le> k \<Longrightarrow> wf_value (name_counter s + of_nat j) m v \<Longrightarrow> agree_upto (name_counter s) \<rho> \<rho>' \<Longrightarrow>
      meaning \<rho>' m v = take_bit m x \<Longrightarrow>
      denotes \<rho>' (s\<lparr>name_counter := name_counter s + of_nat j\<rparr>) l n (f v) y"
  shows "denotes \<rho> s (k + l) n (bindS ma f) y"
proof -
  from assms(1) obtain v j \<rho>1 where 1: "j \<le> k" "ma s = (Inr v, s\<lparr>name_counter := name_counter s + of_nat j\<rparr>)"
    "wf_value (name_counter s + of_nat j) m v" "agree_upto (name_counter s) \<rho> \<rho>1" "meaning \<rho>1 m v = take_bit m x"
    unfolding denotes_def by blast
  let ?s = "s\<lparr>name_counter := name_counter s + of_nat j\<rparr>"
  from assms(3) [OF 1(1,3,4,5)] obtain w i \<rho>2 where 2: "i \<le> l"
    "f v ?s = (Inr w, ?s\<lparr>name_counter := name_counter ?s + of_nat i\<rparr>)" "wf_value (name_counter ?s + of_nat i) n w"
    "agree_upto (name_counter ?s) \<rho>1 \<rho>2" "meaning \<rho>2 n w = take_bit n y"
    unfolding denotes_def by blast
  have "agree_upto (name_counter s) \<rho> \<rho>2"
    using agree_trans [OF 1(4) 2(4)] counter_mono [OF assms(2), of j] 1(1) by simp
  then show ?thesis
    unfolding denotes_def using 1(1,2) 2
    by (intro exI [of _ w] exI [of _ "j + i"] exI [of _ \<rho>2]) (simp add: bind_run ac_simps)
qed

text \<open>Expressions over values of one width; the last constructor is \<open>ite(equalToZero(c), a, b)\<close>.\<close>

datatype 'v bv = BvValue 'v | BvAdd "'v bv" "'v bv" | BvAnd "'v bv" "'v bv" | BvOr "'v bv" "'v bv" | BvXor "'v bv" "'v bv"
  | BvInvert "'v bv" | BvNegate "'v bv" | BvIfZero "'v bv" "'v bv" "'v bv"

fun bv_sem :: "('s, 'v) x86sem \<Rightarrow> nat \<Rightarrow> 'v bv \<Rightarrow> ('s, 'v) sem" where
  "bv_sem X n (BvValue v) = retS v"
| "bv_sem X n (BvAdd a b) = addV X n (bv_sem X n a) (bv_sem X n b)"
| "bv_sem X n (BvAnd a b) = andV X n (bv_sem X n a) (bv_sem X n b)"
| "bv_sem X n (BvOr a b) = orV X n (bv_sem X n a) (bv_sem X n b)"
| "bv_sem X n (BvXor a b) = xorV X n (bv_sem X n a) (bv_sem X n b)"
| "bv_sem X n (BvInvert a) = invertV X n (bv_sem X n a)"
| "bv_sem X n (BvNegate a) = negateV X n (bv_sem X n a)"
| "bv_sem X n (BvIfZero c a b) = iteV X n (equalToZero X n (bv_sem X n c)) (bv_sem X n a) (bv_sem X n b)"

text \<open>The machine operations.\<close>

fun bv_eval :: "nat \<Rightarrow> u64 bv \<Rightarrow> u64" where
  "bv_eval n (BvValue x) = take_bit n x"
| "bv_eval n (BvAdd a b) = take_bit n (bv_eval n a + bv_eval n b)"
| "bv_eval n (BvAnd a b) = bv_eval n a AND bv_eval n b"
| "bv_eval n (BvOr a b) = bv_eval n a OR bv_eval n b"
| "bv_eval n (BvXor a b) = bv_eval n a XOR bv_eval n b"
| "bv_eval n (BvInvert a) = take_bit n (NOT (bv_eval n a))"
| "bv_eval n (BvNegate a) = take_bit n (- bv_eval n a)"
| "bv_eval n (BvIfZero c a b) = (if bv_eval n c = 0 then bv_eval n a else bv_eval n b)"

text \<open>A bound on the number of names made up.\<close>

fun bv_names :: "'v bv \<Rightarrow> nat" where
  "bv_names (BvValue v) = 0"
| "bv_names (BvAdd a b) = bv_names a + (bv_names b + 1)"
| "bv_names (BvAnd a b) = bv_names a + (bv_names b + 1)"
| "bv_names (BvOr a b) = bv_names a + (bv_names b + 1)"
| "bv_names (BvXor a b) = bv_names a + (bv_names b + 1)"
| "bv_names (BvInvert a) = bv_names a + 1"
| "bv_names (BvNegate a) = bv_names a + 1"
| "bv_names (BvIfZero c a b) = bv_names c + 1 + (bv_names a + (bv_names b + 1))"

abbreviation (input) bv_value :: "valuation \<Rightarrow> nat \<Rightarrow> psv bv \<Rightarrow> u64" where
  "bv_value \<rho> n e \<equiv> bv_eval n (map_bv (meaning \<rho> n) e)"

lemma bv_value_trunc [simp]: "take_bit n (bv_value \<rho> n e) = bv_value \<rho> n e"
  by (induction e) (simp_all add: take_bit_and take_bit_or take_bit_xor)

lemma bv_value_agree:
  "\<forall>v \<in> set_bv e. wf_value c n v \<Longrightarrow> agree_upto c \<rho> \<rho>' \<Longrightarrow> bv_value \<rho>' n e = bv_value \<rho> n e"
  by (induction e) (auto simp: meaning_agree)

lemma binary_sound:
  assumes "denotes \<rho> s k n ma x" "room s (k + (l + 1))"
    and "\<And>j \<rho>'. j \<le> k \<Longrightarrow> agree_upto (name_counter s) \<rho> \<rho>' \<Longrightarrow>
      denotes \<rho>' (s\<lparr>name_counter := name_counter s + of_nat j\<rparr>) l n mb y"
    and "\<And>\<rho>' s' v w. name_counter s \<le> name_counter s' \<Longrightarrow> agree_upto (name_counter s) \<rho> \<rho>' \<Longrightarrow> wf_in s' n v \<Longrightarrow> wf_in s' n w \<Longrightarrow> room s' 1 \<Longrightarrow>
      denotes \<rho>' s' 1 n (f v w) (F (meaning \<rho>' n v) (meaning \<rho>' n w))"
  shows "denotes \<rho> s (k + (l + 1)) n (lift2 f ma mb) (F (take_bit n x) (take_bit n y))"
  unfolding lift2_def
proof (rule denotes_bind [OF assms(1,2)], goal_cases)
  case (1 v j \<rho>1)
  let ?s = "s\<lparr>name_counter := name_counter s + of_nat j\<rparr>"
  have room: "room ?s (l + 1)" using room_later [of s j "l + 1"] room_le [OF assms(2), of "j + (l + 1)"] 1(1) by simp
  show ?case
  proof (rule denotes_bind [OF assms(3) [OF 1(1,3)] room], goal_cases)
    case (1 w i \<rho>2)
    let ?t = "?s\<lparr>name_counter := name_counter ?s + of_nat i\<rparr>"
    have v: "wf_in ?s n v" using \<open>wf_value (name_counter s + of_nat j) n v\<close> by simp
    then have "wf_in ?t n v" using counter_mono [OF room, of i] 1(1) by (auto intro: wf_value_mono)
    moreover have "room ?t 1" using room_later [of ?s i 1] room_le [OF room, of "i + 1"] 1(1) by simp
    moreover have "meaning \<rho>2 n v = take_bit n x"
      using meaning_agree [OF v 1(3)] \<open>meaning \<rho>1 n v = take_bit n x\<close> by simp
    moreover have "name_counter s \<le> name_counter ?s" "name_counter ?s \<le> name_counter ?t"
      using counter_mono [OF assms(2), of j] counter_mono [OF room, of i] \<open>j \<le> k\<close> 1(1) by simp_all
    moreover from this have "agree_upto (name_counter s) \<rho> \<rho>2"
      using agree_trans [OF \<open>agree_upto (name_counter s) \<rho> \<rho>1\<close> 1(3)] by blast
    ultimately show ?case using assms(4) [of ?t \<rho>2 v w] 1(2,4) by (simp add: order_trans)
  qed
qed

lemma unary_sound:
  assumes "denotes \<rho> s k n ma x" "room s (k + l)"
    and "\<And>\<rho>' s' v. wf_in s' n v \<Longrightarrow> room s' l \<Longrightarrow> denotes \<rho>' s' l m (f v) (F (meaning \<rho>' n v))"
  shows "denotes \<rho> s (k + l) m (lift1 f ma) (F (take_bit n x))"
  unfolding lift1_def
proof (rule denotes_bind [OF assms(1,2)], goal_cases)
  case (1 v j \<rho>1)
  let ?s = "s\<lparr>name_counter := name_counter s + of_nat j\<rparr>"
  have "room ?s l" using room_later [of s j l] room_le [OF assms(2), of "j + l"] 1(1) by simp
  then show ?case using assms(3) [of ?s v \<rho>1] 1 by simp
qed

lemma lift3_lift2: "lift3 h c a b = bindS c (\<lambda>x. lift2 (h x) a b)"
  by (simp add: lift3_def lift2_def)

lemma denotes_cong: "take_bit n w = take_bit n w' \<Longrightarrow> denotes \<rho> s k n m w \<longleftrightarrow> denotes \<rho> s k n m w'"
  by (simp add: denotes_def)

text \<open>The claim for one expression, in every state and under every valuation.\<close>

definition bv_claim :: "nat \<Rightarrow> psv bv \<Rightarrow> bool" where
  "bv_claim n e \<longleftrightarrow> (\<forall>s \<rho>. (\<forall>v \<in> set_bv e. wf_in s n v) \<longrightarrow> room s (bv_names e) \<longrightarrow>
     denotes \<rho> s (bv_names e) n (bv_sem ps_x86 n e) (bv_value \<rho> n e))"

lemma bv_claimD:
  "bv_claim n e \<Longrightarrow> \<forall>v \<in> set_bv e. wf_in s n v \<Longrightarrow> room s (bv_names e) \<Longrightarrow>
     denotes \<rho> s (bv_names e) n (bv_sem ps_x86 n e) (bv_value \<rho> n e)"
  by (simp add: bv_claim_def)

lemma bv_later:
  assumes "bv_claim n b" "\<forall>v \<in> set_bv b. wf_in s n v" "room s (k + bv_names b)" "j \<le> k" "agree_upto (name_counter s) \<rho> \<rho>'"
  shows "denotes \<rho>' (s\<lparr>name_counter := name_counter s + of_nat j\<rparr>) (bv_names b) n (bv_sem ps_x86 n b) (bv_value \<rho> n b)"
proof -
  let ?s = "s\<lparr>name_counter := name_counter s + of_nat j\<rparr>"
  have "name_counter s \<le> name_counter ?s" using counter_mono [OF assms(3), of j] assms(4) by simp
  then have "\<forall>v \<in> set_bv b. wf_in ?s n v" using assms(2) by (auto intro: wf_value_mono)
  moreover have "room ?s (bv_names b)"
    using room_later [of s j "bv_names b"] room_le [OF assms(3), of "j + bv_names b"] assms(4) by simp
  ultimately show ?thesis
    using bv_claimD [OF assms(1), of ?s \<rho>'] bv_value_agree [OF assms(2,5)] by simp
qed

lemma bv_binary:
  assumes "bv_claim n a" "bv_claim n b" "\<forall>v \<in> set_bv a \<union> set_bv b. wf_in s n v" "room s (bv_names a + (bv_names b + 1))"
    and "\<And>\<rho>' s' v w. name_counter s \<le> name_counter s' \<Longrightarrow> agree_upto (name_counter s) \<rho> \<rho>' \<Longrightarrow> wf_in s' n v \<Longrightarrow> wf_in s' n w \<Longrightarrow>
      room s' 1 \<Longrightarrow> denotes \<rho>' s' 1 n (f v w) (F (meaning \<rho>' n v) (meaning \<rho>' n w))"
  shows "denotes \<rho> s (bv_names a + (bv_names b + 1)) n (lift2 f (bv_sem ps_x86 n a) (bv_sem ps_x86 n b))
    (F (bv_value \<rho> n a) (bv_value \<rho> n b))"
proof -
  have "denotes \<rho> s (bv_names a) n (bv_sem ps_x86 n a) (bv_value \<rho> n a)"
    using assms(3) room_le [OF assms(4)] by (intro bv_claimD [OF assms(1)]) simp_all
  moreover have "denotes \<rho>' (s\<lparr>name_counter := name_counter s + of_nat j\<rparr>) (bv_names b) n (bv_sem ps_x86 n b) (bv_value \<rho> n b)"
    if "j \<le> bv_names a" "agree_upto (name_counter s) \<rho> \<rho>'" for j \<rho>'
    using assms(3) room_le [OF assms(4)] that by (intro bv_later [OF assms(2), where k = "bv_names a"]) simp_all
  ultimately have "denotes \<rho> s (bv_names a + (bv_names b + 1)) n (lift2 f (bv_sem ps_x86 n a) (bv_sem ps_x86 n b))
      (F (take_bit n (bv_value \<rho> n a)) (take_bit n (bv_value \<rho> n b)))"
    using assms(4,5) by (intro binary_sound)
  then show ?thesis by simp
qed

lemma bv_ite:
  assumes "bv_claim n c" "bv_claim n a" "bv_claim n b"
  shows "bv_claim n (BvIfZero c a b)"
  unfolding bv_claim_def
proof (intro allI impI)
  fix s \<rho>
  assume wf: "\<forall>v \<in> set_bv (BvIfZero c a b). wf_in s n v" and room: "room s (bv_names (BvIfZero c a b))"
  let ?z = "of_bool (bv_value \<rho> n c = 0) :: u64" and ?l = "bv_names a + (bv_names b + 1)"
  have "denotes \<rho> s (bv_names c) n (bv_sem ps_x86 n c) (bv_value \<rho> n c)"
    using wf room_le [OF room] by (intro bv_claimD [OF assms(1)]) simp_all
  from unary_sound [OF this, of 1 1 "ps_equalToZero n" "\<lambda>x. of_bool (x = 0)"]
  have zero: "denotes \<rho> s (bv_names c + 1) 1 (lift1 (ps_equalToZero n) (bv_sem ps_x86 n c)) ?z"
    using equalToZero_sound room_le [OF room, of "bv_names c + 1"] by simp
  have "denotes \<rho> s (bv_names c + 1 + ?l) n
      (bindS (lift1 (ps_equalToZero n) (bv_sem ps_x86 n c)) (\<lambda>x. lift2 (ps_ite n x) (bv_sem ps_x86 n a) (bv_sem ps_x86 n b)))
      (if ?z \<noteq> 0 then bv_value \<rho> n a else bv_value \<rho> n b)"
  proof (rule denotes_bind [OF zero], goal_cases)
    case 1
    then show ?case using room by simp
  next
    case (2 x j \<rho>1)
    let ?s = "s\<lparr>name_counter := name_counter s + of_nat j\<rparr>"
    have le: "name_counter s \<le> name_counter ?s" using counter_mono [OF room, of j] 2(1) by simp
    have ite: "denotes \<rho>2 s2 1 n (ps_ite n x v w) (if ?z \<noteq> 0 then meaning \<rho>2 n v else meaning \<rho>2 n w)"
      if "name_counter ?s \<le> name_counter s2" "agree_upto (name_counter ?s) \<rho>1 \<rho>2" "wf_in s2 n v" "wf_in s2 n w" "room s2 1"
      for \<rho>2 s2 v w
    proof -
      have "wf_in s2 1 x" using 2(2) that(1) by (auto intro: wf_value_mono)
      moreover have "meaning \<rho>2 1 x = ?z" using meaning_agree [of "name_counter ?s" 1 x \<rho>1 \<rho>2] 2 that(2) by simp
      ultimately show ?thesis using ite_sound [of s2 x n v w 1 \<rho>2] that by simp
    qed
    have "\<forall>v \<in> set_bv a \<union> set_bv b. wf_in ?s n v" using wf le by (auto intro: wf_value_mono)
    moreover have "room ?s ?l"
      using room_later [of s j ?l] room_le [OF room, of "j + ?l"] 2(1) by simp
    ultimately have "denotes \<rho>1 ?s ?l n (lift2 (ps_ite n x) (bv_sem ps_x86 n a) (bv_sem ps_x86 n b))
        (if ?z \<noteq> 0 then bv_value \<rho>1 n a else bv_value \<rho>1 n b)"
      using ite by (intro bv_binary [OF assms(2,3)])
    moreover have "bv_value \<rho>1 n a = bv_value \<rho> n a" "bv_value \<rho>1 n b = bv_value \<rho> n b"
      using wf 2(3) by (auto intro!: bv_value_agree [of _ "name_counter s"])
    ultimately show ?case by (simp only:)
  qed
  then show "denotes \<rho> s (bv_names (BvIfZero c a b)) n (bv_sem ps_x86 n (BvIfZero c a b)) (bv_value \<rho> n (BvIfZero c a b))"
    by (simp add: lift3_lift2)
qed

lemma bv_sound: "bv_claim n e"
proof (induction e)
  case (BvIfZero c a b)
  then show ?case by (rule bv_ite)
next
  case (BvValue v)
  then show ?case by (auto simp: bv_claim_def intro: denotes_ret)
next
  case (BvInvert a)
  have "denotes \<rho> s (bv_names a + 1) n (lift1 (ps_invert n) (bv_sem ps_x86 n a)) (NOT (take_bit n (bv_value \<rho> n a)))"
    if "\<forall>v \<in> set_bv a. wf_in s n v" "room s (bv_names a + 1)" for s \<rho>
    using that room_le [OF that(2)] by (intro unary_sound invert_sound bv_claimD [OF BvInvert.IH]) simp_all
  then show ?case by (simp add: bv_claim_def denotes_cong [of n "take_bit n _" "NOT _"])
next
  case (BvNegate a)
  have "denotes \<rho> s (bv_names a + 1) n (lift1 (ps_negate n) (bv_sem ps_x86 n a)) (- take_bit n (bv_value \<rho> n a))"
    if "\<forall>v \<in> set_bv a. wf_in s n v" "room s (bv_names a + 1)" for s \<rho>
    using that room_le [OF that(2)] by (intro unary_sound negate_sound bv_claimD [OF BvNegate.IH]) simp_all
  then show ?case by (simp add: bv_claim_def denotes_cong [of n "take_bit n _" "- _"])
next
  case (BvAdd a b)
  then show ?case
    unfolding bv_claim_def [of n "BvAdd a b"]
    by (auto simp: denotes_cong [of n "take_bit n _" "_ + _"] intro!: bv_binary add_sound)
next
  case (BvAnd a b)
  then show ?case unfolding bv_claim_def [of n "BvAnd a b"] by (auto intro!: bv_binary and_sound)
next
  case (BvOr a b)
  then show ?case unfolding bv_claim_def [of n "BvOr a b"] by (auto intro!: bv_binary or_sound)
next
  case (BvXor a b)
  then show ?case unfolding bv_claim_def [of n "BvXor a b"] by (auto intro!: bv_binary xor_sound)
qed

text \<open>Property C6. Symbolic evaluation refines machine arithmetic. For every expression of additions, bitwise
  operations, negations and selections over \<open>n\<close>-bit values that may be constants or (negated) offsets from unknowns:
  the policy's evaluation succeeds and changes nothing but the name counter, and for any numbers \<open>\<rho>\<close> that the
  unknowns stand for there are numbers for the newly made names under which the result denotes what the
  machine computes.\<close>

theorem symbolic_evaluation_sound:
  assumes "\<forall>v \<in> set_bv e. wf_value (name_counter s) n v" "unat (name_counter s) + bv_names e < 2 ^ 64"
  shows "\<exists>v c \<rho>'. bv_sem ps_x86 n e s = (Inr v, s\<lparr>name_counter := c\<rparr>) \<and> wf_value c n v \<and>
    (\<forall>k \<le> name_counter s. \<rho>' k = \<rho> k) \<and> meaning \<rho>' n v = bv_eval n (map_bv (meaning \<rho> n) e)"
proof -
  have "denotes \<rho> s (bv_names e) n (bv_sem ps_x86 n e) (bv_value \<rho> n e)"
    using bv_sound assms unfolding bv_claim_def room_def by blast
  then show ?thesis unfolding denotes_def agree_upto_def by auto
qed

definition symbolic_sample :: ps_state where
  "symbolic_sample = (const_state [0, 0, 0, 0, 0, 0, 0, 0] False 0)\<lparr>name_counter := 1\<rparr>"

text \<open>\<open>(x + 5) + - (x + 3)\<close> at \<open>x = 200\<close>.\<close>

theorem symbolic_evaluation_sound_witness:
  "\<exists>v c \<rho>'. bv_sem ps_x86 8 (BvAdd (BvValue (ps_named 8 1 5 False)) (BvNegate (BvValue (ps_named 8 1 3 False)))) symbolic_sample =
      (Inr v, symbolic_sample\<lparr>name_counter := c\<rparr>) \<and> \<rho>' 1 = 200 \<and> meaning \<rho>' 8 v = 2"
proof -
  let ?e = "BvAdd (BvValue (ps_named 8 1 5 False)) (BvNegate (BvValue (ps_named 8 1 3 False)))"
  have s: "name_counter symbolic_sample = 1" by (simp add: symbolic_sample_def)
  have wf: "\<forall>v \<in> set_bv ?e. wf_value (name_counter symbolic_sample) 8 v"
    by (simp add: s wf_value_def ps_named_def and_genMask)
  have m: "meaning (\<lambda>_. 200) 8 (ps_named 8 1 5 False) = 205" "meaning (\<lambda>_. 200) 8 (ps_named 8 1 3 False) = 203"
    by (simp_all add: meaning_def symbol_def ps_named_def and_genMask One_nat_def)
  have "bv_eval 8 (map_bv (meaning (\<lambda>_. 200) 8) ?e) = 2" by (simp add: m) code_simp
  with symbolic_evaluation_sound [OF wf, of "\<lambda>_. 200"] show ?thesis by (simp add: s) blast
qed

text \<open>Property C35. Two operations are not sound on unknowns. Extending an unknown byte to 32 bits keeps its name, which
  then denotes more than the byte; and adding \<open>x + 1\<close>, the complement of \<open>x\<close> and 1 (what \<open>cmp\<close> does to compare \<open>x + 1\<close>
  with \<open>x\<close>) gives known carries that are wrong when \<open>x + 1\<close> wraps around.\<close>

theorem unsound_on_unknowns:
  "(\<exists>\<rho> v. ps_unsignedExtend 8 32 (ps_unknown 1) symbolic_sample = (Inr v, symbolic_sample) \<and>
      meaning \<rho> 32 v \<noteq> meaning \<rho> 8 (ps_unknown 1)) \<and>
   (\<exists>\<rho> r carries. ps_addWithCarries 8 (ps_named 8 1 1 False) (ps_invert_value 8 (ps_unknown 1)) (ps_const 1 1) symbolic_sample =
        (Inr (r, carries), symbolic_sample) \<and>
      meaning \<rho> 8 carries \<noteq>
        carries_of 8 (meaning \<rho> 8 (ps_named 8 1 1 False)) (meaning \<rho> 8 (ps_invert_value 8 (ps_unknown 1))) 1)"
    (is "(\<exists>\<rho> v. ?extend \<rho> v) \<and> (\<exists>\<rho> r carries. ?carries \<rho> r carries)")
proof (intro conjI)
  have "?extend (\<lambda>_. 256) (ps_unknown 1)"
    by (simp add: ps_unsignedExtend_def retS_def ps_convert_def ps_unknown_def meaning_def symbol_def One_nat_def)
  then show "\<exists>\<rho> v. ?extend \<rho> v" by blast
  have inv: "ps_invert_value 8 (ps_unknown 1) = ps_named 8 1 (- 1) True" by (simp add: ps_invert_value_def ps_unknown_def)
  have m: "meaning (\<lambda>_. 255) 8 (ps_named 8 1 1 False) = 0" "meaning (\<lambda>_. 255) 8 (ps_named 8 1 (- 1) True) = 0"
    by (simp_all add: meaning_def symbol_def ps_named_def and_genMask One_nat_def) code_simp
  have "ps_addWithCarries 8 (ps_named 8 1 1 False) (ps_named 8 1 (- 1) True) (ps_const 1 1) symbolic_sample =
      (Inr (ps_const 8 1, ps_const 8 255), symbolic_sample)"
    by (simp add: ps_addWithCarries_def n_unknown_def Let_def ps_named_def and_genMask retS_def One_nat_def) code_simp
  moreover have "carries_of 8 0 0 1 = 0" by code_simp
  ultimately have "?carries (\<lambda>_. 255) (ps_const 8 1) (ps_const 8 255)" by (simp add: inv m One_nat_def)
  then show "\<exists>\<rho> r carries. ?carries \<rho> r carries" by blast
qed

end
