(* ===== verification/Buffers.thy ===== *)
theory Buffers
  imports Prelude
begin

declare One_nat_def [simp del]

text \<open>
  The buffers of \<^verbatim>\<open>src/frontend/BinaryFormats/MemoryMap.h\<close> and \<^verbatim>\<open>MemoryMap.C\<close>. A buffer object is an entry of a
  table and a \<open>BufferPtr\<close> its index; the bytes that buffers point to live in one flat memory, so that
  buffers which share data, as two \<open>ExternBuffer\<close>s may, are expressible. \<open>new uint8_t[n]\<close> takes addresses from
  \<open>bh_brk\<close> on that were never used before; \<open>None\<close> is the null pointer. The destination of a read is
  the list of the bytes that it stores, and the source of a write a list of bytes or, for a null pointer, \<open>None\<close>.
\<close>

section \<open>Buffer objects and their storage\<close>

datatype buffer_class = NullBuffer | ExternBuffer | ByteBuffer | MmapBuffer | AnonymousBuffer

record buffer =
  bf_class :: buffer_class
  bf_read_only :: bool
  bf_name :: string
  p_size :: u64
  p_data :: "nat option"

record bheap =
  bh_mem :: "nat \<Rightarrow> u8"
  bh_brk :: nat
  bh_buffers :: "buffer list"
  bh_ncalls :: u64

definition buf :: "bheap \<Rightarrow> nat \<Rightarrow> buffer" where
  "buf h b = bh_buffers h ! b"

definition bytes_at :: "bheap \<Rightarrow> nat \<Rightarrow> u64 \<Rightarrow> u64 \<Rightarrow> u8 list" where
  "bytes_at h p off n = map (\<lambda>i. bh_mem h (p + unat off + i)) [0 ..< unat n]"

definition store_bytes :: "bheap \<Rightarrow> nat \<Rightarrow> u64 \<Rightarrow> u8 list \<Rightarrow> bheap" where
  "store_bytes h p off bs =
     h\<lparr>bh_mem := (\<lambda>a. if p + unat off \<le> a \<and> a < p + unat off + length bs
                      then bs ! (a - (p + unat off)) else bh_mem h a)\<rparr>"

definition new_bytes :: "bheap \<Rightarrow> u64 \<Rightarrow> nat \<times> bheap" where
  "new_bytes h n = (bh_brk h, h\<lparr>bh_brk := bh_brk h + max 1 (unat n)\<rparr>)"

section \<open>Construction\<close>

definition new_name :: "bheap \<Rightarrow> string \<times> bheap" where
  "new_name h =
     ([char_of (97 + unat (bh_ncalls h div (26 * 26) mod 26)), char_of (97 + unat (bh_ncalls h div 26 mod 26)),
       char_of (97 + unat (bh_ncalls h mod 26))], h\<lparr>bh_ncalls := bh_ncalls h + 1\<rparr>)"

text \<open>The constructor of \<open>Buffer\<close> and of \<open>ExternBuffer\<close>.\<close>

definition new_buffer :: "bheap \<Rightarrow> buffer_class \<Rightarrow> u64 \<Rightarrow> nat option \<Rightarrow> nat \<times> bheap" where
  "new_buffer h c sz data =
     (let (nm, h) = new_name h
      in (length (bh_buffers h),
          h\<lparr>bh_buffers := bh_buffers h @ [\<lparr>bf_class = c, bf_read_only = False, bf_name = nm, p_size = sz, p_data = data\<rparr>]\<rparr>))"

definition update_buf :: "bheap \<Rightarrow> nat \<Rightarrow> (buffer \<Rightarrow> buffer) \<Rightarrow> bheap" where
  "update_buf h b f = h\<lparr>bh_buffers := (bh_buffers h)[b := f (buf h b)]\<rparr>"

definition set_read_only :: "bheap \<Rightarrow> nat \<Rightarrow> bool \<Rightarrow> bheap" where
  "set_read_only h b r = update_buf h b (\<lambda>x. x\<lparr>bf_read_only := r\<rparr>)"

definition null_create :: "bheap \<Rightarrow> u64 \<Rightarrow> nat \<times> bheap" where
  "null_create h sz = new_buffer h NullBuffer sz None"

definition extern_create :: "bheap \<Rightarrow> nat option \<Rightarrow> u64 \<Rightarrow> nat \<times> bheap" where
  "extern_create h data sz = new_buffer h ExternBuffer sz data"

definition extern_create_const :: "bheap \<Rightarrow> nat option \<Rightarrow> u64 \<Rightarrow> nat \<times> bheap" where
  "extern_create_const h data sz =
     (let (b, h) = new_buffer h ExternBuffer sz data in (b, set_read_only h b True))"

definition byte_create :: "bheap \<Rightarrow> nat option \<Rightarrow> u64 \<Rightarrow> nat \<times> bheap" where
  "byte_create h data sz = new_buffer h ByteBuffer sz data"

definition anon_create :: "bheap \<Rightarrow> u64 \<Rightarrow> nat \<times> bheap" where
  "anon_create h sz =
     (let (b, h) = new_buffer h AnonymousBuffer sz None
      in (b, update_buf h b (\<lambda>x. x\<lparr>bf_name := ''anon '' @ bf_name x\<rparr>)))"

section \<open>Reading\<close>

definition extern_read :: "bheap \<Rightarrow> nat \<Rightarrow> u64 \<Rightarrow> u64 \<Rightarrow> u8 list" where
  "extern_read h b off nbytes =
     (case p_data (buf h b) of
        None \<Rightarrow> []
      | Some p \<Rightarrow> if off \<ge> p_size (buf h b) then []
                   else bytes_at h p off (min nbytes (p_size (buf h b) - off)))"

definition anon_read :: "bheap \<Rightarrow> nat \<Rightarrow> u64 \<Rightarrow> u64 \<Rightarrow> u8 list" where
  "anon_read h b off nbytes =
     (if off \<ge> p_size (buf h b) then []
      else let n = min nbytes (p_size (buf h b) - off)
           in case p_data (buf h b) of
                Some p \<Rightarrow> bytes_at h p off n
              | None \<Rightarrow> replicate (unat n) 0)"

text \<open>The virtual method \<open>read\<close>; the number it returns is the length of the list.\<close>

definition buffer_read :: "bheap \<Rightarrow> nat \<Rightarrow> u64 \<Rightarrow> u64 \<Rightarrow> u8 list" where
  "buffer_read h b off nbytes =
     (case bf_class (buf h b) of
        NullBuffer \<Rightarrow> []
      | AnonymousBuffer \<Rightarrow> anon_read h b off nbytes
      | _ \<Rightarrow> extern_read h b off nbytes)"

section \<open>Writing\<close>

definition extern_write :: "bheap \<Rightarrow> nat \<Rightarrow> u8 list option \<Rightarrow> u64 \<Rightarrow> u64 \<Rightarrow> u64 \<times> bheap" where
  "extern_write h b src off nbytes =
     (case p_data (buf h b) of
        None \<Rightarrow> (0, h)
      | Some p \<Rightarrow> if bf_read_only (buf h b) \<or> off \<ge> p_size (buf h b) then (0, h)
                   else let n = min nbytes (p_size (buf h b) - off)
                        in (n, case src of None \<Rightarrow> h | Some bs \<Rightarrow> store_bytes h p off (take (unat n) bs)))"

text \<open>The storage of an anonymous buffer is allocated when it is first needed.\<close>

definition anon_storage :: "bheap \<Rightarrow> nat \<Rightarrow> bheap" where
  "anon_storage h b =
     (let (p, h) = new_bytes h (p_size (buf h b)); h = update_buf h b (\<lambda>x. x\<lparr>p_data := Some p\<rparr>)
      in store_bytes h p 0 (replicate (unat (p_size (buf h b))) 0))"

definition anon_write :: "bheap \<Rightarrow> nat \<Rightarrow> u8 list option \<Rightarrow> u64 \<Rightarrow> u64 \<Rightarrow> u64 \<times> bheap" where
  "anon_write h b src off nbytes =
     (if off \<ge> p_size (buf h b) then (0, h)
      else let n = min nbytes (p_size (buf h b) - off)
           in case src of
                None \<Rightarrow> (n, h)
              | Some bs \<Rightarrow>
                  if p_data (buf h b) = None \<and> list_all (\<lambda>x. x = 0) (take (unat n) bs) then (n, h)
                  else let h = (if p_data (buf h b) = None then anon_storage h b else h)
                       in (n, case p_data (buf h b) of
                                None \<Rightarrow> h
                              | Some p \<Rightarrow> store_bytes h p off (take (unat n) bs)))"

definition buffer_write :: "bheap \<Rightarrow> nat \<Rightarrow> u8 list option \<Rightarrow> u64 \<Rightarrow> u64 \<Rightarrow> u64 \<times> bheap" where
  "buffer_write h b src off nbytes =
     (case bf_class (buf h b) of
        NullBuffer \<Rightarrow> (0, h)
      | AnonymousBuffer \<Rightarrow> anon_write h b src off nbytes
      | _ \<Rightarrow> extern_write h b src off nbytes)"

section \<open>Copies, data pointers, tests\<close>

definition extern_clone :: "bheap \<Rightarrow> nat \<Rightarrow> nat \<times> bheap" where
  "extern_clone h b =
     (case p_data (buf h b) of
        None \<Rightarrow> byte_create h None (p_size (buf h b))
      | Some p \<Rightarrow> let (d, h) = new_bytes h (p_size (buf h b));
                      h = store_bytes h d 0 (bytes_at h p 0 (p_size (buf h b)))
                  in byte_create h (Some d) (p_size (buf h b)))"

definition anon_clone :: "bheap \<Rightarrow> nat \<Rightarrow> nat \<times> bheap" where
  "anon_clone h b = (if p_data (buf h b) \<noteq> None then extern_clone h b else anon_create h (p_size (buf h b)))"

definition buffer_clone :: "bheap \<Rightarrow> nat \<Rightarrow> nat \<times> bheap" where
  "buffer_clone h b =
     (case bf_class (buf h b) of
        NullBuffer \<Rightarrow> null_create h (p_size (buf h b))
      | AnonymousBuffer \<Rightarrow> anon_clone h b
      | _ \<Rightarrow> extern_clone h b)"

definition get_data_ptr :: "bheap \<Rightarrow> nat \<Rightarrow> nat option \<times> bheap" where
  "get_data_ptr h b =
     (case bf_class (buf h b) of
        NullBuffer \<Rightarrow> (None, h)
      | AnonymousBuffer \<Rightarrow>
          let h = (if p_data (buf h b) = None then anon_storage h b else h)
          in (p_data (buf h b), h)
      | _ \<Rightarrow> (p_data (buf h b), h))"

text \<open>\<open>Buffer::resize\<close>; the overriding methods of the other classes abort. \<open>AnonymousBuffer\<close> inherits that of
  \<open>ExternBuffer\<close>.\<close>

definition buffer_resize :: "bheap \<Rightarrow> nat \<Rightarrow> u64 \<Rightarrow> bheap option" where
  "buffer_resize h b n =
     (case bf_class (buf h b) of
        NullBuffer \<Rightarrow> Some (update_buf h b (\<lambda>x. x\<lparr>p_size := n\<rparr>))
      | _ \<Rightarrow> None)"

function zero_loop :: "bheap \<Rightarrow> nat \<Rightarrow> u64 \<Rightarrow> bool option" where
  "zero_loop h b at =
     (if at < p_size (buf h b) then
        let n = min (p_size (buf h b) - at) 8192;
            bytes = buffer_read h b at n
        in do { assert_opt (of_nat (length bytes) = n);
                if list_ex (\<lambda>x. x \<noteq> 0) bytes then Some False else zero_loop h b (at + n) }
      else Some True)"
  by pat_completeness auto
termination
proof (relation "measure (\<lambda>(h, b, at). unat (p_size (buf h b) - at))", simp, clarsimp)
  fix h b and at :: u64
  let ?s = "p_size (buf h b)" let ?n = "min (?s - at) 8192"
  assume "at < ?s"
  then have pos: "0 < unat (?s - at)" by (simp add: word_less_nat_alt unat_sub_if')
  have n: "?n \<le> ?s - at" "?n \<noteq> 0" using pos by (auto simp: min_def unat_eq_zero [symmetric])
  then have "?s - (at + ?n) = (?s - at) - ?n" by (simp add: algebra_simps)
  moreover have "unat ((?s - at) - ?n) = unat (?s - at) - unat ?n" using n(1) by (simp add: unat_sub)
  moreover have "0 < unat ?n" using n(2) by (simp add: unat_gt_0)
  ultimately show "unat (?s - (at + ?n)) < unat (?s - at)" using pos by (metis diff_less)
qed

declare zero_loop.simps [simp del]

definition buffer_is_zero :: "bheap \<Rightarrow> nat \<Rightarrow> bool option" where
  "buffer_is_zero h b =
     (if bf_class (buf h b) = AnonymousBuffer \<and> p_data (buf h b) = None then Some True else zero_loop h b 0)"

text \<open>
  \<open>Buffer::save\<close>: the output file is the list of the bytes written to it, \<open>bad\<close> is what \<open>file.bad()\<close> answers
  after a write, and \<open>fuel\<close> bounds the passes of the loop, which may not end.
\<close>

fun save_loop :: "(u8 list \<Rightarrow> bool) \<Rightarrow> nat \<Rightarrow> bheap \<Rightarrow> nat \<Rightarrow> u64 \<Rightarrow> u8 list \<Rightarrow> u8 list option" where
  "save_loop bad 0 h b off file = None"
| "save_loop bad (Suc fuel) h b off file =
     (let chunk = buffer_read h b off 8192;
          file = file @ chunk
      in if bad file \<or> length chunk < 8192 then Some file else save_loop bad fuel h b off file)"

definition buffer_save :: "(u8 list \<Rightarrow> bool) \<Rightarrow> nat \<Rightarrow> bheap \<Rightarrow> nat \<Rightarrow> u8 list option" where
  "buffer_save bad fuel h b = save_loop bad fuel h b 0 []"

section \<open>Contents\<close>

text \<open>The byte at a position of a buffer, if reading it succeeds.\<close>

definition has_bytes :: "buffer \<Rightarrow> bool" where
  "has_bytes x \<longleftrightarrow> bf_class x \<noteq> NullBuffer \<and> (bf_class x = AnonymousBuffer \<or> p_data x \<noteq> None)"

definition content :: "bheap \<Rightarrow> nat \<Rightarrow> nat \<Rightarrow> u8 option" where
  "content h b i =
     (if has_bytes (buf h b) \<and> i < unat (p_size (buf h b))
      then Some (case p_data (buf h b) of Some p \<Rightarrow> bh_mem h (p + i) | None \<Rightarrow> 0) else None)"

definition writable :: "buffer \<Rightarrow> bool" where
  "writable x \<longleftrightarrow> has_bytes x \<and> (bf_class x = AnonymousBuffer \<or> \<not> bf_read_only x)"

definition block :: "buffer \<Rightarrow> nat set" where
  "block x = (case p_data x of None \<Rightarrow> {} | Some p \<Rightarrow> {p ..< p + max 1 (unat (p_size x))})"

text \<open>Every buffer owns its bytes: the blocks are disjoint and lie below the addresses that are still free.\<close>

definition heap_ok :: "bheap \<Rightarrow> bool" where
  "heap_ok h \<longleftrightarrow>
     (\<forall>b < length (bh_buffers h). block (buf h b) \<subseteq> {..< bh_brk h}) \<and>
     (\<forall>b < length (bh_buffers h). \<forall>c < length (bh_buffers h). b \<noteq> c \<longrightarrow> block (buf h b) \<inter> block (buf h c) = {})"

lemma heap_okD:
  assumes "heap_ok h" "b < length (bh_buffers h)"
  shows "block (buf h b) \<subseteq> {..< bh_brk h}"
    "c < length (bh_buffers h) \<Longrightarrow> b \<noteq> c \<Longrightarrow> block (buf h b) \<inter> block (buf h c) = {}"
  using assms by (auto simp: heap_ok_def)

text \<open>What is left of a buffer from an offset on, for a request of a number of bytes.\<close>

definition span :: "buffer \<Rightarrow> u64 \<Rightarrow> u64 \<Rightarrow> u64" where
  "span x off n = (if has_bytes x \<and> off < p_size x then min n (p_size x - off) else 0)"

lemma unat_span:
  "unat (span x off n) =
     (if has_bytes x \<and> off < p_size x then min (unat n) (unat (p_size x) - unat off) else 0)"
  by (auto simp: span_def min_def word_le_nat_alt unat_sub word_less_nat_alt)


lemma buffer_read_content:
  "buffer_read h b off n = map (\<lambda>i. the (content h b (unat off + i))) [0 ..< unat (span (buf h b) off n)]"
proof (cases "has_bytes (buf h b) \<and> off < p_size (buf h b)")
  case True
  then have k: "unat (span (buf h b) off n) = unat (min n (p_size (buf h b) - off))" by (simp add: span_def)
  have c: "content h b (unat off + i) = Some (case p_data (buf h b) of Some p \<Rightarrow> bh_mem h (p + (unat off + i)) | None \<Rightarrow> 0)"
    if "i < unat (span (buf h b) off n)" for i
    using True that by (auto simp: content_def unat_span)
  have eq: "map (\<lambda>i. the (content h b (unat off + i))) [0 ..< unat (span (buf h b) off n)] =
      map (\<lambda>i. case p_data (buf h b) of Some p \<Rightarrow> bh_mem h (p + (unat off + i)) | None \<Rightarrow> 0) [0 ..< unat (span (buf h b) off n)]"
    using c by simp
  show ?thesis unfolding eq using True
    by (cases "bf_class (buf h b)")
      (auto simp: k buffer_read_def anon_read_def extern_read_def bytes_at_def has_bytes_def add.assoc not_le [symmetric]
         map_replicate_const Let_def split: option.splits)
next
  case False
  then show ?thesis
    by (cases "bf_class (buf h b)")
      (auto simp: span_def buffer_read_def anon_read_def extern_read_def has_bytes_def not_less split: option.splits)
qed

lemma length_buffer_read [simp]: "length (buffer_read h b off n) = unat (span (buf h b) off n)"
  by (simp add: buffer_read_content)

section \<open>The effect of writes and copies on the contents\<close>

lemma buf_simps [simp]:
  "buf (store_bytes h p off bs) b = buf h b" "bh_buffers (store_bytes h p off bs) = bh_buffers h"
  "bh_brk (store_bytes h p off bs) = bh_brk h"
  "b < length (bh_buffers h) \<Longrightarrow> buf (update_buf h b f) b = f (buf h b)"
  "b \<noteq> c \<Longrightarrow> buf (update_buf h b f) c = buf h c"
  "length (bh_buffers (update_buf h b f)) = length (bh_buffers h)" "bh_brk (update_buf h b f) = bh_brk h"
  "bh_mem (update_buf h b f) = bh_mem h"
  by (simp_all add: buf_def store_bytes_def update_buf_def)

lemma store_bytes_mem:
  "bh_mem (store_bytes h p off bs) a =
     (if p + unat off \<le> a \<and> a < p + unat off + length bs then bs ! (a - (p + unat off)) else bh_mem h a)"
  by (simp add: store_bytes_def)

lemma block_data: "p_data (buf h b) = Some p \<Longrightarrow> i < unat (p_size (buf h b)) \<Longrightarrow> p + i \<in> block (buf h b)"
  by (simp add: block_def)

lemma heap_ok_store [simp]: "heap_ok (store_bytes h p off bs) = heap_ok h"
  by (simp add: heap_ok_def)

text \<open>Bytes stored into the block of a buffer change the contents of that buffer only.\<close>

lemma store_content:
  assumes "heap_ok h" "b < length (bh_buffers h)" "p_data (buf h b) = Some p" "has_bytes (buf h b)"
    and "unat off + length bs \<le> unat (p_size (buf h b))" "c < length (bh_buffers h)"
  shows "content (store_bytes h p off bs) c i =
    (if c = b \<and> unat off \<le> i \<and> i < unat off + length bs then Some (bs ! (i - unat off)) else content h c i)"
proof (cases "c = b")
  case True
  then show ?thesis using assms by (auto simp: content_def store_bytes_mem)
next
  case False
  have "p + unat off \<le> q + i \<and> q + i < p + unat off + length bs \<Longrightarrow> False"
    if "p_data (buf h c) = Some q" "i < unat (p_size (buf h c))" for q
  proof -
    assume l: "p + unat off \<le> q + i \<and> q + i < p + unat off + length bs"
    then have "q + i - p < unat (p_size (buf h b))" using assms(5) by linarith
    then have "p + (q + i - p) \<in> block (buf h b)" using assms(3) by (rule block_data [rotated])
    moreover have "q + i \<in> block (buf h c)" using that by (rule block_data)
    ultimately show False using heap_okD(2) [OF assms(1,2,6)] False l by auto
  qed
  then show ?thesis using False by (auto simp: content_def store_bytes_mem split: option.splits)
qed

text \<open>Allocating the storage of an anonymous buffer does not change any contents.\<close>

lemma new_bytes_simps [simp]:
  "fst (new_bytes h n) = bh_brk h" "buf (snd (new_bytes h n)) b = buf h b"
  "bh_buffers (snd (new_bytes h n)) = bh_buffers h" "bh_mem (snd (new_bytes h n)) = bh_mem h"
  "bh_brk (snd (new_bytes h n)) = bh_brk h + max 1 (unat n)"
  by (simp_all add: new_bytes_def buf_def)

lemma anon_storage_buf:
  assumes "b < length (bh_buffers h)"
  shows "buf (anon_storage h b) c = (if c = b then (buf h b)\<lparr>p_data := Some (bh_brk h)\<rparr> else buf h c)"
    "length (bh_buffers (anon_storage h b)) = length (bh_buffers h)"
    "bh_brk (anon_storage h b) = bh_brk h + max 1 (unat (p_size (buf h b)))"
    "bh_mem (anon_storage h b) a = (if bh_brk h \<le> a \<and> a < bh_brk h + unat (p_size (buf h b)) then 0 else bh_mem h a)"
  using assms by (auto simp: anon_storage_def case_prod_unfold Let_def store_bytes_mem)

lemma anon_storage_ok:
  assumes "heap_ok h" "b < length (bh_buffers h)" "p_data (buf h b) = None"
  shows "heap_ok (anon_storage h b)"
proof -
  let ?h = "anon_storage h b"
  note a = anon_storage_buf [OF assms(2)]
  have fresh: "block (buf ?h b) = {bh_brk h ..< bh_brk ?h}" by (simp add: a block_def)
  have old: "block (buf ?h c) \<subseteq> {..< bh_brk h}" if "c < length (bh_buffers h)" "c \<noteq> b" for c
    using heap_okD(1) [OF assms(1) that(1)] that by (simp add: a)
  have "block (buf ?h c) \<subseteq> {..< bh_brk ?h}" if "c < length (bh_buffers h)" for c
    using old [OF that] fresh by (cases "c = b") (auto simp: a(3))
  moreover have "block (buf ?h c) \<inter> block (buf ?h d) = {}"
    if "c < length (bh_buffers h)" "d < length (bh_buffers h)" "c \<noteq> d" for c d
  proof -
    consider "c = b" | "d = b" | "c \<noteq> b" "d \<noteq> b" by blast
    then show ?thesis
    proof cases
      case 1
      then show ?thesis using old [OF that(2)] that(3) by (auto simp: fresh)
    next
      case 2
      then show ?thesis using old [OF that(1)] that(3) by (auto simp: fresh)
    next
      case 3
      then show ?thesis using heap_okD(2) [OF assms(1) that(1,2,3)] by (simp add: a)
    qed
  qed
  ultimately show ?thesis by (simp add: heap_ok_def a(2))
qed

lemma anon_storage_content:
  assumes "heap_ok h" "b < length (bh_buffers h)" "p_data (buf h b) = None" "bf_class (buf h b) = AnonymousBuffer"
    and "c < length (bh_buffers h)"
  shows "content (anon_storage h b) c i = content h c i"
proof -
  have "bh_mem (anon_storage h b) (p + i) = bh_mem h (p + i)"
    if "p_data (buf h c) = Some p" "i < unat (p_size (buf h c))" for p
    using heap_okD(1) [OF assms(1,5)] block_data [OF that] by (auto simp: anon_storage_buf [OF assms(2)])
  then show ?thesis using assms(2-4)
    by (cases "c = b") (auto simp: content_def anon_storage_buf has_bytes_def split: option.splits)
qed

text \<open>\<open>write\<close> replaces the bytes it reports, in this buffer alone, or does nothing.\<close>

lemma store_take_content:
  assumes "heap_ok h" "b < length (bh_buffers h)" "p_data (buf h b) = Some p" "has_bytes (buf h b)"
    and "off < p_size (buf h b)" "k = span (buf h b) off n" "unat k \<le> length bs" "c < length (bh_buffers h)"
  shows "content (store_bytes h p off (take (unat k) bs)) c i =
    (if c = b \<and> unat off \<le> i \<and> i < unat off + unat k then Some (bs ! (i - unat off)) else content h c i)"
proof -
  have "unat off + length (take (unat k) bs) \<le> unat (p_size (buf h b))"
    using assms(4-7) by (simp add: unat_span word_less_nat_alt)
  from store_content [OF assms(1-4) this assms(8), of i] assms(7) show ?thesis by (auto simp: min_absorb2)
qed

definition written :: "buffer \<Rightarrow> u64 \<Rightarrow> u64 \<Rightarrow> u64" where
  "written x off n = (if writable x then span x off n else 0)"

definition same_shape :: "bheap \<Rightarrow> bheap \<Rightarrow> bool" where
  "same_shape h h' \<longleftrightarrow> length (bh_buffers h') = length (bh_buffers h) \<and>
     (\<forall>c < length (bh_buffers h). p_size (buf h' c) = p_size (buf h c) \<and> bf_class (buf h' c) = bf_class (buf h c) \<and>
        bf_read_only (buf h' c) = bf_read_only (buf h c) \<and> has_bytes (buf h' c) = has_bytes (buf h c))"

lemma same_shape_refl [simp]: "same_shape h h"
  by (simp add: same_shape_def)

lemma same_shape_trans: "same_shape h h' \<Longrightarrow> same_shape h' h'' \<Longrightarrow> same_shape h h''"
  by (simp add: same_shape_def)

lemma same_shape_store [simp]: "same_shape h (store_bytes h' p off bs) = same_shape h h'"
  by (simp add: same_shape_def)

lemma anon_storage_shape:
  "b < length (bh_buffers h) \<Longrightarrow> bf_class (buf h b) = AnonymousBuffer \<Longrightarrow> same_shape h (anon_storage h b)"
  by (simp add: same_shape_def anon_storage_buf has_bytes_def)

lemma same_shape_span:
  "same_shape h h' \<Longrightarrow> c < length (bh_buffers h) \<Longrightarrow> span (buf h' c) off n = span (buf h c) off n"
  by (simp add: same_shape_def span_def)

lemma same_shape_writable: "same_shape h h' \<Longrightarrow> c < length (bh_buffers h) \<Longrightarrow> writable (buf h' c) = writable (buf h c)"
  by (simp add: same_shape_def writable_def)

definition write_effect :: "bheap \<Rightarrow> nat \<Rightarrow> u64 \<Rightarrow> u64 \<Rightarrow> u8 list \<Rightarrow> bheap \<Rightarrow> bool" where
  "write_effect h b off k bs h' \<longleftrightarrow> heap_ok h' \<and> same_shape h h' \<and>
     (\<forall>c < length (bh_buffers h). \<forall>i. content h' c i =
        (if c = b \<and> unat off \<le> i \<and> i < unat off + unat k then Some (bs ! (i - unat off)) else content h c i))"

lemma buffer_write_refused:
  assumes "\<not> (writable (buf h b) \<and> off < p_size (buf h b))"
  shows "buffer_write h b src off n = (0, h)" "written (buf h b) off n = 0"
proof -
  show "buffer_write h b src off n = (0, h)" using assms
    by (cases "bf_class (buf h b)"; cases "p_data (buf h b)")
      (simp_all add: writable_def has_bytes_def buffer_write_def anon_write_def extern_write_def not_less)
qed (use assms in \<open>simp add: written_def span_def\<close>)

lemma buffer_write_data:
  assumes "writable (buf h b)" "off < p_size (buf h b)" "p_data (buf h b) = Some p"
  shows "buffer_write h b (Some bs) off n =
    (written (buf h b) off n, store_bytes h p off (take (unat (written (buf h b) off n)) bs))"
  using assms assms(2) [folded not_le]
  by (cases "bf_class (buf h b)")
    (simp_all add: writable_def has_bytes_def buffer_write_def anon_write_def extern_write_def written_def span_def Let_def)

lemma buffer_write_anon:
  fixes n :: u64
  assumes "bf_class (buf h b) = AnonymousBuffer" "off < p_size (buf h b)" "p_data (buf h b) = None" "b < length (bh_buffers h)"
  defines "k \<equiv> written (buf h b) off n"
  shows "buffer_write h b (Some bs) off n =
    (k, if list_all (\<lambda>x. x = 0) (take (unat k) bs) then h
        else store_bytes (anon_storage h b) (bh_brk h) off (take (unat k) bs))"
  using assms assms(2) [folded not_le]
  by (simp add: writable_def has_bytes_def buffer_write_def anon_write_def written_def span_def anon_storage_buf Let_def)

lemma written_span: "written x off n \<noteq> 0 \<Longrightarrow> written x off n = span x off n \<and> has_bytes x \<and> off < p_size x"
  by (simp add: written_def span_def writable_def split: if_splits)

lemma buffer_write_correct:
  assumes "heap_ok h" "b < length (bh_buffers h)" and bs: "unat (written (buf h b) off n) \<le> length bs"
  shows "\<exists>h'. buffer_write h b (Some bs) off n = (written (buf h b) off n, h') \<and>
    write_effect h b off (written (buf h b) off n) bs h'"
proof (cases "writable (buf h b) \<and> off < p_size (buf h b)")
  case False
  show ?thesis unfolding buffer_write_refused [OF False] using assms(1) by (auto simp: write_effect_def)
next
  case True
  define k where "k = written (buf h b) off n"
  have k: "k = span (buf h b) off n" and hb: "has_bytes (buf h b)" and off: "off < p_size (buf h b)" and w: "writable (buf h b)"
    using True by (simp_all add: k_def written_def writable_def)
  have bs: "unat k \<le> length bs" using bs by (simp add: k_def)
  show ?thesis
  proof (cases "p_data (buf h b)")
    case (Some p)
    have "write_effect h b off k bs (store_bytes h p off (take (unat k) bs))"
      unfolding write_effect_def using assms(1) store_take_content [OF assms(1,2) Some hb off k bs]
      by simp
    then show ?thesis unfolding buffer_write_data [OF w off Some] k_def [symmetric] by blast
  next
    case None
    then have anon: "bf_class (buf h b) = AnonymousBuffer" using hb by (simp add: has_bytes_def)
    note wr = buffer_write_anon [OF anon off None assms(2), of bs n, folded k_def]
    show ?thesis
    proof (cases "list_all (\<lambda>x. x = 0) (take (unat k) bs)")
      case all: True
      have "content h b i = Some (bs ! (i - unat off))" if "unat off \<le> i" "i < unat off + unat k" for i
      proof -
        have j: "i - unat off < unat k" using that by linarith
        then have "take (unat k) bs ! (i - unat off) = 0" using all bs by (simp add: list_all_length)
        moreover have "i < unat (p_size (buf h b))"
          using that(2) off hb by (simp add: k unat_span word_less_nat_alt)
        ultimately show ?thesis using j hb None by (simp add: content_def)
      qed
      then have "write_effect h b off k bs h" using assms(1) by (simp add: write_effect_def)
      then show ?thesis unfolding wr k_def [symmetric] using all by simp
    next
      case some: False
      let ?h = "anon_storage h b"
      note a = anon_storage_buf [OF assms(2)]
      have ok: "heap_ok ?h" by (rule anon_storage_ok [OF assms(1,2) None])
      have shape: "same_shape h ?h" using assms(2) anon by (rule anon_storage_shape)
      have "content (store_bytes ?h (bh_brk h) off (take (unat k) bs)) c i =
          (if c = b \<and> unat off \<le> i \<and> i < unat off + unat k then Some (bs ! (i - unat off)) else content h c i)"
        if "c < length (bh_buffers h)" for c i
      proof -
        have "has_bytes (buf ?h b)" "off < p_size (buf ?h b)" "k = span (buf ?h b) off n" "p_data (buf ?h b) = Some (bh_brk h)"
          "b < length (bh_buffers ?h)" "c < length (bh_buffers ?h)"
          using anon off k that assms(2) same_shape_span [OF shape assms(2)] by (simp_all add: a has_bytes_def)
        from store_take_content [OF ok this(5,4,1,2,3) bs this(6)] anon_storage_content [OF assms(1,2) None anon that]
        show ?thesis by simp
      qed
      then have "write_effect h b off k bs (store_bytes ?h (bh_brk h) off (take (unat k) bs))"
        unfolding write_effect_def using ok shape by simp
      then show ?thesis unfolding wr k_def [symmetric] using some by simp
    qed
  qed
qed

text \<open>A new buffer leaves the others alone.\<close>

definition extends :: "bheap \<Rightarrow> bheap \<Rightarrow> bool" where
  "extends h h' \<longleftrightarrow> length (bh_buffers h) \<le> length (bh_buffers h') \<and>
     (\<forall>c < length (bh_buffers h). buf h' c = buf h c \<and> (\<forall>i. content h' c i = content h c i))"

lemma new_name_simps [simp]:
  "buf (snd (new_name h)) b = buf h b" "bh_buffers (snd (new_name h)) = bh_buffers h"
  "bh_brk (snd (new_name h)) = bh_brk h" "bh_mem (snd (new_name h)) = bh_mem h"
  by (simp_all add: new_name_def buf_def)

lemma new_buffer_buf:
  "fst (new_buffer h k sz d) = length (bh_buffers h)"
  "length (bh_buffers (snd (new_buffer h k sz d))) = Suc (length (bh_buffers h))"
  "c < length (bh_buffers h) \<Longrightarrow> buf (snd (new_buffer h k sz d)) c = buf h c"
  "buf (snd (new_buffer h k sz d)) (length (bh_buffers h)) =
     \<lparr>bf_class = k, bf_read_only = False, bf_name = fst (new_name h), p_size = sz, p_data = d\<rparr>"
  "bh_brk (snd (new_buffer h k sz d)) = bh_brk h" "bh_mem (snd (new_buffer h k sz d)) = bh_mem h"
  by (simp_all add: new_buffer_def case_prod_unfold Let_def buf_def nth_append)

lemma new_buffer_extends: "extends h (snd (new_buffer h k sz d))"
  by (auto simp: extends_def new_buffer_buf content_def split: option.splits)

lemma new_buffer_ok:
  assumes "heap_ok h" "block \<lparr>bf_class = k, bf_read_only = False, bf_name = fst (new_name h), p_size = sz, p_data = d\<rparr> = B"
    and "B \<subseteq> {..< bh_brk h}" "\<And>c. c < length (bh_buffers h) \<Longrightarrow> block (buf h c) \<inter> B = {}"
  shows "heap_ok (snd (new_buffer h k sz d))"
proof -
  have "block (buf h c) \<inter> block (buf h d) = {}" if "c < length (bh_buffers h)" "d < length (bh_buffers h)" "c \<noteq> d" for c d
    using heap_okD(2) [OF assms(1) that] .
  then show ?thesis
    using heap_okD(1) [OF assms(1)] assms(2-4)
    by (auto simp: heap_ok_def new_buffer_buf less_Suc_eq Int_commute)
qed

lemma update_last_extends:
  assumes "extends h h'" "length (bh_buffers h) \<le> b" "b < length (bh_buffers h')"
  shows "extends h (update_buf h' b f)"
proof -
  have "c \<noteq> b" if "c < length (bh_buffers h)" for c using that assms(2) by simp
  moreover have "content (update_buf h' b f) c i = content h' c i" if "c \<noteq> b" for c i
    using that by (simp add: content_def split: option.split)
  ultimately show ?thesis using assms by (auto simp: extends_def)
qed

lemma heap_ok_update:
  assumes "heap_ok h" "b < length (bh_buffers h)" "block (f (buf h b)) = block (buf h b)"
  shows "heap_ok (update_buf h b f)"
proof -
  have "block (buf (update_buf h b f) c) = block (buf h c)" for c using assms by (cases "c = b") auto
  then show ?thesis using assms(1) by (simp add: heap_ok_def)
qed

definition cloned :: "bheap \<Rightarrow> nat \<Rightarrow> nat \<Rightarrow> bheap \<Rightarrow> bool" where
  "cloned h b b' h' \<longleftrightarrow> b' = length (bh_buffers h) \<and> b' < length (bh_buffers h') \<and> heap_ok h' \<and> extends h h' \<and>
     p_size (buf h' b') = p_size (buf h b) \<and> \<not> bf_read_only (buf h' b') \<and>
     has_bytes (buf h' b') = has_bytes (buf h b) \<and> (\<forall>i. content h' b' i = content h b i)"

lemma rename_cloned:
  assumes "cloned h b b' h'"
  shows "cloned h b b' (update_buf h' b' (\<lambda>x. x\<lparr>bf_name := f (bf_name x)\<rparr>))"
proof -
  let ?h = "update_buf h' b' (\<lambda>x. x\<lparr>bf_name := f (bf_name x)\<rparr>)"
  have b': "b' = length (bh_buffers h)" "b' < length (bh_buffers h')" "heap_ok h'" "extends h h'"
    using assms by (simp_all add: cloned_def)
  have "heap_ok ?h" using b'(3,2) by (rule heap_ok_update) (simp add: block_def split: option.split)
  moreover have "extends h ?h" using b' by (intro update_last_extends) simp_all
  moreover have "content ?h b' i = content h' b' i" for i
    using b'(2) by (simp add: content_def has_bytes_def split: option.split)
  ultimately show ?thesis using assms unfolding cloned_def b'(1) by (auto simp: has_bytes_def)
qed

lemma new_empty_cloned:
  assumes "heap_ok h" "b < length (bh_buffers h)" "k = AnonymousBuffer \<Longrightarrow> p_data (buf h b) = None" "k \<noteq> MmapBuffer" "k \<noteq> ExternBuffer"
    and "has_bytes (buf h b) = (k = AnonymousBuffer)"
  shows "cloned h b (fst (new_buffer h k (p_size (buf h b)) None)) (snd (new_buffer h k (p_size (buf h b)) None))"
  using assms new_buffer_ok [OF assms(1), of k "p_size (buf h b)" None "{}"]
  by (auto simp: cloned_def new_buffer_buf new_buffer_extends content_def has_bytes_def block_def)

lemma extern_clone_cloned:
  assumes "heap_ok h" "b < length (bh_buffers h)" "p_data (buf h b) = Some p" "bf_class (buf h b) \<noteq> NullBuffer"
  shows "cloned h b (fst (extern_clone h b)) (snd (extern_clone h b))"
proof -
  let ?s = "p_size (buf h b)"
  define h1 where "h1 = snd (new_bytes h ?s)"
  define h2 where "h2 = store_bytes h1 (bh_brk h) 0 (bytes_at h1 p 0 ?s)"
  have step: "extern_clone h b = new_buffer h2 ByteBuffer ?s (Some (bh_brk h))"
    using assms(3) by (simp add: extern_clone_def byte_create_def case_prod_unfold Let_def h1_def h2_def)
  have b2: "buf h2 c = buf h c" "bh_buffers h2 = bh_buffers h" "bh_brk h2 = bh_brk h + max 1 (unat ?s)" for c
    by (simp_all add: h2_def h1_def)
  have mem: "bh_mem h2 a = (if bh_brk h \<le> a \<and> a < bh_brk h + unat ?s then bh_mem h (p + (a - bh_brk h)) else bh_mem h a)" for a
    by (auto simp: h2_def h1_def store_bytes_mem bytes_at_def)
  have low: "bh_mem h2 (q + i) = bh_mem h (q + i)"
    if "c < length (bh_buffers h)" "p_data (buf h c) = Some q" "i < unat (p_size (buf h c))" for c q i
    using heap_okD(1) [OF assms(1) that(1)] block_data [OF that(2,3)] by (auto simp: mem)
  have below: "block (buf h c) \<subseteq> {..< bh_brk h}" if "c < length (bh_buffers h)" for c
    using heap_okD(1) [OF assms(1) that] .
  have "block (buf h2 c) \<subseteq> {..< bh_brk h2}" if "c < length (bh_buffers h)" for c
    using below [OF that] by (auto simp: b2)
  then have ok2: "heap_ok h2" using assms(1) unfolding heap_ok_def b2(1,2) by blast
  have "heap_ok (snd (new_buffer h2 ByteBuffer ?s (Some (bh_brk h))))"
    by (rule new_buffer_ok [OF ok2, where B = "{bh_brk h ..< bh_brk h + max 1 (unat ?s)}"])
      (use below in \<open>fastforce simp: block_def b2\<close>)+
  moreover have "extends h h2" using low by (auto simp: extends_def b2 content_def split: option.splits)
  then have "extends h (snd (new_buffer h2 ByteBuffer ?s (Some (bh_brk h))))"
    using new_buffer_extends [of h2 ByteBuffer ?s "Some (bh_brk h)"] by (simp add: extends_def b2)
  moreover have "content (snd (new_buffer h2 ByteBuffer ?s (Some (bh_brk h)))) (length (bh_buffers h)) i = content h b i" for i
    using assms(3,4) new_buffer_buf(4) [of h2 ByteBuffer ?s "Some (bh_brk h)"]
    by (simp add: content_def b2 new_buffer_buf(6) has_bytes_def mem)
  ultimately show ?thesis
    using assms new_buffer_buf(4) [of h2 ByteBuffer ?s "Some (bh_brk h)"]
    by (simp add: cloned_def step b2 new_buffer_buf(1,2) has_bytes_def)
qed

lemma clone_correct:
  assumes "heap_ok h" "b < length (bh_buffers h)"
  shows "cloned h b (fst (buffer_clone h b)) (snd (buffer_clone h b))"
proof -
  let ?new = "\<lambda>k. new_buffer h k (p_size (buf h b)) None"
  consider (anon) "bf_class (buf h b) = AnonymousBuffer" "p_data (buf h b) = None"
    | (null) "bf_class (buf h b) = NullBuffer"
    | (empty) "bf_class (buf h b) \<noteq> AnonymousBuffer" "bf_class (buf h b) \<noteq> NullBuffer" "p_data (buf h b) = None"
    | (data) p where "p_data (buf h b) = Some p" "bf_class (buf h b) \<noteq> NullBuffer" by fastforce
  then show ?thesis
  proof cases
    case anon
    let ?n = "?new AnonymousBuffer"
    have c: "cloned h b (fst ?n) (snd ?n)" using anon by (intro new_empty_cloned assms) (auto simp: has_bytes_def)
    note rename_cloned [OF c, of "(@) ''anon ''"]
    then show ?thesis using anon
      by (simp add: buffer_clone_def anon_clone_def anon_create_def case_prod_unfold Let_def del: append_Cons)
  next
    case null
    then have "cloned h b (fst (?new NullBuffer)) (snd (?new NullBuffer))"
      by (intro new_empty_cloned assms) (auto simp: has_bytes_def)
    then show ?thesis using null by (simp add: buffer_clone_def null_create_def)
  next
    case empty
    then have "cloned h b (fst (?new ByteBuffer)) (snd (?new ByteBuffer))"
      by (intro new_empty_cloned assms) (auto simp: has_bytes_def)
    then show ?thesis using empty
      by (cases "bf_class (buf h b)") (simp_all add: buffer_clone_def extern_clone_def byte_create_def)
  next
    case data
    then show ?thesis using extern_clone_cloned [OF assms data]
      by (cases "bf_class (buf h b)") (simp_all add: buffer_clone_def anon_clone_def)
  qed
qed

text \<open>\<open>get_data_ptr\<close> may allocate but changes no contents; equal data pointers mean equal buffers.\<close>

lemma get_data_ptr_correct:
  assumes "heap_ok h" "b < length (bh_buffers h)"
  shows "heap_ok (snd (get_data_ptr h b))" "same_shape h (snd (get_data_ptr h b))"
    "c < length (bh_buffers h) \<Longrightarrow> content (snd (get_data_ptr h b)) c i = content h c i"
proof -
  have "snd (get_data_ptr h b) = (if bf_class (buf h b) = AnonymousBuffer \<and> p_data (buf h b) = None then anon_storage h b else h)"
    by (cases "bf_class (buf h b)") (simp_all add: get_data_ptr_def Let_def)
  then show "heap_ok (snd (get_data_ptr h b))" "same_shape h (snd (get_data_ptr h b))"
    "c < length (bh_buffers h) \<Longrightarrow> content (snd (get_data_ptr h b)) c i = content h c i"
    using assms anon_storage_ok [OF assms] anon_storage_shape [OF assms(2)] anon_storage_content [OF assms, of c i]
    by simp_all
qed

lemma data_ptr_unique:
  assumes "heap_ok h" "b < length (bh_buffers h)" "c < length (bh_buffers h)"
    and "p_data (buf h b) = Some p" "p_data (buf h c) = Some p"
  shows "b = c"
proof (rule ccontr)
  assume "b \<noteq> c"
  then show False using heap_okD(2) [OF assms(1-3)] assms(4,5) by (auto simp: block_def)
qed

section \<open>Tests of whole buffers\<close>

lemma zero_loop_correct:
  assumes "has_bytes (buf h b)" "at \<le> p_size (buf h b)"
  shows "zero_loop h b at = Some (\<forall>i. unat at \<le> i \<and> i < unat (p_size (buf h b)) \<longrightarrow> content h b i = Some 0)"
  using assms
proof (induction h b at rule: zero_loop.induct)
  case (1 h b at)
  let ?s = "p_size (buf h b)"
  show ?case
  proof (cases "at < ?s")
    case False
    then show ?thesis by (subst zero_loop.simps) (auto simp: word_less_nat_alt)
  next
    case True
    define n where "n = min (?s - at) 8192"
    have n: "n \<le> ?s - at" "span (buf h b) at n = n" using True 1(2) by (auto simp: n_def span_def)
    have at: "unat (at + n) = unat at + unat n" "at + n \<le> ?s"
    proof -
      have "unat n \<le> unat ?s - unat at" using n(1) True by (simp add: word_le_nat_alt unat_sub word_less_nat_alt)
      then have le: "unat at + unat n \<le> unat ?s" using True by (simp add: word_less_nat_alt)
      then have "unat at + unat n < 2 ^ 64" using unat_less_length_power [of ?s] by simp
      then show "unat (at + n) = unat at + unat n" by (simp add: unat_word_ariths)
      then show "at + n \<le> ?s" using le by (simp add: word_le_nat_alt)
    qed
    have "content h b (unat at + i) \<noteq> None" if "i < unat n" for i
      using that at 1(2) by (auto simp: content_def word_le_nat_alt)
    then have c: "the (content h b (unat at + i)) = 0 \<longleftrightarrow> content h b (unat at + i) = Some 0" if "i < unat n" for i
      using that by fastforce
    have zeros: "\<not> list_ex (\<lambda>x. x \<noteq> 0) (buffer_read h b at n) \<longleftrightarrow>
        (\<forall>i. unat at \<le> i \<and> i < unat (at + n) \<longrightarrow> content h b i = Some 0)" (is "?l = ?r")
    proof -
      have "?l \<longleftrightarrow> (\<forall>i < unat n. content h b (unat at + i) = Some 0)"
        using c by (auto simp: buffer_read_content n(2) list_ex_iff)
      also have "\<dots> \<longleftrightarrow> ?r" unfolding at(1)
        by (metis add_less_cancel_left le_add1 le_iff_add)
      finally show ?thesis .
    qed
    have step: "zero_loop h b at = (if list_ex (\<lambda>x. x \<noteq> 0) (buffer_read h b at n) then Some False else zero_loop h b (at + n))"
      using True by (subst zero_loop.simps) (simp add: n_def [symmetric] n(2))
    show ?thesis
    proof (cases "list_ex (\<lambda>x. x \<noteq> 0) (buffer_read h b at n)")
      case ex: True
      then obtain i where "unat at \<le> i" "i < unat (at + n)" "content h b i \<noteq> Some 0" using zeros by blast
      then show ?thesis using ex at(2) by (auto simp: step word_le_nat_alt intro!: exI [of _ i])
    next
      case no: False
      have "zero_loop h b (at + n) = Some (\<forall>i. unat (at + n) \<le> i \<and> i < unat ?s \<longrightarrow> content h b i = Some 0)"
        by (rule 1(1) [OF True n_def refl]) (use no 1(2) at(2) n(2) in simp_all)
      moreover have "unat at \<le> unat (at + n)" by (simp add: at(1))
      ultimately show ?thesis using no zeros unfolding step by simp (meson not_le order_trans)
    qed
  qed
qed

lemma is_zero_correct:
  assumes "has_bytes (buf h b)"
  shows "buffer_is_zero h b = Some (\<forall>i < unat (p_size (buf h b)). content h b i = Some 0)"
  using zero_loop_correct [OF assms, of 0] assms by (simp add: buffer_is_zero_def content_def)

text \<open>A buffer without data of nonzero size fails the assertion of the loop.\<close>

lemma is_zero_no_data:
  assumes "\<not> has_bytes (buf h b)" "0 < p_size (buf h b)"
  shows "buffer_is_zero h b = None"
proof -
  have "min (p_size (buf h b)) 8192 \<noteq> 0" using assms(2) by (auto simp: min_def)
  then show ?thesis using assms
    by (subst buffer_is_zero_def, subst zero_loop.simps) (auto simp: has_bytes_def span_def)
qed

text \<open>\<open>save\<close> reads the first 8192 bytes again and again, since it never moves its offset.\<close>

lemma save_never_ends:
  assumes "has_bytes (buf h b)" "8192 \<le> p_size (buf h b)" "\<forall>out. \<not> bad out"
  shows "buffer_save bad fuel h b = None"
proof -
  have "span (buf h b) 0 8192 = 8192"
    using assms(1,2) by (auto simp: span_def min_def intro: order.strict_trans2 [of 0 8192])
  then have "save_loop bad fuel h b 0 out = None" for out
    using assms(3) by (induction fuel arbitrary: out) (simp_all add: Let_def)
  then show ?thesis by (simp add: buffer_save_def)
qed

end
