(* ===== verification/ExtentMaps.thy ===== *)
theory ExtentMaps
  imports RangeMapOps
begin

declare One_nat_def [simp del]

text \<open>
  \<open>ExtentMap\<close>, the range map over addresses without values of \<^verbatim>\<open>src/frontend/BinaryFormats/ExtentMap.C\<close> (its class is
  declared in \<^verbatim>\<open>src/ROSETTA/Grammar/Node.code\<close>): the classification of two extents and the allocation of extents
  from a free list. A failing search throws \<open>std::bad_alloc\<close>, the value \<open>Inl ()\<close>.
\<close>

type_synonym extent = "u64 Range"
type_synonym extent_map = "(u64, unit) rmap"

text \<open>The constructor from another range map: its ranges are inserted one by one.\<close>

fun insert_from :: "extent_map \<Rightarrow> (u64, 'v) rmap \<Rightarrow> extent_map option" where
  "insert_from m [] = Some m"
| "insert_from m ((r, v) # other) =
     do { (m', _) \<leftarrow> rm_insert range_map_void m (range_of_other r) () True; insert_from m' other }"

definition extent_map_of :: "(u64, 'v) rmap \<Rightarrow> extent_map option" where
  "extent_map_of other = insert_from [] other"

definition category :: "extent \<Rightarrow> extent \<Rightarrow> char" where
  "category a b =
     (if range_relaxed_first a = range_relaxed_first b \<and> range_size a = range_size b then CHR ''C''
      else if range_relaxed_first a + range_size a \<le> range_relaxed_first b then CHR ''L''
      else if range_relaxed_first a \<ge> range_relaxed_first b + range_size b then CHR ''R''
      else if range_relaxed_first a \<le> range_relaxed_first b \<and>
              range_relaxed_first a + range_size a \<ge> range_relaxed_first b + range_size b then CHR ''O''
      else if range_relaxed_first a \<ge> range_relaxed_first b \<and>
              range_relaxed_first a + range_size a \<le> range_relaxed_first b + range_size b then CHR ''I''
      else if range_relaxed_first a \<le> range_relaxed_first b then CHR ''B''
      else CHR ''E'')"

definition subtract_from :: "extent_map \<Rightarrow> extent \<Rightarrow> extent_map option" where
  "subtract_from m e = rm_invert_within range_map_void m e"

definition allocate_found :: "extent_map \<Rightarrow> nat \<Rightarrow> u64 \<Rightarrow> (unit + extent \<times> extent_map) option" where
  "allocate_found m found sz =
     (if found = length m then Some (Inl ())
      else do { f \<leftarrow> range_first (fst (m ! found));
                retval \<leftarrow> range_sized f sz;
                m' \<leftarrow> rm_erase range_map_void m retval;
                Some (Inr (retval, m')) })"

definition allocate_best_fit :: "extent_map \<Rightarrow> u64 \<Rightarrow> (unit + extent \<times> extent_map) option" where
  "allocate_best_fit m sz = allocate_found m (rm_best_fit m sz 0) sz"

definition allocate_first_fit :: "extent_map \<Rightarrow> u64 \<Rightarrow> (unit + extent \<times> extent_map) option" where
  "allocate_first_fit m sz = allocate_found m (rm_first_fit m sz 0) sz"

definition allocate_at :: "extent_map \<Rightarrow> extent \<Rightarrow> extent_map option" where
  "allocate_at m request =
     do { free \<leftarrow> subtract_from m request; assert_opt (rm_size free = 0); rm_erase range_map_void m request }"

section \<open>Searching for space\<close>

lemma first_fit_loop_bounds:
  "ri \<le> first_fit_loop sz ri m \<and> first_fit_loop sz ri m \<le> ri + length m \<and>
   (first_fit_loop sz ri m < ri + length m \<longrightarrow> sz \<le> range_size (fst (m ! (first_fit_loop sz ri m - ri)))) \<and>
   (\<forall>j < first_fit_loop sz ri m - ri. range_size (fst (m ! j)) < sz)"
proof (induction sz ri m rule: first_fit_loop.induct)
  case (2 sz ri r v m)
  show ?case
  proof (cases "sz \<le> range_size r")
    case False
    let ?i = "first_fit_loop sz (Suc ri) m"
    from 2 False have IH: "Suc ri \<le> ?i" "?i \<le> Suc ri + length m"
      "?i < Suc ri + length m \<longrightarrow> sz \<le> range_size (fst (m ! (?i - Suc ri)))"
      "\<forall>j < ?i - Suc ri. range_size (fst (m ! j)) < sz" by auto
    have s: "?i - ri = Suc (?i - Suc ri)" using IH(1) by simp
    have "range_size (fst (((r, v) # m) ! j)) < sz" if "j < ?i - ri" for j
      using that IH(4) False by (cases j) (auto simp: s)
    then show ?thesis using False IH(1-3) by (auto simp: s)
  qed simp
qed simp

lemma first_fit_correct:
  fixes sz :: "'a::len word"
  assumes "start \<le> length m"
  defines "i \<equiv> rm_first_fit m sz start"
  shows "start \<le> i" "i \<le> length m" "i < length m \<Longrightarrow> sz \<le> range_size (fst (m ! i))"
    "start \<le> j \<Longrightarrow> j < i \<Longrightarrow> range_size (fst (m ! j)) < sz"
proof -
  note b = first_fit_loop_bounds [of start sz "drop start m", folded rm_first_fit_def, folded i_def]
  show "start \<le> i" "i \<le> length m" using b assms(1) by auto
  show "i < length m \<Longrightarrow> sz \<le> range_size (fst (m ! i))" using b assms(1) by auto
  show "start \<le> j \<Longrightarrow> j < i \<Longrightarrow> range_size (fst (m ! j)) < sz"
    using b assms(1) by (metis add_diff_inverse_nat diff_less_mono leD nth_drop)
qed

definition best_of :: "('a::len word, 'v) rmap \<Rightarrow> 'a word \<Rightarrow> nat \<Rightarrow> nat \<Rightarrow> bool" where
  "best_of m sz n i \<longleftrightarrow>
     (if i = length m then \<forall>j < n. range_size (fst (m ! j)) < sz
      else i < n \<and> sz \<le> range_size (fst (m ! i)) \<and>
        (\<forall>j < n. sz \<le> range_size (fst (m ! j)) \<longrightarrow> range_size (fst (m ! i)) \<le> range_size (fst (m ! j))))"

lemma best_of_step:
  assumes "best_of m sz ri best" "ri < length m" "range_size (fst (m ! ri)) \<noteq> sz"
  shows "best_of m sz (Suc ri)
    (if range_size (fst (m ! ri)) > sz \<and> (best = length m \<or> range_size (fst (m ! ri)) < range_size (fst (m ! best)))
     then ri else best)"
  using assms by (fastforce simp: best_of_def less_Suc_eq not_less split: if_splits)

lemma best_fit_loop_correct:
  assumes "rest = drop ri m" "ri \<le> length m" "best_of m sz ri best"
  shows "best_of m sz (length m) (best_fit_loop m sz best ri rest)"
  using assms
proof (induction m sz best ri rest rule: best_fit_loop.induct)
  case (2 m sz best ri r v rest)
  have ri: "ri < length m" "rest = drop (Suc ri) m" using 2(2) by (metis drop_eq_Nil list.discI not_le, metis drop_Suc list.sel(3) tl_drop)
  then have mri: "m ! ri = (r, v)" using 2(2) by (metis Cons_nth_drop_Suc list.inject)
  show ?case
  proof (cases "range_size r = sz")
    case True
    then have "best_of m sz (length m) ri" using ri(1) mri by (simp add: best_of_def)
    then show ?thesis using True by simp
  next
    case False
    then show ?thesis using 2(1) [OF False ri(2)] best_of_step [OF 2(4) ri(1)] ri(1) by (simp add: mri)
  qed
qed simp

lemma best_fit_correct: "best_of m sz (length m) (rm_best_fit m sz 0)"
  unfolding rm_best_fit_def by (rule best_fit_loop_correct) (simp_all add: best_of_def)

text \<open>A piece of the size asked for, at the start of a range that is at least as large, lies in that range.\<close>

lemma sized_within:
  assumes "\<not> range_empty r" "sz \<le> range_size r" "sz \<noteq> 0"
  shows "\<exists>p. range_sized (r_first r) sz = Some p \<and> \<not> range_empty p \<and> set_of p \<subseteq> set_of r \<and> range_size p = sz"
proof -
  have le: "unat (r_first r) \<le> unat (r_last r)" using assms(1) by (simp add: not_empty_le word_le_nat_alt)
  have "range_size r = of_nat (Suc (unat (r_last r) - unat (r_first r)))"
    using range_size_card [of r] card_word_interval [of "r_first r" "r_last r"] assms(1)
    by (simp add: not_empty_le set_of_def)
  then have "unat (range_size r) \<le> Suc (unat (r_last r) - unat (r_first r))"
    by (simp only: unat_of_nat mod_less_eq_dividend)
  then have sz: "0 < unat sz" "unat sz \<le> Suc (unat (r_last r) - unat (r_first r))"
    using assms(2,3) by (simp_all add: unat_gt_0 word_le_nat_alt)
  then have "unat (r_first r) + unat sz \<le> 2 ^ LENGTH('a)"
    using le unat_less_length_power [of "r_last r"] by linarith
  then obtain p where p: "range_sized (r_first r) sz = Some p" "r_first p = r_first r"
    "unat (r_last p) = unat (r_first r) + unat sz - 1"
    using range_sized_total [of sz "r_first r"] assms(3) by (metis word_gt_0)
  have ends: "r_first p \<le> r_last p" "r_last p \<le> r_last r"
    using p(2,3) sz le by (simp_all add: word_le_nat_alt)
  moreover have "range_size p = sz"
    using card_word_interval [OF ends(1)] p(2,3) sz(1) by (simp add: range_size_card set_of_def)
  ultimately show ?thesis using p(1,2) by (intro exI [of _ p]) (auto simp: not_empty_le)
qed

lemma allocate_found_correct:
  assumes "rm_ok m" "i < length m" "sz \<le> range_size (fst (m ! i))" "sz \<noteq> 0"
  shows "\<exists>p m'. allocate_found m i sz = Some (Inr (p, m')) \<and> rm_ok m' \<and> range_size p = sz \<and>
    set_of p \<subseteq> set_of (fst (m ! i)) \<and> rm_dom m' = rm_dom m - set_of p"
proof -
  have ne: "\<not> range_empty (fst (m ! i))" using assms(1,2) by (simp add: rm_ok_def)
  obtain p where p: "range_sized (r_first (fst (m ! i))) sz = Some p" "set_of p \<subseteq> set_of (fst (m ! i))" "range_size p = sz"
    using sized_within [OF ne assms(3,4)] by blast
  obtain m' where m': "rm_erase range_map_void m p = Some m'" "rm_ok m'"
    "rm_cells (\<lambda>_ _ _. ()) (set m') = {(a, x) \<in> rm_cells (\<lambda>_ _ _. ()) (set m). a \<notin> set_of p}"
    using void.erase_correct [of m p] assms(1) by (auto simp: rm_inv_True)
  have "rm_dom m' = rm_dom m - set_of p"
    using m'(3) by (auto simp: void.dom_cells simp del: mem_set_of)
  with p m'(1,2) assms(2) ne show ?thesis by (auto simp: allocate_found_def range_first_def)
qed

section \<open>Properties\<close>

text \<open>Property C25. Allocation from a free list by best fit and by first fit: \<open>std::bad_alloc\<close> is thrown exactly if no range
  of the list is large enough; otherwise the extent has the size asked for, all of it was free, exactly it is
  removed from the list, and it comes from a smallest, respectively the first, range that is large enough.\<close>

theorem allocate_fit:
  assumes "rm_ok m" "sz \<noteq> 0"
  shows "if \<forall>j < length m. range_size (fst (m ! j)) < sz
    then allocate_best_fit m sz = Some (Inl ()) \<and> allocate_first_fit m sz = Some (Inl ())
    else (\<exists>i p m'. allocate_best_fit m sz = Some (Inr (p, m')) \<and> rm_ok m' \<and> range_size p = sz \<and> i < length m \<and>
        set_of p \<subseteq> set_of (fst (m ! i)) \<and> rm_dom m' = rm_dom m - set_of p \<and>
        (\<forall>j < length m. sz \<le> range_size (fst (m ! j)) \<longrightarrow> range_size (fst (m ! i)) \<le> range_size (fst (m ! j)))) \<and>
      (\<exists>i p m'. allocate_first_fit m sz = Some (Inr (p, m')) \<and> rm_ok m' \<and> range_size p = sz \<and> i < length m \<and>
        set_of p \<subseteq> set_of (fst (m ! i)) \<and> rm_dom m' = rm_dom m - set_of p \<and>
        (\<forall>j < i. range_size (fst (m ! j)) < sz))"
proof (cases "\<forall>j < length m. range_size (fst (m ! j)) < sz")
  case True
  have "rm_best_fit m sz 0 = length m"
    using best_fit_correct [of m sz] True by (auto simp: best_of_def not_le [symmetric] split: if_splits)
  moreover have "rm_first_fit m sz 0 = length m"
    using first_fit_correct [where start = 0 and m = m and sz = sz] True by (metis le0 le_neq_implies_less leD)
  ultimately show ?thesis using True
    by (simp add: allocate_best_fit_def allocate_first_fit_def allocate_found_def)
next
  case False
  let ?b = "rm_best_fit m sz 0" and ?f = "rm_first_fit m sz 0"
  have b: "?b < length m" "sz \<le> range_size (fst (m ! ?b))"
    "\<forall>j < length m. sz \<le> range_size (fst (m ! j)) \<longrightarrow> range_size (fst (m ! ?b)) \<le> range_size (fst (m ! j))"
    using best_fit_correct [of m sz] False by (auto simp: best_of_def split: if_splits)
  have f: "?f < length m" "sz \<le> range_size (fst (m ! ?f))" "\<forall>j < ?f. range_size (fst (m ! j)) < sz"
    using first_fit_correct [where start = 0 and m = m and sz = sz] False by (metis le0 le_neq_implies_less)+
  show ?thesis
    using False allocate_found_correct [OF assms(1) b(1,2) assms(2)] b(1,3)
      allocate_found_correct [OF assms(1) f(1,2) assms(2)] f(1,3)
    unfolding allocate_best_fit_def allocate_first_fit_def by auto
qed

definition free_list :: extent_map where
  "free_list = [(\<lparr>r_first = 10, r_last = 29\<rparr>, ()), (\<lparr>r_first = 40, r_last = 47\<rparr>, ())]"

theorem allocate_fit_witness:
  "(\<exists>m'. allocate_best_fit free_list 8 = Some (Inr (\<lparr>r_first = 40, r_last = 47\<rparr>, m'))) \<and>
   (\<exists>m'. allocate_first_fit free_list 8 = Some (Inr (\<lparr>r_first = 10, r_last = 17\<rparr>, m'))) \<and>
   rm_ok free_list \<and> \<not> (\<forall>j < length free_list. range_size (fst (free_list ! j)) < 8)"
proof -
  have ok: "rm_ok free_list" by (simp add: free_list_def rm_ok_def rm_before_def)
  have "allocate_best_fit free_list 8 = Some (Inr (\<lparr>r_first = 40, r_last = 47\<rparr>, [(\<lparr>r_first = 10, r_last = 29\<rparr>, ())]))"
    "allocate_first_fit free_list 8 = Some (Inr (\<lparr>r_first = 10, r_last = 17\<rparr>, [(\<lparr>r_first = 18, r_last = 29\<rparr>, ()), (\<lparr>r_first = 40, r_last = 47\<rparr>, ())]))"
    by code_simp+
  then show ?thesis using allocate_fit [OF ok, of 8] ok by (auto split: if_splits)
qed

end
