(* ===== verification/Segments.thy ===== *)
theory Segments
  imports Buffers ExtentMaps "HOL-Library.Char_ord" "HOL-Library.List_Lexorder"
begin

declare One_nat_def [simp del]

text \<open>
  The class \<open>MemoryMap::Segment\<close> of \<^verbatim>\<open>src/frontend/BinaryFormats/MemoryMap.h\<close> and \<^verbatim>\<open>MemoryMap.C\<close>: segments, their names and their behaviour as
  values of a range map. A failing assertion is \<open>None\<close>.
\<close>

section \<open>Segments\<close>

record segment =
  sg_buffer :: "nat option"
  buffer_offset :: u64
  mapperms :: u32
  sg_name :: string
  copy_on_write :: bool

type_synonym memory_map = "(u64, segment) rmap"

definition segment_default :: segment where
  "segment_default = \<lparr>sg_buffer = None, buffer_offset = 0, mapperms = 0, sg_name = '''', copy_on_write = False\<rparr>"

definition new_segment :: "nat option \<Rightarrow> u64 \<Rightarrow> u32 \<Rightarrow> string \<Rightarrow> segment" where
  "new_segment b off perms nm =
     \<lparr>sg_buffer = b, buffer_offset = off, mapperms = perms, sg_name = nm, copy_on_write = False\<rparr>"

definition set_mapperms :: "segment \<Rightarrow> u32 \<Rightarrow> segment" where
  "set_mapperms sg p = sg\<lparr>mapperms := p\<rparr>"

definition set_cow :: "segment \<Rightarrow> bool \<Rightarrow> segment" where
  "set_cow sg b = sg\<lparr>copy_on_write := b\<rparr>"

definition set_buffer :: "segment \<Rightarrow> nat option \<Rightarrow> segment" where
  "set_buffer sg b = sg\<lparr>sg_buffer := b\<rparr>"

text \<open>\<open>check\<close>: \<open>None\<close> when the range fits into the buffer, else the first bad address.\<close>

definition seg_check :: "bheap \<Rightarrow> segment \<Rightarrow> extent \<Rightarrow> u64 option" where
  "seg_check h sg r =
     (if range_empty r then Some 0
      else case sg_buffer sg of
        None \<Rightarrow> Some (r_first r)
      | Some b \<Rightarrow>
          if p_size (buf h b) = 0 \<or> buffer_offset sg \<ge> p_size (buf h b) then Some (r_first r)
          else if buffer_offset sg + range_size r > p_size (buf h b)
            then Some (r_first r + (p_size (buf h b) - buffer_offset sg))
          else None)"

definition get_buffer_offset :: "segment \<Rightarrow> extent \<Rightarrow> u64 \<Rightarrow> u64 option" where
  "get_buffer_offset sg my_range va =
     do { assert_opt (range_contains my_range (range_unit va) False);
          f \<leftarrow> range_first my_range;
          Some (buffer_offset sg + va - f) }"

definition set_buffer_offset :: "bheap \<Rightarrow> segment \<Rightarrow> u64 \<Rightarrow> segment option" where
  "set_buffer_offset h sg n =
     do { assert_opt (case sg_buffer sg of None \<Rightarrow> True | Some b \<Rightarrow> n < p_size (buf h b));
          Some (sg\<lparr>buffer_offset := n\<rparr>) }"

definition segment_eq :: "segment \<Rightarrow> segment \<Rightarrow> bool" where
  "segment_eq s other \<longleftrightarrow>
     sg_buffer s = sg_buffer other \<and> buffer_offset s = buffer_offset other \<and> mapperms s = mapperms other"

section \<open>Names of segments\<close>

text \<open>
  The name of a segment is text of the form \<open>file(name1+name2)+file2(name3)\<close>. \<open>get_name_pairings\<close> collects the pairs
  and returns what it does not understand. A \<open>std::map\<close> from strings to sets of strings is a sorted list; a position
  \<open>i\<close> of the string is the suffix that begins there.
\<close>

type_synonym name_pairings = "(string \<times> string list) list"

definition is_space :: "char \<Rightarrow> bool" where
  "is_space c \<longleftrightarrow> of_char c = (32 :: nat) \<or> (9 \<le> (of_char c :: nat) \<and> (of_char c :: nat) \<le> 13)"

fun pairings_insert :: "name_pairings \<Rightarrow> string \<Rightarrow> string \<Rightarrow> name_pairings" where
  "pairings_insert [] fname gname = [(fname, [gname])]"
| "pairings_insert ((k, s) # ps) fname gname =
     (if fname = k then (k, insort_insert gname s) # ps
      else if fname < k then (fname, [gname]) # (k, s) # ps
      else (k, s) # pairings_insert ps fname gname)"

fun scan_name :: "nat \<Rightarrow> string \<Rightarrow> string \<times> nat \<times> string" where
  "scan_name parens [] = ([], parens, [])"
| "scan_name parens (c # s) =
     (if c \<noteq> CHR ''+'' \<and> (parens > 0 \<or> c \<noteq> CHR '')'') then
        let (gname, parens, rest) =
              scan_name (if c = CHR ''('' then parens + 1 else if c = CHR '')'' then parens - 1 else parens) s
        in (c # gname, parens, rest)
      else ([], parens, c # s))"

definition skip_char :: "char \<Rightarrow> string \<Rightarrow> string" where
  "skip_char c s = (if s \<noteq> [] \<and> hd s = c then tl s else s)"

lemma scan_name_length: "length (snd (snd (scan_name p s))) \<le> length s"
  by (induction p s rule: scan_name.induct) (auto simp: case_prod_unfold Let_def le_SucI)

lemma scan_name_progress:
  "s \<noteq> [] \<Longrightarrow> p > 0 \<or> hd s \<noteq> CHR '')'' \<Longrightarrow> length (skip_char CHR ''+'' (snd (snd (scan_name p s)))) < length s"
proof (cases s)
  case (Cons c t)
  assume "p > 0 \<or> hd s \<noteq> CHR '')''"
  then show ?thesis using scan_name_length [of _ t]
    by (auto simp: Cons skip_char_def case_prod_unfold Let_def less_Suc_eq_le intro: diff_le_self order_trans le_less_trans)
qed simp

lemma skip_char_length: "length (skip_char c s) \<le> length s"
  by (simp add: skip_char_def)

lemma drop_space_length: "length (dropWhile P s) \<le> length s"
  by (rule length_dropWhile_le)

text \<open>The loop over the names between a pair of parentheses.\<close>

function group_loop :: "name_pairings \<Rightarrow> string \<Rightarrow> nat \<Rightarrow> string \<Rightarrow> name_pairings \<times> string" where
  "group_loop pairings fname parens s =
     (if s \<noteq> [] \<and> hd s \<noteq> CHR '')'' then
        let (gname, parens, s) = scan_name parens (dropWhile is_space s);
            pairings = (if gname \<noteq> [] then pairings_insert pairings fname gname else pairings)
        in group_loop pairings fname parens (skip_char CHR ''+'' s)
      else (pairings, s))"
  by pat_completeness auto
termination
proof (relation "measure (\<lambda>(_, _, _, s). length s)", simp, clarsimp)
  fix parens :: nat and s g p rest
  assume s: "s \<noteq> []" "hd s \<noteq> CHR '')''" "(g, p, rest) = scan_name parens (dropWhile is_space s)"
  have r: "rest = snd (snd (scan_name parens (dropWhile is_space s)))" using s(3) by (metis snd_conv)
  show "length (skip_char CHR ''+'' rest) < length s"
  proof (cases "is_space (hd s)")
    case True
    have "length (skip_char CHR ''+'' rest) \<le> length (dropWhile is_space s)"
      unfolding r using skip_char_length scan_name_length order_trans by blast
    also have "\<dots> < length s" using s(1) True by (cases s) (auto simp: less_Suc_eq_le drop_space_length)
    finally show ?thesis .
  next
    case False
    then have "dropWhile is_space s = s" using s(1) by (cases s) auto
    then show ?thesis unfolding r using scan_name_progress [OF s(1)] s(2) by simp
  qed
qed

declare group_loop.simps [simp del]

lemma group_loop_length: "length (snd (group_loop ps f p s)) \<le> length s"
proof (induction ps f p s rule: group_loop.induct)
  case (1 ps f p s)
  show ?case
  proof (cases "s \<noteq> [] \<and> hd s \<noteq> CHR '')''")
    case True
    obtain g p' r where sc: "scan_name p (dropWhile is_space s) = (g, p', r)" by (metis prod_cases3)
    have "length r \<le> length s"
      using scan_name_length [of p "dropWhile is_space s"] drop_space_length [of is_space s] sc by simp
    then have "length (skip_char CHR ''+'' r) \<le> length s" using skip_char_length order_trans by blast
    then show ?thesis using 1 [OF True sc [symmetric] refl refl] True
      by (subst group_loop.simps) (auto simp: sc Let_def intro: order_trans)
  next
    case False
    then show ?thesis by (subst group_loop.simps) auto
  qed
qed

text \<open>The main loop; \<open>strchr\<close> also finds the terminating null character.\<close>

definition fname_char :: "char \<Rightarrow> bool" where
  "fname_char c \<longleftrightarrow> \<not> is_space c \<and> c \<notin> {CHR ''('', CHR '')'', CHR ''+'', CHR 0x00}"

function pairings_loop :: "name_pairings \<Rightarrow> string \<Rightarrow> name_pairings \<times> string" where
  "pairings_loop pairings s =
     (if s \<noteq> [] then
        let s = dropWhile is_space s;
            fname = takeWhile fname_char s;
            s = dropWhile fname_char s
        in if s = [] \<or> hd s \<noteq> CHR ''('' \<or> fname = [] then (pairings, fname @ s)
           else let (pairings, s) = group_loop pairings fname 0 (tl s);
                    s = dropWhile is_space (skip_char CHR '')'' s)
                in pairings_loop pairings (skip_char CHR ''+'' s)
      else (pairings, []))"
  by pat_completeness auto
termination
proof (relation "measure (\<lambda>(_, s). length s)", simp, clarsimp)
  fix ps ps' :: name_pairings and s rest x
  let ?t = "dropWhile fname_char (dropWhile is_space s)"
  assume x: "s \<noteq> []" "x \<in> set (dropWhile is_space s)" "\<not> fname_char x" and g: "(ps', rest) = group_loop ps (takeWhile fname_char (dropWhile is_space s)) 0 (tl ?t)"
  have t: "?t \<noteq> []" using x(2,3) by auto
  have "length rest \<le> length (tl ?t)" using group_loop_length g by (metis snd_conv)
  also have "\<dots> < length ?t" using t by simp
  also have "\<dots> \<le> length s" using drop_space_length order_trans by blast
  finally have "length rest < length s" .
  then show "length (skip_char CHR ''+'' (dropWhile is_space (skip_char CHR '')'' rest))) < length s"
    using skip_char_length drop_space_length by (meson le_less_trans)
qed

declare pairings_loop.simps [simp del]

definition get_name_pairings :: "segment \<Rightarrow> name_pairings \<Rightarrow> string \<times> name_pairings" where
  "get_name_pairings sg pairings = (let (pairings, retval) = pairings_loop pairings (sg_name sg) in (retval, pairings))"

text \<open>\<open>set_name\<close>, which prints the pairs again.\<close>

fun print_names :: "string \<Rightarrow> string list \<Rightarrow> string" where
  "print_names s [] = s"
| "print_names s (x # xs) = print_names ((if last s \<noteq> CHR ''('' then s @ ''+'' else s) @ x) xs"

fun print_pairings :: "string \<Rightarrow> name_pairings \<Rightarrow> string" where
  "print_pairings s [] = s"
| "print_pairings s ((k, xs) # ps) =
     print_pairings (print_names (s @ (if s = [] then [] else ''+'') @ k @ ''('') xs @ '')'') ps"

definition add_name :: "string \<Rightarrow> string \<Rightarrow> string" where
  "add_name s x = (if x \<noteq> [] then s @ (if s = [] then [] else ''+'') @ x else s)"

definition set_name_pairs :: "segment \<Rightarrow> name_pairings \<Rightarrow> string \<Rightarrow> string \<Rightarrow> segment" where
  "set_name_pairs sg pairings s1 s2 = sg\<lparr>sg_name := add_name (add_name (print_pairings [] pairings) s1) s2\<rparr>"

definition merge_names :: "segment \<Rightarrow> segment \<Rightarrow> segment" where
  "merge_names sg other =
     (if sg_name sg = [] then sg\<lparr>sg_name := sg_name other\<rparr>
      else if sg_name other = [] \<or> sg_name sg = sg_name other then sg
      else let (s1, pairings) = get_name_pairings sg [];
               (s2, pairings) = get_name_pairings other pairings
           in set_name_pairs sg pairings s1 s2)"

section \<open>Segments as values of a range map\<close>

definition same_data :: "bheap \<Rightarrow> nat \<Rightarrow> nat \<Rightarrow> bool" where
  "same_data h b c =
     (let (p, h) = get_data_ptr h b
      in if p = None then False else let (q, h) = get_data_ptr h c in p = q)"

text \<open>The allocations that asking for the data pointers makes.\<close>

definition data_ptr_allocs :: "bheap \<Rightarrow> nat \<Rightarrow> nat \<Rightarrow> bheap" where
  "data_ptr_allocs h b c =
     (let (p, h) = get_data_ptr h b
      in if p = None then h else snd (get_data_ptr h c))"

definition seg_merge :: "bheap \<Rightarrow> extent \<Rightarrow> extent \<Rightarrow> segment \<Rightarrow> segment \<Rightarrow> (bool \<times> segment) option" where
  "seg_merge h my_range other_range sg other =
     do { assert_opt (\<not> range_empty my_range \<and> \<not> range_empty other_range);
          case (sg_buffer sg, sg_buffer other) of
            (Some b, Some c) \<Rightarrow>
              if \<not> same_data h b c then Some (False, sg)
              else if mapperms sg \<noteq> mapperms other then Some (False, sg)
              else if abuts_lt other_range my_range then
                do { ol \<leftarrow> range_last other_range; x \<leftarrow> get_buffer_offset other other_range ol;
                     f \<leftarrow> range_first my_range; y \<leftarrow> get_buffer_offset sg my_range f;
                     if x + 1 \<noteq> y then Some (False, sg)
                     else do { sg \<leftarrow> set_buffer_offset h sg (buffer_offset other);
                               Some (True, merge_names sg other) } }
              else
                do { assert_opt (abuts_gt other_range my_range);
                     l \<leftarrow> range_last my_range; x \<leftarrow> get_buffer_offset sg my_range l;
                     f \<leftarrow> range_first other_range; y \<leftarrow> get_buffer_offset other other_range f;
                     if x + 1 \<noteq> y then Some (False, sg) else Some (True, merge_names sg other) }
          | _ \<Rightarrow> Some (False, sg) }"

definition segment_ops :: "bheap \<Rightarrow> (u64, segment) rm_value_ops" where
  "segment_ops h =
     \<lparr>vo_removing = (\<lambda>my_range sg. do { assert_opt (\<not> range_empty my_range); Some sg }),
      vo_truncate = (\<lambda>my_range new_end sg.
         do { f \<leftarrow> range_first my_range; l \<leftarrow> range_last my_range;
              assert_opt (new_end > f \<and> new_end \<le> l); Some sg }),
      vo_merge = seg_merge h,
      vo_split = (\<lambda>my_range new_end sg.
         do { f \<leftarrow> range_first my_range;
              right \<leftarrow> set_buffer_offset h sg (buffer_offset sg + new_end - f);
              Some (sg, right) }),
      vo_default = segment_default\<rparr>"

end
