(* ===== verification/MemoryMaps.thy ===== *)
theory MemoryMaps
  imports Segments
begin

declare One_nat_def [simp del]

text \<open>
  The operations of the class \<open>MemoryMap\<close> of \<^verbatim>\<open>src/frontend/BinaryFormats/MemoryMap.h\<close> and \<^verbatim>\<open>MemoryMap.C\<close>. The state of a
  map is the heap of buffers together with its list of segments. A failing assertion, or a call with undefined
  behaviour, is \<open>None\<close>, and an exception a value of \<open>mm_error\<close>.
\<close>

datatype mm_error =
    Inconsistent extent segment extent segment
  | NotMapped u64
  | NoFreeSpace u64

datatype copy_level = COPY_SHALLOW | COPY_DEEP | COPY_ON_WRITE

type_synonym mm_state = "bheap \<times> memory_map"

section \<open>Construction and mapping\<close>

definition mm_clear :: "bheap \<Rightarrow> memory_map \<Rightarrow> memory_map option" where
  "mm_clear h m = rm_clear (segment_ops h) m True"

fun deep_copy :: "bheap \<Rightarrow> memory_map \<Rightarrow> mm_state option" where
  "deep_copy h [] = Some (h, [])"
| "deep_copy h ((r, sg) # m) =
     do { b \<leftarrow> sg_buffer sg;
          let (b', h) = buffer_clone h b;
          (h, m) \<leftarrow> deep_copy h m;
          Some (h, (r, set_buffer (set_cow sg False) (Some b')) # m) }"

definition mm_init :: "bheap \<Rightarrow> memory_map \<Rightarrow> copy_level \<Rightarrow> mm_state option" where
  "mm_init h other level =
     (case level of
        COPY_SHALLOW \<Rightarrow> Some (h, other)
      | COPY_DEEP \<Rightarrow> deep_copy h other
      | COPY_ON_WRITE \<Rightarrow> Some (h, map (\<lambda>(r, sg). (r, set_cow sg True)) other))"

text \<open>
  Inserting a segment asks its neighbours, before and behind the new range, to merge, and that may allocate the
  storage of anonymous buffers. What \<open>make_hole\<close> removes lies inside the range, so the neighbours are
  those of the map before the call.
\<close>

definition neighbour_allocs :: "bheap \<Rightarrow> memory_map \<Rightarrow> nat \<Rightarrow> segment \<Rightarrow> bheap" where
  "neighbour_allocs h m i sg =
     (if i = length m then h
      else case (sg_buffer sg, sg_buffer (snd (m ! i))) of
        (Some b, Some c) \<Rightarrow> data_ptr_allocs h b c
      | _ \<Rightarrow> h)"

definition insert_allocs :: "bheap \<Rightarrow> memory_map \<Rightarrow> extent \<Rightarrow> segment \<Rightarrow> bheap" where
  "insert_allocs h m rng sg =
     (let h = neighbour_allocs h m
                (if r_first rng > range_minimum then rm_find m (r_first rng - 1) else length m) sg
      in neighbour_allocs h m
           (if r_last rng < range_maximum then rm_find m (r_last rng + 1) else length m) sg)"

definition segments_insert :: "bheap \<Rightarrow> memory_map \<Rightarrow> extent \<Rightarrow> segment \<Rightarrow> bool \<Rightarrow> (mm_state \<times> nat) option" where
  "segments_insert h m rng sg make_hole =
     do { (m', i) \<leftarrow> rm_insert (segment_ops h) m rng sg make_hole;
          Some ((if i = length m' then h else insert_allocs h m rng sg, m'), i) }"

definition mm_insert :: "bheap \<Rightarrow> memory_map \<Rightarrow> extent \<Rightarrow> segment \<Rightarrow> bool \<Rightarrow> (mm_error option \<times> mm_state) option" where
  "mm_insert h m rng sg erase_prior =
     do { ((h, m), inserted) \<leftarrow> segments_insert h m rng sg erase_prior;
          if inserted = length m then
            do { f \<leftarrow> range_first rng;
                 let found = rm_lower_bound m f;
                 assert_opt (found \<noteq> length m);
                 assert_opt (range_overlaps rng (fst (m ! found)));
                 Some (Some (Inconsistent rng sg (fst (m ! found)) (snd (m ! found))), (h, m)) }
          else Some (None, (h, m)) }"

lemma lower_bound_last: "rm_lower_bound m a < length m \<Longrightarrow> a \<le> r_last (fst (m ! rm_lower_bound m a))"
  using nth_length_takeWhile [of "\<lambda>e. r_last (fst e) < a" m] by (simp add: rm_lower_bound_def)

lemma find_last: "rm_find m a < length m \<Longrightarrow> a \<le> r_last (fst (m ! rm_find m a))"
  using lower_bound_last [of m a] by (auto simp: rm_find_def Let_def split: if_splits)

text \<open>\<open>exists\<close> walks over the segments of the range.\<close>

function exists_loop :: "memory_map \<Rightarrow> extent \<Rightarrow> u32 \<Rightarrow> bool option" where
  "exists_loop m rng required_perms =
     (if \<not> range_empty rng then
        let found = rm_find m (r_first rng)
        in if found < length m then
             let found_range = fst (m ! found)
             in do { assert_opt (\<not> begins_before rng found_range True);
                     if (mapperms (snd (m ! found)) AND required_perms) \<noteq> required_perms then Some False
                     else do { fl \<leftarrow> range_last found_range;
                               if fl \<ge> r_last rng then Some True
                               else do { rng \<leftarrow> range_inin (fl + 1) (r_last rng);
                                         exists_loop m rng required_perms } } }
           else None
      else Some True)"
  by pat_completeness auto
termination
proof (relation "measure (\<lambda>(m, r, p). unat (r_last r) + 1 - unat (r_first r))", simp, clarsimp)
  fix m :: memory_map and rng r' :: extent and fl
  assume r: "\<not> range_empty rng" "rm_find m (r_first rng) < length m"
    "range_last (fst (m ! rm_find m (r_first rng))) = Some fl" "\<not> r_last rng \<le> fl" "range_inin (fl + 1) (r_last rng) = Some r'"
  have fl: "r_first rng \<le> fl" using find_last [OF r(2)] r(3) by (simp add: range_last_def bind_eq_Some_conv)
  have "fl \<noteq> -1" using r(4) by auto
  then have "unat (fl + 1) = Suc (unat fl)" by (rule unat_plus_one)
  moreover have "r_first r' = fl + 1" "r_last r' = r_last rng"
    using r(5) by (auto simp: range_inin_def bind_eq_Some_conv range_default_def)
  ultimately show "unat (r_last r') + 1 - unat (r_first r') < unat (r_last rng) + 1 - unat (r_first rng)"
    using fl r(4) by (simp add: word_le_nat_alt)
qed

declare exists_loop.simps [simp del]

definition mm_exists :: "memory_map \<Rightarrow> extent \<Rightarrow> u32 \<Rightarrow> bool option" where
  "mm_exists m rng required_perms =
     do { c \<leftarrow> rm_contains_range m rng;
          if \<not> c then Some False
          else if required_perms = 0 then Some True
          else exists_loop m rng required_perms }"

definition mm_exists_va :: "memory_map \<Rightarrow> u64 \<Rightarrow> u32 \<Rightarrow> bool option" where
  "mm_exists_va m va required_perms = mm_exists m (range_unit va) required_perms"

definition mm_erase :: "bheap \<Rightarrow> memory_map \<Rightarrow> extent \<Rightarrow> memory_map option" where
  "mm_erase h m rng = rm_erase (segment_ops h) m rng"

fun erase_segment_loop :: "bheap \<Rightarrow> memory_map \<Rightarrow> segment \<Rightarrow> memory_map \<Rightarrow> memory_map option" where
  "erase_segment_loop h m sg [] = Some m"
| "erase_segment_loop h m sg ((r, s) # si) =
     (if segment_eq sg s then mm_erase h m r else erase_segment_loop h m sg si)"

definition mm_erase_segment :: "bheap \<Rightarrow> memory_map \<Rightarrow> segment \<Rightarrow> memory_map option" where
  "mm_erase_segment h m sg = erase_segment_loop h m sg m"

definition mm_at :: "memory_map \<Rightarrow> u64 \<Rightarrow> mm_error + extent \<times> segment" where
  "mm_at m va = (let found = rm_find m va in if found = length m then Inl (NotMapped va) else Inr (m ! found))"

section \<open>Free space\<close>

definition align_up :: "u64 \<Rightarrow> u64 \<Rightarrow> u64 option" where
  "align_up addr almnt =
     do { assert_opt (almnt \<noteq> 0); Some (((addr + almnt - 1) div almnt) * almnt) }"

text \<open>The loop of \<open>find_free\<close>; \<open>fmi\<close> is a position in the free list, and the result is \<open>None\<close> at its end.\<close>

function free_loop :: "extent_map \<Rightarrow> u64 \<Rightarrow> u64 \<Rightarrow> nat \<Rightarrow> u64 option option" where
  "free_loop free_map sz alignment fmi =
     (if fmi \<le> length free_map then
        let fmi = rm_first_fit free_map sz fmi
        in if fmi = length free_map then Some None
           else do { f \<leftarrow> range_first (fst (free_map ! fmi)); l \<leftarrow> range_last (fst (free_map ! fmi));
                     free_va \<leftarrow> align_up f alignment;
                     let free_sz = (if free_va > l then 0 else l + 1 - free_va);
                     if free_sz > sz then Some (Some free_va)
                     else free_loop free_map sz alignment (fmi + 1) }
      else None)"
  by pat_completeness auto
termination
proof (relation "measure (\<lambda>(m, _, _, i). Suc (length m) - i)", simp, clarsimp)
  fix m :: extent_map and sz i
  assume "i \<le> length m"
  then show "length m - rm_first_fit m sz i < Suc (length m) - i"
    using first_fit_correct(1) [where m = m and sz = sz and start = i] by simp
qed

declare free_loop.simps [simp del]

definition mm_find_free :: "memory_map \<Rightarrow> u64 \<Rightarrow> u64 \<Rightarrow> u64 \<Rightarrow> (mm_error + u64) option" where
  "mm_find_free m start_va sz alignment =
     do { free_map \<leftarrow> rm_invert range_map_void m;
          va \<leftarrow> free_loop free_map sz alignment (rm_lower_bound free_map start_va);
          Some (case va of None \<Rightarrow> Inl (NoFreeSpace sz) | Some va \<Rightarrow> Inr va) }"

definition mm_find_last_free :: "memory_map \<Rightarrow> u64 \<Rightarrow> (mm_error + u64) option" where
  "mm_find_last_free m max_va =
     do { free_map \<leftarrow> rm_invert range_map_void m;
          let fmi = rm_find_prior free_map max_va;
          if fmi = length free_map then Some (Inl (NoFreeSpace 1))
          else do { f \<leftarrow> range_first (fst (free_map ! fmi)); Some (Inr f) } }"

section \<open>Visitors\<close>

text \<open>A visitor is an object with a state of its own; \<open>operator()\<close> returns its answer and the state after the call.\<close>

type_synonym 's visitor = "'s \<Rightarrow> extent \<Rightarrow> segment \<Rightarrow> bool \<times> 's"

fun mm_traverse :: "'s visitor \<Rightarrow> 's \<Rightarrow> memory_map \<Rightarrow> 's" where
  "mm_traverse visitor st [] = st"
| "mm_traverse visitor st ((r, sg) # si) = mm_traverse visitor (snd (visitor st r sg)) si"

fun prune_matches :: "'s visitor \<Rightarrow> 's \<Rightarrow> extent_map \<Rightarrow> memory_map \<Rightarrow> ('s \<times> extent_map) option" where
  "prune_matches predicate st matches [] = Some (st, matches)"
| "prune_matches predicate st matches ((r, sg) # si) =
     (let (b, st) = predicate st r sg
      in if b then do { (matches, _) \<leftarrow> rm_insert range_map_void matches r () True; prune_matches predicate st matches si }
         else prune_matches predicate st matches si)"

fun prune_erase :: "bheap \<Rightarrow> memory_map \<Rightarrow> extent_map \<Rightarrow> memory_map option" where
  "prune_erase h m [] = Some m"
| "prune_erase h m ((r, _) # mi) = do { m \<leftarrow> rm_erase (segment_ops h) m r; prune_erase h m mi }"

definition mm_prune :: "bheap \<Rightarrow> memory_map \<Rightarrow> 's visitor \<Rightarrow> 's \<Rightarrow> ('s \<times> memory_map) option" where
  "mm_prune h m predicate st =
     do { (st, matches) \<leftarrow> prune_matches predicate st [] m; m \<leftarrow> prune_erase h m matches; Some (st, m) }"

definition perms_predicate :: "u32 \<Rightarrow> u32 \<Rightarrow> unit visitor" where
  "perms_predicate required prohibited st r sg =
     ((0 \<noteq> required \<and> 0 = (mapperms sg AND required)) \<or> 0 \<noteq> (mapperms sg AND prohibited), st)"

definition mm_prune_perms :: "bheap \<Rightarrow> memory_map \<Rightarrow> u32 \<Rightarrow> u32 \<Rightarrow> memory_map option" where
  "mm_prune_perms h m required prohibited =
     do { (_, m) \<leftarrow> mm_prune h m (perms_predicate required prohibited) (); Some m }"

definition va_extents :: "memory_map \<Rightarrow> extent_map option" where
  "va_extents m = extent_map_of m"

section \<open>Reading\<close>

text \<open>What a read stores is a list of bytes, whose length is the number of bytes it reports.\<close>

definition mm_read1 :: "bheap \<Rightarrow> memory_map \<Rightarrow> u64 \<Rightarrow> u64 \<Rightarrow> u32 \<Rightarrow> u8 list option" where
  "mm_read1 h m start_va desired req_perms =
     (let found = rm_find m start_va
      in if found = length m then Some []
         else let (rng, sg) = m ! found
              in do { assert_opt (range_contains rng (range_unit start_va) False);
                      if (mapperms sg AND req_perms) \<noteq> req_perms \<or> seg_check h sg rng \<noteq> None then Some []
                      else do { off \<leftarrow> get_buffer_offset sg rng start_va;
                                b \<leftarrow> sg_buffer sg;
                                Some (buffer_read h b off desired) } })"

lemma read1_length:
  "mm_read1 h m va n perms = Some bs \<Longrightarrow> length bs \<le> unat n"
  by (auto simp: mm_read1_def case_prod_unfold Let_def bind_eq_Some_conv unat_span split: if_splits)

function read_loop :: "bheap \<Rightarrow> memory_map \<Rightarrow> u64 \<Rightarrow> u64 \<Rightarrow> u32 \<Rightarrow> u64 \<Rightarrow> (u8 list \<times> u64) option" where
  "read_loop h m start_va desired req_perms total_copied =
     (if total_copied < desired then
        do { bytes \<leftarrow> mm_read1 h m (start_va + total_copied) (desired - total_copied) req_perms;
             if bytes = [] then Some ([], total_copied)
             else do { (rest, total) \<leftarrow>
                         read_loop h m start_va desired req_perms (total_copied + of_nat (length bytes));
                       Some (bytes @ rest, total) } }
      else Some ([], total_copied))"
  by pat_completeness auto

text \<open>The progress of the loops that copy, shared by \<open>read\<close> and \<open>write\<close>.\<close>

lemma copy_progress:
  assumes "t < (d :: u64)" "0 < k" "k \<le> unat (d - t)"
  shows "unat (d - (t + of_nat k)) < unat (d - t)" "unat (t + of_nat k) = unat t + k" "t + of_nat k \<le> d"
proof -
  have dt: "unat (d - t) = unat d - unat t" using assms(1) by (simp add: unat_sub word_less_nat_alt word_le_nat_alt)
  have k: "unat (of_nat k :: u64) = k"
    using assms(3) unat_less_length_power [of "d - t"] by (intro unat_of_nat_less) simp
  have lt: "unat t + k \<le> unat d" using assms dt by (simp add: word_less_nat_alt)
  then have "unat t + k < 2 ^ 64" using unat_less_length_power [of d] by simp
  then show u: "unat (t + of_nat k) = unat t + k" by (simp add: unat_word_ariths k)
  then show le: "t + of_nat k \<le> d" using lt by (simp add: word_le_nat_alt)
  have "unat (d - (t + of_nat k)) = unat d - (unat t + k)" using le by (simp add: unat_sub u)
  then show "unat (d - (t + of_nat k)) < unat (d - t)" using dt lt assms(2) by simp
qed

termination read_loop
proof (relation "measure (\<lambda>(h, m, va, d, p, t). unat (d - t))", simp)
  fix h m va p and d t :: u64 and bs
  assume "t < d" "mm_read1 h m (va + t) (d - t) p = Some bs" "bs \<noteq> []"
  then show "((h, m, va, d, p, t + of_nat (length bs)), h, m, va, d, p, t) \<in> measure (\<lambda>(h, m, va, d, p, t). unat (d - t))"
    using copy_progress(1) [of t d "length bs"] read1_length by simp
qed

declare read_loop.simps [simp del]

text \<open>
  \<open>read\<close> into a buffer, which it fills up with zeros, and with a null pointer, which it hands to \<open>memset\<close>: that is
  defined only if there is nothing left to fill.
\<close>

definition mm_read :: "bheap \<Rightarrow> memory_map \<Rightarrow> bool \<Rightarrow> u64 \<Rightarrow> u64 \<Rightarrow> u32 \<Rightarrow> (u8 list \<times> u64) option" where
  "mm_read h m has_dst start_va desired req_perms =
     do { (bytes, total) \<leftarrow> read_loop h m start_va desired req_perms 0;
          if has_dst then Some (bytes @ replicate (unat (desired - total)) 0, total)
          else do { assert_opt (desired - total = 0); Some ([], total) } }"

function read_list_loop :: "bheap \<Rightarrow> memory_map \<Rightarrow> u64 \<Rightarrow> u64 \<Rightarrow> u32 \<Rightarrow> u8 list option" where
  "read_list_loop h m va desired req_perms =
     (if desired > 0 then
        do { can_read \<leftarrow> mm_read1 h m va desired req_perms;
             if can_read = [] then Some []
             else do { did_read \<leftarrow> mm_read1 h m va desired req_perms;
                       assert_opt (length did_read = length can_read);
                       rest \<leftarrow> read_list_loop h m (va + of_nat (length did_read)) (desired - of_nat (length can_read)) req_perms;
                       Some (did_read @ rest) } }
      else Some [])"
  by pat_completeness auto
termination
proof (relation "measure (\<lambda>(h, m, va, d, p). unat d)", simp)
  fix h m va p and d :: u64 and bs bs'
  assume "0 < d" "mm_read1 h m va d p = Some bs" "bs \<noteq> []"
  then show "((h, m, va + of_nat (length bs'), d - of_nat (length bs), p), h, m, va, d, p) \<in> measure (\<lambda>(h, m, va, d, p). unat d)"
    using copy_progress(1) [of 0 d "length bs"] read1_length [of h m va d p bs] by simp
qed

declare read_list_loop.simps [simp del]

definition mm_read_list :: "bheap \<Rightarrow> memory_map \<Rightarrow> u64 \<Rightarrow> u64 \<Rightarrow> u32 \<Rightarrow> u8 list option" where
  "mm_read_list h m va desired req_perms = read_list_loop h m va desired req_perms"

section \<open>Writing\<close>

text \<open>Before a write to a segment that is marked copy-on-write, all segments of the map with its buffer get a copy.\<close>

definition cow_segments :: "nat \<Rightarrow> nat \<Rightarrow> memory_map \<Rightarrow> memory_map" where
  "cow_segments old_buf new_buf m =
     map (\<lambda>(r, sg). (r, if sg_buffer sg = Some old_buf then set_cow (set_buffer sg (Some new_buf)) False else sg)) m"

definition mm_write1 ::
  "bheap \<Rightarrow> memory_map \<Rightarrow> u8 list option \<Rightarrow> u64 \<Rightarrow> u64 \<Rightarrow> u32 \<Rightarrow> (u64 \<times> mm_state) option" where
  "mm_write1 h m src start_va desired req_perms =
     (let found = rm_find m start_va
      in if found = length m then Some (0, (h, m))
         else let (rng, sg) = m ! found
              in do { assert_opt (range_contains rng (range_unit start_va) False);
                      if (mapperms sg AND req_perms) \<noteq> req_perms \<or> seg_check h sg rng \<noteq> None then Some (0, (h, m))
                      else do { old_buf \<leftarrow> sg_buffer sg;
                                let (new_buf, h) = (if copy_on_write sg then buffer_clone h old_buf else (old_buf, h));
                                let m = (if copy_on_write sg then cow_segments old_buf new_buf m else m);
                                let sg = snd (m ! found);
                                assert_opt (sg_buffer sg = Some new_buf);
                                assert_opt (\<not> copy_on_write sg);
                                off \<leftarrow> get_buffer_offset sg rng start_va;
                                let (n, h) = buffer_write h new_buf src off desired;
                                Some (n, (h, m)) } })"

lemma buffer_write_count: "fst (buffer_write h b src off n) \<le> n"
  by (cases "bf_class (buf h b)"; cases src; cases "p_data (buf h b)")
    (simp_all add: buffer_write_def anon_write_def extern_write_def Let_def)

lemma write1_count:
  "mm_write1 h m src va n perms = Some (k, s) \<Longrightarrow> k \<le> n"
  using buffer_write_count
  by (auto simp: mm_write1_def case_prod_unfold Let_def bind_eq_Some_conv split: if_splits)

function write_loop ::
  "bheap \<Rightarrow> memory_map \<Rightarrow> u8 list option \<Rightarrow> u64 \<Rightarrow> u64 \<Rightarrow> u32 \<Rightarrow> u64 \<Rightarrow> (u64 \<times> mm_state) option" where
  "write_loop h m src start_va desired req_perms total_copied =
     (if total_copied < desired then
        do { (n, (h, m)) \<leftarrow>
               mm_write1 h m (map_option (drop (unat total_copied)) src) (start_va + total_copied)
                 (desired - total_copied) req_perms;
             if n = 0 then Some (total_copied, (h, m))
             else write_loop h m src start_va desired req_perms (total_copied + n) }
      else Some (total_copied, (h, m)))"
  by pat_completeness auto
termination
proof (relation "measure (\<lambda>(h, m, src, va, d, p, t). unat (d - t))", simp, clarsimp)
  fix h m src va p h' m' and d t n :: u64
  assume "t < d" "mm_write1 h m (map_option (drop (unat t)) src) (va + t) (d - t) p = Some (n, h', m')" "n \<noteq> 0"
  then show "unat (d - (t + n)) < unat (d - t)"
    using copy_progress(1) [of t d "unat n"] write1_count by (simp add: unat_gt_0 word_le_nat_alt)
qed

declare write_loop.simps [simp del]

definition mm_write ::
  "bheap \<Rightarrow> memory_map \<Rightarrow> u8 list option \<Rightarrow> u64 \<Rightarrow> u64 \<Rightarrow> u32 \<Rightarrow> (u64 \<times> mm_state) option" where
  "mm_write h m src start_va desired req_perms = write_loop h m src start_va desired req_perms 0"

section \<open>Protection\<close>

text \<open>
  The body of the loop of \<open>mprotect\<close> for the segment at position \<open>found\<close> and the part \<open>rng\<close> of the range that
  begins in it or before it.
\<close>

definition protect_segment :: "bheap \<Rightarrow> memory_map \<Rightarrow> nat \<Rightarrow> extent \<Rightarrow> u32 \<Rightarrow> mm_state option" where
  "protect_segment h m found rng perms =
     (let (segment_range, sg) = m ! found
      in if mapperms sg \<noteq> perms then
           if range_contains rng segment_range False
           then Some (h, m [found := (segment_range, set_mapperms sg perms)])
           else do { assert_opt (begins_before segment_range rng False);
                     new_range \<leftarrow> range_inin (r_first rng) (min (r_last rng) (r_last segment_range));
                     off \<leftarrow> get_buffer_offset sg segment_range (r_first new_range);
                     new_segment \<leftarrow> set_buffer_offset h (set_mapperms sg perms) off;
                     (s, _) \<leftarrow> segments_insert h m new_range new_segment True;
                     Some s }
         else Some (h, m))"

function mprotect_loop ::
  "bheap \<Rightarrow> memory_map \<Rightarrow> extent \<Rightarrow> u32 \<Rightarrow> bool \<Rightarrow> (mm_error option \<times> mm_state) option" where
  "mprotect_loop h m rng perms relax =
     (if \<not> range_empty rng then
        let found = rm_lower_bound m (r_first rng);
            unmapped = (if \<not> relax then Some (NotMapped (r_first rng)) else None)
        in if \<not> found < length m \<or> right_of (fst (m ! found)) rng then Some (unmapped, (h, m))
           else if begins_after (fst (m ! found)) rng True \<and> \<not> relax then Some (unmapped, (h, m))
           else do { rng \<leftarrow> (if begins_after (fst (m ! found)) rng True
                             then range_inin (r_first (fst (m ! found))) (r_last rng) else Some rng);
                     let segment_last = r_last (fst (m ! found));
                     (h, m) \<leftarrow> protect_segment h m found rng perms;
                     if segment_last \<ge> r_last rng then Some (None, (h, m))
                     else do { rng \<leftarrow> range_inin (segment_last + 1) (r_last rng);
                               mprotect_loop h m rng perms relax } }
      else Some (None, (h, m)))"
  by pat_completeness auto
termination
proof (relation "measure (\<lambda>(h, m, r, p, x). unat (r_last r) + 1 - unat (r_first r))", simp, clarsimp)
  fix m :: memory_map and rng rng1 rng2 :: extent and relax
  let ?s = "fst (m ! rm_lower_bound m (r_first rng))"
  assume ne: "\<not> range_empty rng" and f: "rm_lower_bound m (r_first rng) < length m"
    and r1: "(if begins_after ?s rng True then range_inin (r_first ?s) (r_last rng) else Some rng) = Some rng1"
    and l: "\<not> r_last rng1 \<le> r_last ?s" and r2: "range_inin (r_last ?s + 1) (r_last rng1) = Some rng2"
  have s: "r_first rng \<le> r_last ?s" using lower_bound_last [OF f] .
  have last1: "r_last rng1 = r_last rng" using r1 by (auto simp: range_inin_def bind_eq_Some_conv range_default_def split: if_splits)
  have "r_last ?s \<noteq> -1" using l by auto
  then have "unat (r_last ?s + 1) = Suc (unat (r_last ?s))" by (rule unat_plus_one)
  moreover have "r_first rng2 = r_last ?s + 1" "r_last rng2 = r_last rng1"
    using r2 by (auto simp: range_inin_def bind_eq_Some_conv range_default_def)
  ultimately show "unat (r_last rng2) + 1 - unat (r_first rng2) < unat (r_last rng) + 1 - unat (r_first rng)"
    using s l last1 by (simp add: word_le_nat_alt)
qed

declare mprotect_loop.simps [simp del]

definition mprotect :: "bheap \<Rightarrow> memory_map \<Rightarrow> extent \<Rightarrow> u32 \<Rightarrow> bool \<Rightarrow> (mm_error option \<times> mm_state) option" where
  "mprotect h m rng perms relax = mprotect_loop h m rng perms relax"

end
