(* ===== verification/SegmentValues.thy ===== *)
theory SegmentValues
  imports MemoryMaps
begin

declare One_nat_def [simp del]

text \<open>
  Segments satisfy the contract of a range map's values: this is the interpretation \<open>seg\<close> of \<open>rm_value\<close>, from which
  the mapping operations of \<open>MemoryMap\<close> get their specifications.
\<close>

section \<open>What a segment maps an address to\<close>

definition seg_fits :: "bheap \<Rightarrow> extent \<Rightarrow> segment \<Rightarrow> bool" where
  "seg_fits h r sg =
     (case sg_buffer sg of
        None \<Rightarrow> True
      | Some b \<Rightarrow> b < length (bh_buffers h) \<and>
          unat (buffer_offset sg) + (unat (r_last r) - unat (r_first r)) < unat (p_size (buf h b)))"

definition seg_ok :: "bheap \<Rightarrow> extent \<Rightarrow> segment \<Rightarrow> bool" where
  "seg_ok h r sg \<longleftrightarrow> heap_ok h \<and> seg_fits h r sg"

definition seg_cell :: "extent \<Rightarrow> segment \<Rightarrow> u64 \<Rightarrow> (nat \<times> nat) option \<times> u32" where
  "seg_cell r sg a =
     (map_option (\<lambda>b. (b, unat (buffer_offset sg) + (unat a - unat (r_first r)))) (sg_buffer sg), mapperms sg)"

lemma get_data_ptr_result:
  assumes "b < length (bh_buffers h)" "get_data_ptr h b = (Some p, h')"
  shows "p_data (buf h' b) = Some p" "p_data (buf h c) = Some q \<Longrightarrow> p_data (buf h' c) = Some q"
  using assms by (cases "bf_class (buf h b)"; auto simp: get_data_ptr_def Let_def anon_storage_buf split: if_splits)+

lemma same_data_eq:
  assumes "heap_ok h" "b < length (bh_buffers h)" "c < length (bh_buffers h)" "same_data h b c"
  shows "b = c"
proof -
  obtain p h1 where 1: "get_data_ptr h b = (p, h1)" by fastforce
  obtain q h2 where 2: "get_data_ptr h1 c = (q, h2)" by fastforce
  have pq: "p \<noteq> None" "p = q" using assms(4) 1 2 by (auto simp: same_data_def split: if_splits)
  then obtain a where a: "p = Some a" "q = Some a" by auto
  have ok1: "heap_ok h1" "same_shape h h1" using get_data_ptr_correct [OF assms(1,2)] 1 by simp_all
  then have len1: "c < length (bh_buffers h1)" "b < length (bh_buffers h1)" using assms(2,3) by (simp_all add: same_shape_def)
  have ok2: "heap_ok h2" "same_shape h1 h2" using get_data_ptr_correct [OF ok1(1) len1(1)] 2 by simp_all
  then have len2: "b < length (bh_buffers h2)" "c < length (bh_buffers h2)" using len1 by (simp_all add: same_shape_def)
  have "p_data (buf h1 b) = Some a" using get_data_ptr_result(1) [OF assms(2)] 1 a by simp
  then have "p_data (buf h2 b) = Some a" "p_data (buf h2 c) = Some a"
    using get_data_ptr_result [OF len1(1)] 2 a by auto
  then show ?thesis by (rule data_ptr_unique [OF ok2(1) len2])
qed

lemma unat_offset:
  fixes off :: u64
  assumes "unat off + (unat e - unat f) < unat (sz :: u64)" "f \<le> e"
  shows "unat (off + e - f) = unat off + (unat e - unat f)"
proof -
  have eq: "off + e - f = off + (e - f)" by simp
  have "unat (e - f) = unat e - unat f" using assms(2) by (simp add: unat_sub)
  moreover have "unat off + (unat e - unat f) < 2 ^ 64" using assms(1) unat_less_length_power [of sz] by simp
  ultimately show ?thesis unfolding eq by (simp add: unat_word_ariths)
qed

lemma seg_fits_mono:
  assumes "seg_fits h r sg" "r_first r' = r_first r" "r_last r' \<le> r_last r"
  shows "seg_fits h r' sg"
  using assms by (auto simp: seg_fits_def word_le_nat_alt split: option.splits)

lemma seg_split_law:
  assumes "r_first r < e" "e \<le> r_last r" "seg_ok h r sg"
  shows "\<exists>right. vo_split (segment_ops h) r e sg = Some (sg, right) \<and>
    seg_ok h \<lparr>r_first = e, r_last = r_last r\<rparr> right \<and>
    (\<forall>a. e \<le> a \<and> a \<le> r_last r \<longrightarrow> seg_cell \<lparr>r_first = e, r_last = r_last r\<rparr> right a = seg_cell r sg a)"
proof -
  let ?off = "buffer_offset sg + e - r_first r"
  have ord: "unat (r_first r) < unat e" "unat e \<le> unat (r_last r)"
    using assms(1,2) by (simp_all add: word_less_nat_alt word_le_nat_alt)
  have f: "range_first r = Some (r_first r)" using assms(1,2) by (simp add: range_first_def within_not_empty)
  show ?thesis
  proof (cases "sg_buffer sg")
    case None
    then show ?thesis using assms(3)
      by (simp add: segment_ops_def f set_buffer_offset_def seg_ok_def seg_fits_def seg_cell_def)
  next
    case (Some b)
    have b: "b < length (bh_buffers h)" "unat (buffer_offset sg) + (unat (r_last r) - unat (r_first r)) < unat (p_size (buf h b))"
      using assms(3) Some by (simp_all add: seg_ok_def seg_fits_def)
    have off: "unat ?off = unat (buffer_offset sg) + (unat e - unat (r_first r))"
      by (rule unat_offset [where sz = "p_size (buf h b)"]) (use b(2) ord assms(1) in \<open>simp_all\<close>)
    then have lt: "?off < p_size (buf h b)" using b(2) ord by (simp add: word_less_nat_alt)
    have "seg_cell \<lparr>r_first = e, r_last = r_last r\<rparr> (sg\<lparr>buffer_offset := ?off\<rparr>) a = seg_cell r sg a"
      if "e \<le> a" for a using that ord by (simp add: seg_cell_def Some off word_le_nat_alt)
    moreover have "seg_ok h \<lparr>r_first = e, r_last = r_last r\<rparr> (sg\<lparr>buffer_offset := ?off\<rparr>)"
      using assms(3) b ord by (simp add: seg_ok_def seg_fits_def Some off)
    moreover have "vo_split (segment_ops h) r e sg = Some (sg, sg\<lparr>buffer_offset := ?off\<rparr>)"
      using lt by (simp add: segment_ops_def f set_buffer_offset_def Some)
    ultimately show ?thesis by blast
  qed
qed

lemma seg_truncate_law:
  assumes "r_first r < e" "e \<le> r_last r" "seg_ok h r sg"
  shows "vo_truncate (segment_ops h) r e sg = Some sg" "seg_ok h \<lparr>r_first = r_first r, r_last = e - 1\<rparr> sg"
proof -
  show "vo_truncate (segment_ops h) r e sg = Some sg"
    using assms(1,2) by (simp add: segment_ops_def range_first_def range_last_def within_not_empty)
  have "e - 1 \<le> r_last r" using word_pred_iffs(3) [OF assms(1)] assms(2) by simp
  then show "seg_ok h \<lparr>r_first = r_first r, r_last = e - 1\<rparr> sg"
    using assms(3) seg_fits_mono [of h r sg "\<lparr>r_first = r_first r, r_last = e - 1\<rparr>"] by (simp add: seg_ok_def)
qed

lemma merge_names_simps [simp]:
  "sg_buffer (merge_names s t) = sg_buffer s" "buffer_offset (merge_names s t) = buffer_offset s"
  "mapperms (merge_names s t) = mapperms s" "copy_on_write (merge_names s t) = copy_on_write s"
  by (simp_all add: merge_names_def set_name_pairs_def case_prod_unfold Let_def)

lemma seg_cell_names [simp]: "seg_cell r (merge_names s t) = seg_cell r s"
  by (rule ext) (simp add: seg_cell_def)

lemma seg_fits_names [simp]: "seg_fits h r (merge_names s t) = seg_fits h r s"
  by (simp add: seg_fits_def split: option.split)

text \<open>Two abutting ranges whose segments continue each other in one buffer are one segment over both ranges.\<close>

definition continues :: "extent \<Rightarrow> segment \<Rightarrow> segment \<Rightarrow> bool" where
  "continues s w v \<longleftrightarrow> sg_buffer w = sg_buffer v \<and> mapperms w = mapperms v \<and>
     unat (buffer_offset v) = unat (buffer_offset w) + (unat (r_last s) - unat (r_first s)) + 1"

lemma abuts_ltE:
  assumes "abuts_lt s r" "r_first r \<noteq> 0"
  shows "unat (r_first r) = Suc (unat (r_last s))" "\<not> range_empty s" "\<not> range_empty r"
    "unat (r_first s) \<le> unat (r_last s)" "unat (r_first r) \<le> unat (r_last r)"
proof -
  show ne: "\<not> range_empty s" "\<not> range_empty r" using abuts_ltD assms(1) by blast+
  have "r_first r = r_last s + 1" "r_last s \<noteq> -1" using assms by (auto simp: abuts_lt_def split: if_splits)
  then show "unat (r_first r) = Suc (unat (r_last s))" by (simp add: unat_plus_one)
  show "unat (r_first s) \<le> unat (r_last s)" "unat (r_first r) \<le> unat (r_last r)"
    using ne by (simp_all add: not_empty_le word_le_nat_alt)
qed

lemma joined:
  assumes "abuts_lt s r" "r_first r \<noteq> 0" "continues s w v" "seg_fits h r v" "seg_fits h s w"
  defines "J \<equiv> \<lparr>r_first = r_first s, r_last = r_last r\<rparr>"
  shows "seg_fits h J w" "a \<in> set_of s \<Longrightarrow> seg_cell J w a = seg_cell s w a" "a \<in> set_of r \<Longrightarrow> seg_cell J w a = seg_cell r v a"
proof -
  note u = abuts_ltE [OF assms(1,2)]
  show "seg_fits h J w"
    using assms(3,4,5) u by (auto simp: seg_fits_def J_def continues_def split: option.splits)
  show "a \<in> set_of s \<Longrightarrow> seg_cell J w a = seg_cell s w a" by (simp add: seg_cell_def J_def)
  show "a \<in> set_of r \<Longrightarrow> seg_cell J w a = seg_cell r v a"
    using assms(3) u by (cases "sg_buffer v") (auto simp: seg_cell_def J_def continues_def word_le_nat_alt)
qed

lemma last_offset:
  assumes "seg_fits h r v" "sg_buffer v = Some b" "\<not> range_empty r"
  shows "get_buffer_offset v r (r_last r) = Some (buffer_offset v + r_last r - r_first r)"
    "get_buffer_offset v r (r_first r) = Some (buffer_offset v)"
    "unat (buffer_offset v + r_last r - r_first r + 1) = unat (buffer_offset v) + (unat (r_last r) - unat (r_first r)) + 1"
proof -
  have le: "r_first r \<le> r_last r" using assms(3) by (simp add: not_empty_le)
  then show "get_buffer_offset v r (r_last r) = Some (buffer_offset v + r_last r - r_first r)"
    "get_buffer_offset v r (r_first r) = Some (buffer_offset v)"
    using assms(3) by (simp_all add: get_buffer_offset_def range_first_def range_contains_def begins_after_def ends_before_def)
  have b: "unat (buffer_offset v) + (unat (r_last r) - unat (r_first r)) < unat (p_size (buf h b))"
    using assms(1,2) by (simp add: seg_fits_def)
  note off = unat_offset [OF b le]
  have "buffer_offset v + r_last r - r_first r \<noteq> -1"
    using off b by (metis less_max_word_iff word_less_nat_alt word_not_simps(3) less_trans)
  then show "unat (buffer_offset v + r_last r - r_first r + 1) = unat (buffer_offset v) + (unat (r_last r) - unat (r_first r)) + 1"
    by (simp add: unat_plus_one off)
qed

definition merge_result :: "bheap \<Rightarrow> extent \<Rightarrow> extent \<Rightarrow> extent \<Rightarrow> segment \<Rightarrow> segment \<Rightarrow> bool \<Rightarrow> segment \<Rightarrow> bool" where
  "merge_result h J r s v w b v' \<longleftrightarrow>
     (if b then seg_ok h J v' \<and> (\<forall>a \<in> set_of r. seg_cell J v' a = seg_cell r v a) \<and>
        (\<forall>a \<in> set_of s. seg_cell J v' a = seg_cell s w a)
      else seg_ok h r v' \<and> (\<forall>a \<in> set_of r. seg_cell r v' a = seg_cell r v a))"

lemma merge_result_no: "seg_ok h r v \<Longrightarrow> merge_result h J r s v w False v"
  by (simp add: merge_result_def)

text \<open>Segments of different buffers, data or permissions stay apart.\<close>

lemma seg_merge_apart:
  assumes "\<not> range_empty r" "\<not> range_empty s"
    and "\<not> (\<exists>b. sg_buffer v = Some b \<and> sg_buffer w = Some b \<and> same_data h b b \<and> mapperms v = mapperms w)"
    and "seg_ok h r v" "seg_ok h s w"
  shows "seg_merge h r s v w = Some (False, v)"
proof (cases "\<exists>b c. sg_buffer v = Some b \<and> sg_buffer w = Some c \<and> same_data h b c")
  case True
  then obtain b c where bc: "sg_buffer v = Some b" "sg_buffer w = Some c" "same_data h b c" by blast
  then have "b = c" using assms(4,5) by (intro same_data_eq) (auto simp: seg_ok_def seg_fits_def)
  then show ?thesis using bc assms(1-3) by (auto simp: seg_merge_def)
next
  case False
  then show ?thesis using assms(1,2) by (auto simp: seg_merge_def split: option.splits)
qed

lemma seg_merge_left_law:
  assumes "abuts_lt s r" "r_first r \<noteq> 0" "seg_ok h r v" "seg_ok h s w"
  shows "\<exists>b v'. seg_merge h r s v w = Some (b, v') \<and>
    merge_result h \<lparr>r_first = r_first s, r_last = r_last r\<rparr> r s v w b v'"
proof -
  note u = abuts_ltE [OF assms(1,2)]
  show ?thesis
  proof (cases "\<exists>b. sg_buffer v = Some b \<and> sg_buffer w = Some b \<and> same_data h b b \<and> mapperms v = mapperms w")
    case False
    from seg_merge_apart [OF u(3,2) False assms(3,4)] show ?thesis using merge_result_no [OF assms(3)] by blast
  next
    case True
    then obtain b where b: "sg_buffer v = Some b" "sg_buffer w = Some b" "same_data h b b" "mapperms v = mapperms w" by blast
    have fits: "seg_fits h r v" "seg_fits h s w" "heap_ok h" using assms(3,4) by (simp_all add: seg_ok_def)
    note off = last_offset [OF fits(2) b(2) u(2)] last_offset(2) [OF fits(1) b(1) u(3)]
    let ?x = "buffer_offset w + r_last s - r_first s + 1"
    have step: "seg_merge h r s v w =
        (if ?x \<noteq> buffer_offset v then Some (False, v)
         else do { sg \<leftarrow> set_buffer_offset h v (buffer_offset w); Some (True, merge_names sg w) })"
      using u b assms(1) off by (simp add: seg_merge_def range_first_def range_last_def)
    show ?thesis
    proof (cases "?x = buffer_offset v")
      case False
      then show ?thesis using merge_result_no [OF assms(3)] step by auto
    next
      case eq: True
      let ?v = "v\<lparr>buffer_offset := buffer_offset w\<rparr>"
      have "buffer_offset w < p_size (buf h b)"
        using fits(2) b(2) by (simp add: seg_fits_def word_less_nat_alt)
      then have merge: "seg_merge h r s v w = Some (True, merge_names ?v w)"
        using step eq b(1) by (simp add: set_buffer_offset_def)
      have cont: "continues s w v" using off(3) eq b by (simp add: continues_def)
      have same: "seg_fits h r' ?v = seg_fits h r' w" "seg_cell r' ?v = seg_cell r' w" for r'
        using b by (auto simp: seg_fits_def seg_cell_def)
      have "merge_result h \<lparr>r_first = r_first s, r_last = r_last r\<rparr> r s v w True (merge_names ?v w)"
        using joined [OF assms(1,2) cont fits(1,2)] fits(3)
        by (simp add: merge_result_def seg_ok_def same del: mem_set_of)
      with merge show ?thesis by blast
    qed
  qed
qed

lemma seg_merge_right_law:
  assumes "abuts_lt r s" "r_first s \<noteq> 0" "seg_ok h r v" "seg_ok h s w"
  shows "\<exists>b v'. seg_merge h r s v w = Some (b, v') \<and>
    merge_result h \<lparr>r_first = r_first r, r_last = r_last s\<rparr> r s v w b v'"
proof -
  note u = abuts_ltE [OF assms(1,2)]
  show ?thesis
  proof (cases "\<exists>b. sg_buffer v = Some b \<and> sg_buffer w = Some b \<and> same_data h b b \<and> mapperms v = mapperms w")
    case False
    from seg_merge_apart [OF u(2,3) False assms(3,4)] show ?thesis using merge_result_no [OF assms(3)] by blast
  next
    case True
    then obtain b where b: "sg_buffer v = Some b" "sg_buffer w = Some b" "same_data h b b" "mapperms v = mapperms w" by blast
    have fits: "seg_fits h r v" "seg_fits h s w" "heap_ok h" using assms(3,4) by (simp_all add: seg_ok_def)
    note offs = last_offset [OF fits(2) b(2) u(3)] last_offset [OF fits(1) b(1) u(2)]
    let ?x = "buffer_offset v + r_last r - r_first r + 1"
    have gt: "abuts_gt s r" using assms(1) by (auto simp: abuts_lt_def abuts_gt_def split: if_splits)
    have wrap: "buffer_offset w + r_last s - r_first s + 1 \<noteq> buffer_offset v" if "abuts_lt s r"
    proof
      assume eq: "buffer_offset w + r_last s - r_first s + 1 = buffer_offset v"
      have abut: "r_last s + 1 = r_first r" using that u by (simp add: abuts_lt_def)
      have last: "r_last s = -1"
      proof (rule ccontr)
        assume "r_last s \<noteq> -1"
        then have "unat (r_first r) = Suc (unat (r_last s))" using abut unat_plus_one [of "r_last s"] by simp
        then show False using u by linarith
      qed
      then have "unat (r_last s) = 2 ^ 64 - 1" "unat (r_first r) = 0"
        using abut by (simp_all add: unsigned_minus_1_eq_mask mask_eq_exp_minus_1)
      moreover have "unat (buffer_offset v) = unat (buffer_offset w) + (unat (r_last s) - unat (r_first s)) + 1"
        using offs(3) eq by simp
      moreover have "unat (buffer_offset v) + (unat (r_last r) - unat (r_first r)) < unat (p_size (buf h b))"
        using fits(1) b(1) by (simp add: seg_fits_def)
      moreover have "unat (p_size (buf h b)) < 2 ^ 64" using unat_less_length_power [of "p_size (buf h b)"] by simp
      moreover have "unat (r_first s) < 2 ^ 64" using unat_less_length_power [of "r_first s"] by simp
      ultimately show False using u by linarith
    qed
    have ne: "buffer_offset w + r_last s - r_first s + 1 \<noteq> buffer_offset v \<or> \<not> abuts_lt s r" using wrap by blast
    have step: "seg_merge h r s v w = (if abuts_lt s r \<or> ?x \<noteq> buffer_offset w then Some (False, v) else Some (True, merge_names v w))"
      using u b gt offs ne by (simp add: seg_merge_def range_first_def range_last_def)
    show ?thesis
    proof (cases "abuts_lt s r \<or> ?x \<noteq> buffer_offset w")
      case True
      then show ?thesis using merge_result_no [OF assms(3)] step by auto
    next
      case False
      then have merge: "seg_merge h r s v w = Some (True, merge_names v w)" using step by simp
      have cont: "continues r v w" using offs(6) False b by (simp add: continues_def)
      have "merge_result h \<lparr>r_first = r_first r, r_last = r_last s\<rparr> r s v w True (merge_names v w)"
        using joined [OF assms(1,2) cont fits(2,1)] fits(3)
        by (simp add: merge_result_def seg_ok_def del: mem_set_of)
      with merge show ?thesis by blast
    qed
  qed
qed

interpretation seg: rm_value "segment_ops h" "seg_ok h" seg_cell
proof (unfold_locales, goal_cases)
  case (1 r v)
  then show ?case by (simp add: segment_ops_def)
next
  case (2 r e v)
  then show ?case using seg_truncate_law [of r e h v] by (intro exI [of _ v]) (simp add: seg_cell_def)
next
  case (3 r e v)
  from seg_split_law [OF 3] seg_truncate_law(2) [OF 3] show ?case
    by (elim exE conjE, intro exI conjI) (assumption | simp add: seg_cell_def)+
next
  case (4 s r v w)
  from seg_merge_left_law [OF 4] show ?case by (simp add: segment_ops_def merge_result_def)
next
  case (5 r s v w)
  from seg_merge_right_law [OF 5] show ?case by (simp add: segment_ops_def merge_result_def)
qed

end
