(* ===== verification/MemoryMapCorrect.thy ===== *)
theory MemoryMapCorrect
  imports SegmentValues
begin

declare One_nat_def [simp del]

text \<open>
  The operations of \<open>MemoryMap\<close> against an abstract view: a map from addresses to a position in a buffer and
  permissions, and the byte that is found there.
\<close>

section \<open>The abstract view\<close>

definition mm_ok :: "bheap \<Rightarrow> memory_map \<Rightarrow> bool" where
  "mm_ok h m \<longleftrightarrow> heap_ok h \<and> rm_inv (seg_ok h) m"

definition mapped :: "memory_map \<Rightarrow> u64 \<Rightarrow> ((nat \<times> nat) option \<times> u32) option" where
  "mapped m a = rm_lookup seg_cell m a"

definition byte_of :: "bheap \<Rightarrow> (nat \<times> nat) option \<times> u32 \<Rightarrow> u8 option" where
  "byte_of h c = (case fst c of None \<Rightarrow> None | Some (b, i) \<Rightarrow> content h b i)"

definition mm_byte :: "bheap \<Rightarrow> memory_map \<Rightarrow> u64 \<Rightarrow> u8 option" where
  "mm_byte h m a = Option.bind (mapped m a) (byte_of h)"

definition allows :: "u32 \<Rightarrow> memory_map \<Rightarrow> u64 \<Rightarrow> bool" where
  "allows perms m a = (case mapped m a of None \<Rightarrow> False | Some (_, p) \<Rightarrow> (p AND perms) = perms)"

lemma mm_ok_rm: "mm_ok h m \<Longrightarrow> rm_ok m" "mm_ok h m \<Longrightarrow> heap_ok h" "mm_ok h m \<Longrightarrow> rm_inv (seg_ok h) m"
  by (simp_all add: mm_ok_def rm_inv_def)

lemma mm_ok_seg: "mm_ok h m \<Longrightarrow> (r, sg) \<in> set m \<Longrightarrow> seg_fits h r sg \<and> \<not> range_empty r"
  by (force simp: mm_ok_def rm_inv_def seg_ok_def rm_ok_def)

lemma mapped_Some:
  assumes "rm_ok m"
  shows "mapped m a = Some c \<longleftrightarrow> (\<exists>r sg. (r, sg) \<in> set m \<and> a \<in> set_of r \<and> c = seg_cell r sg a)"
  unfolding mapped_def rm_lookup_iff [OF assms] rm_cells_def by blast

lemma mapped_find:
  "rm_find m a < length m \<Longrightarrow> mapped m a = Some (seg_cell (fst (m ! rm_find m a)) (snd (m ! rm_find m a)) a)"
  by (simp add: mapped_def rm_lookup_def)

lemma mapped_None:
  assumes "rm_ok m"
  shows "mapped m a = None \<longleftrightarrow> rm_find m a = length m"
  by (simp add: mapped_def rm_lookup_def)

lemma mapped_dom: "rm_ok m \<Longrightarrow> mapped m a = None \<longleftrightarrow> a \<notin> rm_dom m"
  using find_cases [of m a] nth_mem unfolding mapped_def rm_lookup_def rm_dom_def by fastforce

text \<open>Changes of the heap that keep the shape of the buffers keep the invariant.\<close>

lemma seg_fits_shape: "same_shape h h' \<Longrightarrow> seg_fits h r sg \<Longrightarrow> seg_fits h' r sg"
  by (auto simp: seg_fits_def same_shape_def split: option.splits)

lemma mm_ok_shape:
  assumes "mm_ok h m" "same_shape h h'" "heap_ok h'"
  shows "mm_ok h' m"
  using assms seg_fits_shape [OF assms(2)] by (auto simp: mm_ok_def rm_inv_def seg_ok_def)

section \<open>Mapping and unmapping\<close>

definition same_contents :: "bheap \<Rightarrow> bheap \<Rightarrow> bool" where
  "same_contents h h' \<longleftrightarrow> heap_ok h' \<and> same_shape h h' \<and> (\<forall>b < length (bh_buffers h). \<forall>i. content h' b i = content h b i)"

lemma same_contents_refl: "heap_ok h \<Longrightarrow> same_contents h h"
  by (simp add: same_contents_def)

lemma same_contents_trans: "same_contents h h' \<Longrightarrow> same_contents h' h'' \<Longrightarrow> same_contents h h''"
  by (auto simp: same_contents_def same_shape_def)

lemma data_ptr_allocs_contents:
  assumes "heap_ok h" "b < length (bh_buffers h)" "c < length (bh_buffers h)"
  shows "same_contents h (data_ptr_allocs h b c)"
proof -
  have 1: "same_contents h (snd (get_data_ptr h b))"
    using get_data_ptr_correct [OF assms(1,2)] by (simp add: same_contents_def)
  then have "heap_ok (snd (get_data_ptr h b))" "c < length (bh_buffers (snd (get_data_ptr h b)))"
    using assms(3) by (simp_all add: same_contents_def same_shape_def)
  then have "same_contents (snd (get_data_ptr h b)) (snd (get_data_ptr (snd (get_data_ptr h b)) c))"
    using get_data_ptr_correct by (simp add: same_contents_def)
  then show ?thesis using 1 same_contents_trans by (auto simp: data_ptr_allocs_def case_prod_unfold Let_def)
qed

lemma neighbour_allocs_contents:
  assumes "mm_ok h m" "seg_fits h r sg" "i \<le> length m"
  shows "same_contents h (neighbour_allocs h m i sg)"
proof (cases "i < length m")
  case True
  then have "seg_fits h (fst (m ! i)) (snd (m ! i))"
    using mm_ok_seg [OF assms(1), of "fst (m ! i)" "snd (m ! i)"] nth_mem by simp
  then show ?thesis using assms data_ptr_allocs_contents [of h] True
    by (auto simp: neighbour_allocs_def seg_fits_def mm_ok_def intro: same_contents_refl split: option.splits)
next
  case False
  then show ?thesis using assms by (auto simp: neighbour_allocs_def mm_ok_def intro: same_contents_refl)
qed

lemma find_le: "rm_find m a \<le> length m"
  using lower_bound_le [of m a] by (simp add: rm_find_def Let_def)

lemma insert_allocs_contents:
  assumes "mm_ok h m" "seg_fits h r sg"
  shows "same_contents h (insert_allocs h m r sg)"
proof -
  let ?i = "if r_first r > range_minimum then rm_find m (r_first r - 1) else length m"
  let ?j = "if r_last r < range_maximum then rm_find m (r_last r + 1) else length m"
  have ij: "?i \<le> length m" "?j \<le> length m" using find_le by auto
  define h1 where "h1 = neighbour_allocs h m ?i sg"
  have 1: "same_contents h h1" unfolding h1_def by (rule neighbour_allocs_contents [OF assms ij(1)])
  then have "mm_ok h1 m" "seg_fits h1 r sg"
    using mm_ok_shape [OF assms(1)] seg_fits_shape assms(2) by (auto simp: same_contents_def)
  then have "same_contents h1 (neighbour_allocs h1 m ?j sg)" by (rule neighbour_allocs_contents [OF _ _ ij(2)])
  then show ?thesis using same_contents_trans [OF 1] by (simp add: insert_allocs_def Let_def h1_def)
qed

lemma segments_insert_correct:
  assumes "mm_ok h m" "\<not> range_empty r" "seg_fits h r sg" "make_hole \<or> rm_dom m \<inter> set_of r = {}"
  shows "\<exists>h' m' i. segments_insert h m r sg make_hole = Some ((h', m'), i) \<and> i < length m' \<and> mm_ok h' m' \<and>
    same_contents h h' \<and> (\<forall>a. mapped m' a = (if a \<in> set_of r then Some (seg_cell r sg a) else mapped m a))"
proof -
  have "seg_ok h r sg" using assms(1,3) by (simp add: seg_ok_def mm_ok_def)
  from seg.insert_lookup [OF mm_ok_rm(3) [OF assms(1)] assms(2) this assms(4)]
  obtain m' i where m': "rm_insert (segment_ops h) m r sg make_hole = Some (m', i)" "rm_inv (seg_ok h) m'" "i < length m'"
    "\<forall>a. mapped m' a = (if a \<in> set_of r then Some (seg_cell r sg a) else mapped m a)"
    unfolding mapped_def by blast
  have c: "same_contents h (insert_allocs h m r sg)" by (rule insert_allocs_contents [OF assms(1,3)])
  have "mm_ok h m'" using m'(2) assms(1) by (simp add: mm_ok_def)
  then have "mm_ok (insert_allocs h m r sg) m'" using mm_ok_shape c by (auto simp: same_contents_def)
  with m' c show ?thesis by (auto simp: segments_insert_def)
qed

lemma insert_conflict:
  assumes "mm_ok h m" "\<not> range_empty r" "rm_dom m \<inter> set_of r \<noteq> {}"
  shows "\<exists>r' sg'. mm_insert h m r sg False = Some (Some (Inconsistent r sg r' sg'), (h, m)) \<and>
    (r', sg') \<in> set m \<and> set_of r' \<inter> set_of r \<noteq> {} \<and>
    (\<forall>a \<in> set_of r. mapped m a \<noteq> None \<longrightarrow> r_first r' \<le> a)"
proof -
  note ok = mm_ok_rm(1) [OF assms(1)]
  let ?i = "rm_lower_bound m (r_first r)"
  have ov: "rm_overlaps_range m r" using overlaps_range_iff [OF ok] assms(3) by simp
  then have i: "?i < length m" "range_overlaps r (fst (m ! ?i))"
    using assms(2) lower_bound_le [of m "r_first r"] by (auto simp: rm_overlaps_range_def Let_def)
  have "rm_insert (segment_ops h) m r sg False = Some (m, length m)"
    by (rule seg.insert_refused [OF mm_ok_rm(3) [OF assms(1)] assms(3)])
  then have "mm_insert h m r sg False = Some (Some (Inconsistent r sg (fst (m ! ?i)) (snd (m ! ?i))), (h, m))"
    using i assms(2) by (simp add: mm_insert_def segments_insert_def range_first_def Let_def)
  moreover have "(fst (m ! ?i), snd (m ! ?i)) \<in> set m" using i(1) by simp
  moreover have "set_of (fst (m ! ?i)) \<inter> set_of r \<noteq> {}" using i(2) overlaps_iff_sets by blast
  moreover have "r_first (fst (m ! ?i)) \<le> a" if "a \<in> set_of r" "mapped m a \<noteq> None" for a
  proof -
    have "a \<in> rm_dom m" using that(2) mapped_dom [OF ok, of a] by simp
    then obtain e where e: "e \<in> set m" "a \<in> set_of (fst e)" unfolding rm_dom_def by blast
    then have "e \<notin> set (take ?i m)" using take_lower_bound [of e m "r_first r"] that(1) by auto
    then have "e \<in> set (drop ?i m)" using e(1) by (metis Un_iff append_take_drop_id set_append)
    then have "e = m ! ?i \<or> rm_before (m ! ?i) e"
      using ok i(1) by (metis Cons_nth_drop_Suc append_take_drop_id rm_ok_Cons rm_ok_append set_ConsD)
    moreover have "\<not> range_empty (fst (m ! ?i))" using ok i(1) by (simp add: rm_ok_def)
    ultimately show ?thesis using e(2) unfolding rm_before_def not_empty_le
      by (metis (no_types, lifting) less_le_trans mem_set_of order.trans order_less_imp_le)
  qed
  ultimately show ?thesis by blast
qed

lemma erase_mapped:
  assumes "mm_ok h m"
  shows "\<exists>m'. mm_erase h m r = Some m' \<and> mm_ok h m' \<and> (\<forall>a. mapped m' a = (if a \<in> set_of r then None else mapped m a))"
  using seg.erase_lookup [OF mm_ok_rm(3) [OF assms], of r] assms unfolding mm_erase_def mapped_def mm_ok_def by blast

lemma insert_mapped:
  assumes "mm_ok h m" "\<not> range_empty r" "seg_fits h r sg" "erase_prior \<or> rm_dom m \<inter> set_of r = {}"
  shows "\<exists>h' m'. mm_insert h m r sg erase_prior = Some (None, (h', m')) \<and> mm_ok h' m' \<and> same_contents h h' \<and>
    (\<forall>a. mapped m' a = (if a \<in> set_of r then Some (seg_cell r sg a) else mapped m a))"
  using segments_insert_correct [OF assms] by (auto simp: mm_insert_def)

section \<open>Queries\<close>

lemma allows_unmapped: "mapped m a = None \<Longrightarrow> \<not> allows p m a"
  by (simp add: allows_def)

lemma exists_loop_correct:
  assumes "rm_ok m" "set_of r \<subseteq> rm_dom m"
  shows "exists_loop m r p = Some (\<forall>a \<in> set_of r. allows p m a)"
  using assms
proof (induction m r p rule: exists_loop.induct)
  case (1 m r p)
  show ?case
  proof (cases "range_empty r")
    case True
    then have "set_of r = {}" by (simp only: set_of_empty_iff)
    with True show ?thesis by (subst exists_loop.simps) (simp del: mem_set_of)
  next
    case False
    let ?i = "rm_find m (r_first r)" let ?e = "m ! ?i"
    have first: "r_first r \<in> set_of r" using False by (simp add: not_empty_le)
    then have i: "?i < length m" "r_first r \<in> set_of (fst ?e)"
      using find_cases [OF 1(2), of "r_first r"] 1(3) by blast+
    have e: "?e \<in> set m" "\<not> range_empty (fst ?e)" using i 1(2) by (simp_all add: rm_ok_def)
    have all_e: "allows p m a \<longleftrightarrow> (mapperms (snd ?e) AND p) = p" if "a \<in> set_of (fst ?e)" for a
    proof -
      have "mapped m a = Some (seg_cell (fst ?e) (snd ?e) a)"
        using mapped_find [of m a] find_of_mem [OF 1(2) e(1) that] by simp
      then show ?thesis by (simp add: allows_def seg_cell_def)
    qed
    have nb: "\<not> begins_before r (fst ?e) True" using i(2) by (simp add: begins_before_def not_less)
    have step: "exists_loop m r p = (if (mapperms (snd ?e) AND p) \<noteq> p then Some False
        else if r_last (fst ?e) \<ge> r_last r then Some True
        else exists_loop m \<lparr>r_first = r_last (fst ?e) + 1, r_last = r_last r\<rparr> p)"
    proof -
      have "range_inin (r_last (fst ?e) + 1) (r_last r) = Some \<lparr>r_first = r_last (fst ?e) + 1, r_last = r_last r\<rparr>"
        if "\<not> r_last (fst ?e) \<ge> r_last r"
        using that word_succ_iffs(1) [of "r_last (fst ?e)" "r_last r"] by (simp add: range_inin_def range_default_def)
      then show ?thesis using False i(1) e(2) nb by (subst exists_loop.simps) (simp add: range_last_def Let_def)
    qed
    consider (no) "(mapperms (snd ?e) AND p) \<noteq> p" | (whole) "(mapperms (snd ?e) AND p) = p" "r_last (fst ?e) \<ge> r_last r"
      | (more) "(mapperms (snd ?e) AND p) = p" "r_last (fst ?e) < r_last r" by fastforce
    then show ?thesis
    proof cases
      case no
      then show ?thesis using all_e [OF i(2)] first by (auto simp: step)
    next
      case whole
      then have "a \<in> set_of (fst ?e)" if "a \<in> set_of r" for a using that i(2) by auto
      then show ?thesis using whole all_e by (auto simp: step)
    next
      case more
      let ?r = "\<lparr>r_first = r_last (fst ?e) + 1, r_last = r_last r\<rparr>"
      note succ = word_succ_iffs(1) [OF more(2)]
      have sub: "set_of ?r \<subseteq> set_of r" using i(2) by (auto simp: succ)
      have split: "a \<in> set_of (fst ?e) \<or> a \<in> set_of ?r" if "a \<in> set_of r" for a using that i(2) by (auto simp: succ not_less)
      have inin: "range_inin (r_last (fst ?e) + 1) (r_last r) = Some ?r"
        using more(2) by (simp add: range_inin_def range_default_def succ)
      have "exists_loop m ?r p = Some (\<forall>a \<in> set_of ?r. allows p m a)"
        by (rule 1(1) [OF False refl i(1) refl]) (use nb more inin e(2) 1(2,3) sub in \<open>auto simp: range_last_def\<close>)
      then show ?thesis using more split sub all_e by (auto simp: step simp del: mem_set_of)
    qed
  qed
qed

lemma exists_correct:
  assumes "rm_ok m"
  shows "mm_exists m r p = Some (\<forall>a \<in> set_of r. allows p m a)"
proof -
  note c = contains_range_correct [OF assms, of r]
  show ?thesis
  proof (cases "set_of r \<subseteq> rm_dom m")
    case True
    have "allows 0 m a" if "a \<in> set_of r" for a
      using True that mapped_dom [OF assms, of a] by (auto simp: allows_def simp del: mem_set_of)
    then show ?thesis using c True exists_loop_correct [OF assms True, of p]
      by (simp add: mm_exists_def del: mem_set_of)
  next
    case False
    then obtain a where "a \<in> set_of r" "mapped m a = None" using mapped_dom [OF assms] by blast
    then show ?thesis using c False allows_unmapped [of m a p] by (auto simp: mm_exists_def simp del: mem_set_of)
  qed
qed

section \<open>Reading\<close>

lemma segment_contains: "a \<in> set_of r \<Longrightarrow> range_contains r (range_unit a) False"
  by (auto simp: range_contains_def range_empty_def not_less intro: order_trans)

lemma segment_offset:
  assumes "seg_fits h r sg" "sg_buffer sg = Some b" "a \<in> set_of r"
  shows "get_buffer_offset sg r a = Some (buffer_offset sg + a - r_first r)"
    "unat (buffer_offset sg + a - r_first r) = unat (buffer_offset sg) + (unat a - unat (r_first r))"
    "unat (buffer_offset sg + a - r_first r) < unat (p_size (buf h b))"
proof -
  have ne: "\<not> range_empty r" and a: "r_first r \<le> a" "a \<le> r_last r" using assms(3) by (auto simp: range_empty_def not_less)
  then show "get_buffer_offset sg r a = Some (buffer_offset sg + a - r_first r)"
    using segment_contains [OF assms(3)] by (simp add: get_buffer_offset_def range_first_def)
  have "unat a - unat (r_first r) \<le> unat (r_last r) - unat (r_first r)" using a by (simp add: word_le_nat_alt diff_le_mono)
  then have b: "unat (buffer_offset sg) + (unat a - unat (r_first r)) < unat (p_size (buf h b))"
    using assms(1,2) by (simp add: seg_fits_def)
  from unat_offset [OF b a(1)] show "unat (buffer_offset sg + a - r_first r) = unat (buffer_offset sg) + (unat a - unat (r_first r))" .
  with b show "unat (buffer_offset sg + a - r_first r) < unat (p_size (buf h b))" by simp
qed

lemma fits_check:
  assumes "seg_fits h r sg" "sg_buffer sg = Some b" "\<not> range_empty r"
  shows "seg_check h sg r = None"
proof -
  have lt: "unat (buffer_offset sg) + (unat (r_last r) - unat (r_first r)) < unat (p_size (buf h b))"
    using assms(1,2) by (simp add: seg_fits_def)
  have le: "unat (r_first r) \<le> unat (r_last r)" using assms(3) by (simp add: not_empty_le word_le_nat_alt)
  have "range_size r = of_nat (Suc (unat (r_last r) - unat (r_first r)))"
    using range_size_card [of r] card_word_interval [of "r_first r" "r_last r"] assms(3) by (simp add: not_empty_le set_of_def)
  moreover have "Suc (unat (r_last r) - unat (r_first r)) < 2 ^ LENGTH(64)"
    using lt unat_less_length_power [of "p_size (buf h b)"] by simp
  ultimately have size: "unat (range_size r) = Suc (unat (r_last r) - unat (r_first r))" by (simp only: unat_of_nat_less)
  then have "unat (buffer_offset sg + range_size r) = unat (buffer_offset sg) + Suc (unat (r_last r) - unat (r_first r))"
    using lt unat_less_length_power [of "p_size (buf h b)"] by (simp add: unat_word_ariths)
  then have "buffer_offset sg + range_size r \<le> p_size (buf h b)" using lt by (simp add: word_le_nat_alt)
  moreover have "buffer_offset sg < p_size (buf h b)" using lt by (simp add: word_less_nat_alt)
  moreover have "p_size (buf h b) \<noteq> 0" using lt by auto
  ultimately show ?thesis using assms(2,3) by (simp add: seg_check_def not_le [symmetric])
qed

text \<open>The outcome of \<open>read1\<close> at a mapped address: the rest of the buffer from the address on, up to the request.\<close>

lemma read1_at:
  assumes "mm_ok h m" "(r, sg) \<in> set m" "a \<in> set_of r"
  shows "mm_read1 h m a n p =
    Some (case sg_buffer sg of
      None \<Rightarrow> []
    | Some b \<Rightarrow> if (mapperms sg AND p) = p then buffer_read h b (buffer_offset sg + a - r_first r) n else [])"
proof -
  note f = find_of_mem [OF mm_ok_rm(1) [OF assms(1)] assms(2), of a]
  have fits: "seg_fits h r sg" "\<not> range_empty r" using mm_ok_seg [OF assms(1,2)] by simp_all
  have c: "range_contains r (range_unit a) False" by (rule segment_contains [OF assms(3)])
  show ?thesis
  proof (cases "sg_buffer sg")
    case None
    then have "seg_check h sg r \<noteq> None" using fits(2) by (simp add: seg_check_def)
    then show ?thesis using f assms(3) c None by (simp add: mm_read1_def)
  next
    case (Some b)
    then show ?thesis using f assms(3) c fits_check [OF fits(1) Some fits(2)] segment_offset(1) [OF fits(1) Some assms(3)]
      by (simp add: mm_read1_def)
  qed
qed

lemma read1_unmapped:
  assumes "rm_ok m" "mapped m a = None"
  shows "mm_read1 h m a n p = Some []"
  using assms(2) by (simp add: mm_read1_def mapped_None [OF assms(1)])

section \<open>Protection\<close>

definition reprotect :: "u32 \<Rightarrow> ((nat \<times> nat) option \<times> u32) option \<Rightarrow> ((nat \<times> nat) option \<times> u32) option" where
  "reprotect p c = map_option (\<lambda>(x, _). (x, p)) c"

lemma reprotect_None [simp]: "reprotect p None = None" "reprotect p c = None \<longleftrightarrow> c = None"
  by (simp_all add: reprotect_def)

lemma rm_ok_ranges:
  assumes "map fst m' = map fst m"
  shows "rm_ok m' = rm_ok m"
proof -
  have len: "length m' = length m" using assms by (metis length_map)
  have "fst (m' ! i) = fst (m ! i)" if "i < length m" for i using that len assms by (metis nth_map)
  then show ?thesis
    by (simp add: rm_ok_def sorted_wrt_iff_nth_less rm_before_def all_set_conv_all_nth len)
qed

lemma set_update: "i < length m \<Longrightarrow> x \<in> set (m [i := y]) \<longleftrightarrow> x = y \<or> (\<exists>j < length m. j \<noteq> i \<and> x = m ! j)"
  by (auto simp: in_set_conv_nth nth_list_update)

lemma mapped_update:
  assumes "rm_ok m" "i < length m" "\<And>a. seg_cell (fst (m ! i)) sg a = f (seg_cell (fst (m ! i)) (snd (m ! i)) a)"
  shows "rm_ok (m [i := (fst (m ! i), sg)])"
    "mapped (m [i := (fst (m ! i), sg)]) a = (if a \<in> set_of (fst (m ! i)) then map_option f (mapped m a) else mapped m a)"
proof -
  let ?m = "m [i := (fst (m ! i), sg)]"
  have fst: "map fst ?m = map fst m" using assms(2) by (metis fst_conv list_update_id map_update nth_map)
  then show ok: "rm_ok ?m" using rm_ok_ranges assms(1) by blast
  have f: "rm_find ?m a = rm_find m a"
  proof -
    have "map (r_last \<circ> fst) ?m = map (r_last \<circ> fst) m" using fst by (metis map_map)
    moreover have "length (takeWhile (\<lambda>e. r_last (fst e) < b) m') = length (takeWhile (\<lambda>x. x < b) (map (r_last \<circ> fst) m'))"
      for b and m' :: memory_map by (simp add: takeWhile_map comp_def)
    ultimately have "rm_lower_bound ?m a = rm_lower_bound m a" by (simp only: rm_lower_bound_def range_unit_simps)
    moreover have "fst (?m ! j) = fst (m ! j)" if "j < length m" for j using that assms(2) by (simp add: nth_list_update)
    ultimately show ?thesis using lower_bound_le [of m a]
      by (cases "rm_lower_bound m a = length m") (simp_all add: rm_find_def Let_def)
  qed
  have neq: "rm_find m a \<noteq> i" if "a \<notin> set_of (fst (m ! i))" "rm_find m a < length m"
    using find_cases [OF assms(1), of a] that by auto
  show "mapped ?m a = (if a \<in> set_of (fst (m ! i)) then map_option f (mapped m a) else mapped m a)"
  proof (cases "a \<in> set_of (fst (m ! i))")
    case True
    then have "rm_find m a < length m" "m ! rm_find m a = m ! i" using find_of_mem [OF assms(1) nth_mem [OF assms(2)]] by simp_all
    moreover have "?m ! rm_find m a = (fst (m ! i), sg)"
      using calculation(1) find_of_mem(2) [OF ok, of "(fst (m ! i), sg)" a] True assms(2) by (simp add: f set_update_memI)
    ultimately show ?thesis using True assms(2,3) by (simp add: mapped_def rm_lookup_def f)
  next
    case False
    show ?thesis
    proof (cases "rm_find m a < length m")
      case True
      from neq [OF False True] have "?m ! rm_find m a = m ! rm_find m a" by simp
      with False show ?thesis using True by (auto simp: mapped_def rm_lookup_def f)
    next
      case unmapped: False
      with False find_le [of m a] show ?thesis by (auto simp: mapped_def rm_lookup_def f)
    qed
  qed
qed

text \<open>One segment: the addresses that it has in common with the range get the new permissions.\<close>

lemma protect_segment_correct:
  assumes "mm_ok h m" "i < length m" "fst (m ! i) = s"
    and "r_first s \<le> r_first r" "r_first r \<le> r_last s" "\<not> range_empty r"
  shows "\<exists>h' m'. protect_segment h m i r p = Some (h', m') \<and> mm_ok h' m' \<and> same_contents h h' \<and>
    (\<forall>a. mapped m' a = (if a \<in> set_of s \<inter> set_of r then reprotect p (mapped m a) else mapped m a))"
proof -
  let ?sg = "snd (m ! i)"
  have mem: "(s, ?sg) \<in> set m" using assms(2,3) by (metis nth_mem prod.collapse)
  have fits: "seg_fits h s ?sg" "\<not> range_empty s" using mm_ok_seg [OF assms(1) mem] by simp_all
  have here: "mapped m a = Some (seg_cell s ?sg a)" if "a \<in> set_of s" for a
    using mapped_find [of m a] find_of_mem [OF mm_ok_rm(1) [OF assms(1)] mem, of a] that by simp
  note refl_h = same_contents_refl [OF mm_ok_rm(2) [OF assms(1)]]
  show ?thesis
  proof (cases "mapperms ?sg = p")
    case True
    have "reprotect p (mapped m a) = mapped m a" if "a \<in> set_of s" for a
      using here [OF that] True by (simp add: reprotect_def seg_cell_def)
    moreover have "protect_segment h m i r p = Some (h, m)" using True by (simp add: protect_segment_def case_prod_unfold)
    ultimately show ?thesis using assms(1) refl_h by auto
  next
    case perms: False
    show ?thesis
    proof (cases "range_contains r s False")
      case True
      let ?sg' = "set_mapperms ?sg p"
      let ?m = "m [i := (s, ?sg')]"
      have sub: "set_of s \<subseteq> set_of r" using True contains_iff_sets fits(2) assms(6) by (auto simp: range_contains_def)
      note u = mapped_update [OF mm_ok_rm(1) [OF assms(1)] assms(2), of ?sg' "\<lambda>(x, _). (x, p)"]
      have cell: "seg_cell (fst (m ! i)) ?sg' a = (case seg_cell (fst (m ! i)) ?sg a of (x, _) \<Rightarrow> (x, p))" for a
        by (simp add: seg_cell_def set_mapperms_def)
      have "seg_fits h s ?sg'" using fits(1) by (simp add: seg_fits_def set_mapperms_def split: option.splits)
      then have "rm_inv (seg_ok h) ?m"
        using assms(1,2) u(1) [OF cell] by (auto simp: rm_inv_def mm_ok_def seg_ok_def assms(3) set_update) (metis fst_conv nth_mem snd_conv)
      then have "mm_ok h ?m" using assms(1) by (simp add: mm_ok_def)
      moreover have "mapped ?m a = (if a \<in> set_of s \<inter> set_of r then reprotect p (mapped m a) else mapped m a)" for a
        using u(2) [OF cell, of a] sub by (auto simp: assms(3) reprotect_def simp del: mem_set_of)
      moreover have "protect_segment h m i r p = Some (h, ?m)" using perms True assms(3) by (simp add: protect_segment_def case_prod_unfold)
      ultimately show ?thesis using refl_h by blast
    next
      case False
      let ?n = "\<lparr>r_first = r_first r, r_last = min (r_last r) (r_last s)\<rparr>"
      let ?off = "buffer_offset ?sg + r_first r - r_first s"
      let ?sg' = "?sg\<lparr>mapperms := p, buffer_offset := ?off\<rparr>"
      have n: "range_inin (r_first r) (min (r_last r) (r_last s)) = Some ?n" "\<not> range_empty ?n"
        "set_of ?n = set_of s \<inter> set_of r"
        using assms(4-6) by (auto simp: range_inin_def range_default_def not_empty_le min_def intro: order_trans)
      have bb: "begins_before s r False" using assms(4,6) fits(2) by (simp add: begins_before_def)
      have first: "r_first r \<in> set_of s" using assms(4,5) by simp
      have go: "get_buffer_offset ?sg s (r_first r) = Some ?off"
        using segment_contains [OF first] fits(2) by (simp add: get_buffer_offset_def range_first_def)
      have ord: "unat (r_first s) \<le> unat (r_first r)" "unat (r_first r) \<le> unat (r_last s)"
        using assms(4,5) by (simp_all add: word_le_nat_alt)
      have set: "set_buffer_offset h (set_mapperms ?sg p) ?off = Some ?sg'"
        using segment_offset(3) [OF fits(1) _ first]
        by (auto simp: set_buffer_offset_def set_mapperms_def word_less_nat_alt split: option.split)
      have cell: "seg_cell ?n ?sg' a = (case seg_cell s ?sg a of (x, _) \<Rightarrow> (x, p))" if "a \<in> set_of ?n" for a
        using that segment_offset(2) [OF fits(1) _ first] ord
        by (cases "sg_buffer ?sg") (auto simp: seg_cell_def word_le_nat_alt)
      have "unat (min (r_last r) (r_last s)) \<le> unat (r_last s)" by (simp add: min_def word_le_nat_alt)
      then have fit: "seg_fits h ?n ?sg'"
        using fits(1) segment_offset(2) [OF fits(1) _ first] ord by (auto simp: seg_fits_def split: option.splits)
      from segments_insert_correct [OF assms(1) n(2) fit, of True] obtain h' m' j where
        ins: "segments_insert h m ?n ?sg' True = Some ((h', m'), j)" "mm_ok h' m'" "same_contents h h'"
        "\<forall>a. mapped m' a = (if a \<in> set_of ?n then Some (seg_cell ?n ?sg' a) else mapped m a)" by auto
      have "protect_segment h m i r p = Some (h', m')"
        using perms False assms(3) bb n(1) go set ins(1) by (simp add: protect_segment_def case_prod_unfold)
      moreover have "mapped m' a = (if a \<in> set_of s \<inter> set_of r then reprotect p (mapped m a) else mapped m a)" for a
        using ins(4) cell here unfolding n(3) by (simp add: reprotect_def del: mem_set_of)
      ultimately show ?thesis using ins(2,3) by blast
    qed
  qed
qed

text \<open>
  What \<open>mprotect\<close> guarantees: without an exception the whole range has the new permissions; the exception carries the
  lowest unmapped address of the range, and everything below it has been changed already.
\<close>

definition protected :: "u32 \<Rightarrow> u64 set \<Rightarrow> memory_map \<Rightarrow> memory_map \<Rightarrow> bool" where
  "protected p S m m' \<longleftrightarrow> (\<forall>a. mapped m' a = (if a \<in> S then reprotect p (mapped m a) else mapped m a))"

definition mprotect_outcome ::
  "bheap \<Rightarrow> memory_map \<Rightarrow> extent \<Rightarrow> u32 \<Rightarrow> bool \<Rightarrow> mm_error option \<times> mm_state \<Rightarrow> bool" where
  "mprotect_outcome h m r p relax res =
     (case res of (e, (h', m')) \<Rightarrow> mm_ok h' m' \<and> same_contents h h' \<and>
        (case e of
           None \<Rightarrow> (relax \<or> (\<forall>a \<in> set_of r. mapped m a \<noteq> None)) \<and> protected p (set_of r) m m'
         | Some (NotMapped va) \<Rightarrow> \<not> relax \<and> va \<in> set_of r \<and> mapped m va = None \<and>
             (\<forall>a \<in> set_of r. a < va \<longrightarrow> mapped m a \<noteq> None) \<and> protected p {a \<in> set_of r. a < va} m m'
         | _ \<Rightarrow> False))"

lemma reprotect_twice [simp]: "reprotect p (reprotect p c) = reprotect p c"
  by (cases c) (simp_all add: reprotect_def case_prod_unfold)

lemma protected_mapped: "protected p S m m' \<Longrightarrow> mapped m' a = None \<longleftrightarrow> mapped m a = None"
  by (simp add: protected_def)

lemma protected_trans:
  assumes "protected p S m m1" "protected p T m1 m2" "\<And>a. mapped m a \<noteq> None \<Longrightarrow> a \<in> U \<longleftrightarrow> a \<in> S \<or> a \<in> T"
  shows "protected p U m m2"
  unfolding protected_def
proof
  fix a
  show "mapped m2 a = (if a \<in> U then reprotect p (mapped m a) else mapped m a)"
  proof (cases "mapped m a = None")
    case True
    then show ?thesis using assms(1,2) by (simp add: protected_def)
  next
    case False
    then show ?thesis using assms(1,2) assms(3) [OF False] by (auto simp: protected_def)
  qed
qed

lemma protected_cong:
  assumes "protected p S m m1" "\<And>a. mapped m a \<noteq> None \<Longrightarrow> a \<in> U \<longleftrightarrow> a \<in> S"
  shows "protected p U m m1"
  using protected_trans [OF assms(1), of "{}" m1 U] assms(2) by (simp add: protected_def)

lemma protected_none: "(\<And>a. a \<in> S \<Longrightarrow> mapped m a = None) \<Longrightarrow> protected p S m m"
  by (simp add: protected_def)

text \<open>The gap before the next segment.\<close>

lemma lower_bound_gap:
  assumes "rm_ok m" "a \<le> x" "rm_lower_bound m a < length m \<Longrightarrow> x < r_first (fst (m ! rm_lower_bound m a))"
  shows "mapped m x = None"
proof -
  have "x \<notin> rm_dom m"
  proof
    assume "x \<in> rm_dom m"
    then obtain e where e: "e \<in> set m" "x \<in> set_of (fst e)" unfolding rm_dom_def by blast
    let ?i = "rm_lower_bound m a"
    have "e \<notin> set (take ?i m)" using take_lower_bound [of e m a] e(2) assms(2) by auto
    then have d: "e \<in> set (drop ?i m)" using e(1) by (metis Un_iff append_take_drop_id set_append)
    then have i: "?i < length m" by (metis drop_eq_Nil empty_iff linorder_not_le list.set(1))
    then have "e = m ! ?i \<or> rm_before (m ! ?i) e"
      using assms(1) d by (metis Cons_nth_drop_Suc append_take_drop_id rm_ok_Cons rm_ok_append set_ConsD)
    moreover have "r_first (fst (m ! ?i)) \<le> r_last (fst (m ! ?i))"
      using assms(1) i by (simp add: rm_ok_def not_empty_le)
    ultimately have "r_first (fst (m ! ?i)) \<le> x" using e(2) by (auto simp: rm_before_def intro: order_trans)
    then show False using assms(3) [OF i] by simp
  qed
  then show ?thesis using mapped_dom [OF assms(1)] by simp
qed

lemma mprotect_loop_correct:
  assumes "mm_ok h m"
  shows "\<exists>res. mprotect_loop h m r p relax = Some res \<and> mprotect_outcome h m r p relax res"
  using assms
proof (induction h m r p relax rule: mprotect_loop.induct)
  case (1 h m r p relax)
  note ok = mm_ok_rm(1) [OF 1(2)] and refl_h = same_contents_refl [OF mm_ok_rm(2) [OF 1(2)]]
  let ?i = "rm_lower_bound m (r_first r)" let ?s = "fst (m ! ?i)"
  let ?unmapped = "if \<not> relax then Some (NotMapped (r_first r)) else None"
  note gap = lower_bound_gap [OF ok, of "r_first r"]
  show ?case
  proof (cases "range_empty r")
    case True
    then have "set_of r = {}" by (simp only: set_of_empty_iff)
    with True 1(2) refl_h show ?thesis
      by (subst mprotect_loop.simps) (simp add: mprotect_outcome_def protected_def del: mem_set_of)
  next
    case ne: False
    then have first: "r_first r \<in> set_of r" by (simp add: not_empty_le)
    show ?thesis
    proof (cases "\<not> ?i < length m \<or> right_of ?s r \<or> begins_after ?s r True \<and> \<not> relax")
      case True
      have step: "mprotect_loop h m r p relax = Some (?unmapped, (h, m))"
        using True ne by (subst mprotect_loop.simps) (auto simp: Let_def)
      have s: "\<not> range_empty ?s" if "?i < length m" using ok that by (simp add: rm_ok_def)
      have first_free: "mapped m (r_first r) = None"
        by (rule gap) (use True ne s in \<open>auto simp: right_of_def begins_after_def not_empty_le split: if_splits\<close>)
      have all_free: "mapped m a = None" if "relax" "a \<in> set_of r" for a
        by (rule gap) (use True ne s that in \<open>auto simp: right_of_def split: if_splits\<close>)
      have "mprotect_outcome h m r p relax (?unmapped, (h, m))"
      proof (cases relax)
        case True
        then show ?thesis using 1(2) refl_h all_free by (simp add: mprotect_outcome_def protected_none del: mem_set_of)
      next
        case False
        have "protected p {a \<in> set_of r. a < r_first r} m m" by (rule protected_none) auto
        then show ?thesis using False 1(2) refl_h first_free first by (auto simp: mprotect_outcome_def)
      qed
      with step show ?thesis by blast
    next
      case False
      then have i: "?i < length m" and nr: "\<not> right_of ?s r" and nb: "\<not> (begins_after ?s r True \<and> \<not> relax)" by auto
      have s: "\<not> range_empty ?s" using ok i by (simp add: rm_ok_def)
      have last: "r_first r \<le> r_last ?s" using lower_bound_last [OF i] .
      have fl: "r_first ?s \<le> r_last r" using nr s ne by (simp add: right_of_def not_less)
      define r1 where "r1 = (if begins_after ?s r True then \<lparr>r_first = r_first ?s, r_last = r_last r\<rparr> else r)"
      have r1: "(if begins_after ?s r True then range_inin (r_first ?s) (r_last r) else Some r) = Some r1"
        using fl by (simp add: r1_def range_inin_def range_default_def)
      have ba: "begins_after ?s r True \<longleftrightarrow> r_first r < r_first ?s" using s ne by (simp add: begins_after_def)
      have r1_props: "r_first ?s \<le> r_first r1" "r_first r1 \<le> r_last ?s" "\<not> range_empty r1" "r_last r1 = r_last r" "r_first r \<le> r_first r1"
        using ba fl last s ne by (auto simp: r1_def not_empty_le)
      have skip: "mapped m a = None" "relax" if "a \<in> set_of r" "a \<notin> set_of r1" for a
      proof -
        have "r_first r < r_first ?s" "a < r_first ?s" using that by (auto simp: r1_def ba not_le split: if_splits)
        then show "mapped m a = None" "relax" using gap [of a] that(1) nb ba by auto
      qed
      have sub_r: "set_of r1 \<subseteq> set_of r" using r1_props(4,5) by (auto intro: order_trans)
      have in_r: "a \<in> set_of r \<longleftrightarrow> a \<in> set_of r1" if "mapped m a \<noteq> None" for a
        using skip(1) [of a] sub_r that by blast
      from protect_segment_correct [OF 1(2) i refl r1_props(1-3)]
      obtain h1 m1 where m1: "protect_segment h m ?i r1 p = Some (h1, m1)" "mm_ok h1 m1" "same_contents h h1"
        "protected p (set_of ?s \<inter> set_of r1) m m1" unfolding protected_def by blast
      have part: "mapped m a \<noteq> None" if "a \<in> set_of ?s" for a
      proof -
        have "a \<in> rm_dom m" unfolding rm_dom_def using that nth_mem [OF i] by blast
        then show ?thesis using mapped_dom [OF ok, of a] by simp
      qed
      show ?thesis
      proof (cases "r_last r1 \<le> r_last ?s")
        case True
        have step: "mprotect_loop h m r p relax = Some (None, (h1, m1))"
          using ne i nr nb r1 m1(1) True by (subst mprotect_loop.simps) (simp add: Let_def)
        have sub: "set_of r1 \<subseteq> set_of ?s" using True r1_props by auto
        have "protected p (set_of r) m m1"
          by (rule protected_cong [OF m1(4)]) (use sub in_r in blast)
        moreover have "relax \<or> (\<forall>a \<in> set_of r. mapped m a \<noteq> None)" using skip(2) part sub by blast
        ultimately show ?thesis using step m1(2,3) by (simp add: mprotect_outcome_def)
      next
        case more: False
        let ?r2 = "\<lparr>r_first = r_last ?s + 1, r_last = r_last r1\<rparr>"
        have lt: "r_last ?s < r_last r1" using more by simp
        note succ = word_succ_iffs(1) [OF lt]
        have r2: "range_inin (r_last ?s + 1) (r_last r1) = Some ?r2"
          using lt by (simp add: range_inin_def range_default_def succ)
        have in_r1: "a \<in> set_of r1 \<longleftrightarrow> a \<in> set_of ?s \<inter> set_of r1 \<or> a \<in> set_of ?r2" for a
          using r1_props by (auto simp: succ not_less)
        obtain res where res: "mprotect_loop h1 m1 ?r2 p relax = Some res" "mprotect_outcome h1 m1 ?r2 p relax res"
          using 1(1) [OF ne refl refl _ _ r1 refl m1(1) refl more r2 m1(2)] i nr nb by blast
        have step: "mprotect_loop h m r p relax = Some res"
          using ne i nr nb r1 m1(1) more r2 res(1) by (subst mprotect_loop.simps) (auto simp: Let_def)
        obtain e h2 m2 where out: "res = (e, (h2, m2))" by (metis prod_cases3)
        have ok2: "mm_ok h2 m2" "same_contents h h2"
          using res(2) same_contents_trans [OF m1(3)] by (auto simp: mprotect_outcome_def out)
        have inside: "a \<in> set_of r \<longleftrightarrow> a \<in> set_of ?s \<inter> set_of r1 \<or> a \<in> set_of ?r2" if "mapped m a \<noteq> None" for a
          using in_r1 [of a] in_r [OF that] by blast
        show ?thesis
        proof (cases e)
          case None
          have "protected p (set_of r) m m2"
            using res(2) None by (intro protected_trans [OF m1(4) _ inside]) (simp_all add: mprotect_outcome_def out)
          moreover have "relax \<or> (\<forall>a \<in> set_of r. mapped m a \<noteq> None)"
            using res(2) None in_r1 skip(2) part protected_mapped [OF m1(4)]
            by (simp add: mprotect_outcome_def out del: mem_set_of) blast
          ultimately show ?thesis using step ok2 None by (simp add: mprotect_outcome_def out)
        next
          case (Some err)
          then obtain va where va: "err = NotMapped va" using res(2) by (cases err) (simp_all add: mprotect_outcome_def out)
          have o: "\<not> relax" "va \<in> set_of ?r2" "mapped m va = None" "\<forall>a \<in> set_of ?r2. a < va \<longrightarrow> mapped m a \<noteq> None"
            "protected p {a \<in> set_of ?r2. a < va} m1 m2"
            using res(2) protected_mapped [OF m1(4)] by (auto simp: mprotect_outcome_def out Some va simp del: mem_set_of)
          have below: "a < va" if "a \<in> set_of ?s" for a
            using that o(2) word_succ_iffs(1) [OF lt, of va] by (auto intro: le_less_trans)
          have "protected p {a \<in> set_of r. a < va} m m2"
            by (rule protected_trans [OF m1(4) o(5)]) (use inside below in blast)
          moreover have "va \<in> set_of r" using o(2) in_r1 [of va] sub_r by blast
          moreover have "mapped m a \<noteq> None" if "a \<in> set_of r" "a < va" for a
            using in_r1 [of a] skip(2) [of a] that o(1,4) part [of a] by blast
          ultimately show ?thesis using step ok2 o(1,3) by (simp add: mprotect_outcome_def out Some va)
        qed
      qed
    qed
  qed
qed

end
