(* ===== verification/MemoryMapAccess.thy ===== *)
theory MemoryMapAccess
  imports MemoryMapCorrect
begin

declare One_nat_def [simp del]

text \<open>
  Reading and writing through a memory map: what \<open>read\<close> returns, that it returns what \<open>write\<close> wrote, and that
  copy-on-write keeps the bytes of other maps.
\<close>

section \<open>Requests\<close>

text \<open>
  \<open>read1\<close> and \<open>write1\<close> run to the end of the buffer, not to the end of the segment. Both ends agree for a request if each
  segment that it meets ends where its buffer ends, or contains the rest of the request.
\<close>

definition tight :: "bheap \<Rightarrow> extent \<Rightarrow> segment \<Rightarrow> bool" where
  "tight h r sg = (case sg_buffer sg of None \<Rightarrow> True
     | Some b \<Rightarrow> unat (buffer_offset sg) + (unat (r_last r) - unat (r_first r)) + 1 = unat (p_size (buf h b)))"

definition request_ok :: "bheap \<Rightarrow> memory_map \<Rightarrow> u64 \<Rightarrow> nat \<Rightarrow> bool" where
  "request_ok h m va n \<longleftrightarrow>
     (\<forall>i < n. \<forall>(r, sg) \<in> set m. va + of_nat i \<in> set_of r \<longrightarrow>
        tight h r sg \<or> n - i \<le> unat (r_last r) - unat (va + of_nat i) + 1)"

definition readable :: "bheap \<Rightarrow> memory_map \<Rightarrow> u32 \<Rightarrow> u64 \<Rightarrow> u8 option" where
  "readable h m p a = (if allows p m a then mm_byte h m a else None)"

text \<open>The bytes from an address on, up to the first one that is not available.\<close>

fun available :: "(u64 \<Rightarrow> u8 option) \<Rightarrow> u64 \<Rightarrow> nat \<Rightarrow> u8 list" where
  "available f va 0 = []"
| "available f va (Suc n) = (case f va of None \<Rightarrow> [] | Some x \<Rightarrow> x # available f (va + 1) n)"

lemma available_append:
  assumes "\<forall>i < length bs. f (va + of_nat i) = Some (bs ! i)" "length bs \<le> n"
  shows "available f va n = bs @ available f (va + of_nat (length bs)) (n - length bs)"
  using assms
proof (induction bs arbitrary: va n)
  case (Cons x bs)
  then obtain n' where n: "n = Suc n'" by (cases n) auto
  have "f (va + 1 + of_nat i) = Some (bs ! i)" if "i < length bs" for i
    using Cons.prems(1) [rule_format, of "Suc i"] that by (simp add: add.assoc)
  then have "available f (va + 1) n' = bs @ available f (va + 1 + of_nat (length bs)) (n' - length bs)"
    using Cons.IH [of "va + 1" n'] Cons.prems(2) n by simp
  moreover have "f va = Some x" using Cons.prems(1) [rule_format, of 0] by simp
  ultimately show ?case by (simp add: n ac_simps)
qed simp

lemma available_none: "f va = None \<Longrightarrow> available f va n = []"
  by (cases n) simp_all

lemma request_okD:
  "request_ok h m va n \<Longrightarrow> i < n \<Longrightarrow> (r, sg) \<in> set m \<Longrightarrow> va + of_nat i \<in> set_of r \<Longrightarrow>
    tight h r sg \<or> n - i \<le> unat (r_last r) - unat (va + of_nat i) + 1"
  unfolding request_ok_def by blast

lemma request_okI:
  assumes "\<And>i r sg. i < n \<Longrightarrow> (r, sg) \<in> set m \<Longrightarrow> va + of_nat i \<in> set_of r \<Longrightarrow>
    tight h r sg \<or> n - i \<le> unat (r_last r) - unat (va + of_nat i) + 1"
  shows "request_ok h m va n"
  unfolding request_ok_def using assms by blast

lemma request_ok_later:
  assumes "request_ok h m va n" "k \<le> n"
  shows "request_ok h m (va + of_nat k) (n - k)"
proof (rule request_okI)
  fix i r sg assume i: "i < n - k" and e: "(r, sg) \<in> set m" "va + of_nat k + of_nat i \<in> set_of r"
  have a: "va + of_nat k + of_nat i = va + of_nat (k + i)" by (simp add: algebra_simps)
  have "k + i < n" using i by simp
  from request_okD [OF assms(1) this e(1)] e(2) show "tight h r sg \<or> n - k - i \<le> unat (r_last r) - unat (va + of_nat k + of_nat i) + 1"
    unfolding a diff_diff_left by blast
qed

text \<open>A stretch of a segment that a request may cover.\<close>

lemma stretch:
  assumes "mm_ok h m" "(r, sg) \<in> set m" "a \<in> set_of r" "sg_buffer sg = Some b" "request_ok h m a n" "0 < n"
    and "i < n" "unat (buffer_offset sg + a - r_first r) + i < unat (p_size (buf h b))"
  shows "unat (a + of_nat i) = unat a + i" "a + of_nat i \<in> set_of r"
    "mapped m (a + of_nat i) = Some (Some (b, unat (buffer_offset sg + a - r_first r) + i), mapperms sg)"
proof -
  have fits: "seg_fits h r sg" using mm_ok_seg [OF assms(1,2)] by simp
  note off = segment_offset [OF fits assms(4,3)]
  have ord: "unat (r_first r) \<le> unat a" "unat a \<le> unat (r_last r)" using assms(3) by (simp_all add: word_le_nat_alt)
  have "tight h r sg \<or> n \<le> unat (r_last r) - unat a + 1"
    using request_okD [OF assms(5,6,2)] assms(3) by simp
  then have i: "unat a + i \<le> unat (r_last r)"
    using assms(7,8) ord by (auto simp: tight_def assms(4) off(2))
  then have "unat a + i < 2 ^ 64" using unat_less_length_power [of "r_last r"] by simp
  then show u: "unat (a + of_nat i) = unat a + i" by (simp add: unat_word_ariths unat_of_nat)
  then show mem: "a + of_nat i \<in> set_of r" using i ord by (simp add: word_le_nat_alt)
  have "mapped m (a + of_nat i) = Some (seg_cell r sg (a + of_nat i))"
    using assms(2) mem mapped_Some [OF mm_ok_rm(1) [OF assms(1)]] by blast
  then show "mapped m (a + of_nat i) = Some (Some (b, unat (buffer_offset sg + a - r_first r) + i), mapperms sg)"
    using ord by (simp add: seg_cell_def assms(4) u off(2))
qed

section \<open>Reading\<close>

lemma mapped_cases:
  assumes "rm_ok m"
  obtains "mapped m a = None" | r sg where "(r, sg) \<in> set m" "a \<in> set_of r"
  using mapped_dom [OF assms, of a] unfolding rm_dom_def by fastforce

lemma mapped_in: "rm_ok m \<Longrightarrow> (r, sg) \<in> set m \<Longrightarrow> a \<in> set_of r \<Longrightarrow> mapped m a = Some (seg_cell r sg a)"
  using mapped_Some by blast

lemma read1_correct:
  assumes "mm_ok h m" "request_ok h m a (unat n)" "0 < unat n"
  shows "\<exists>bs. mm_read1 h m a n p = Some bs \<and> length bs \<le> unat n \<and>
    (\<forall>i < length bs. readable h m p (a + of_nat i) = Some (bs ! i)) \<and> (bs = [] \<longrightarrow> readable h m p a = None)"
proof (cases rule: mapped_cases [OF mm_ok_rm(1) [OF assms(1)], of a])
  case 1
  then show ?thesis
    using read1_unmapped [OF mm_ok_rm(1) [OF assms(1)]] by (simp add: readable_def allows_def)
next
  case (2 r sg)
  note here = mapped_in [OF mm_ok_rm(1) [OF assms(1)] 2]
  have fits: "seg_fits h r sg" using mm_ok_seg [OF assms(1) 2(1)] by simp
  note rd = read1_at [OF assms(1) 2, of n p]
  show ?thesis
  proof (cases "sg_buffer sg")
    case None
    then show ?thesis using rd here by (simp add: readable_def mm_byte_def seg_cell_def byte_of_def)
  next
    case (Some b)
    show ?thesis
    proof (cases "(mapperms sg AND p) = p")
      case False
      then show ?thesis using rd here Some by (simp add: readable_def allows_def seg_cell_def)
    next
      case True
      let ?off = "buffer_offset sg + a - r_first r"
      let ?bs = "buffer_read h b ?off n"
      note off = segment_offset [OF fits Some 2(2)]
      have len: "length ?bs \<le> unat n" by (simp add: unat_span)
      have lt: "unat ?off + i < unat (p_size (buf h b))" if "i < length ?bs" for i
        using that off(3) by (auto simp: unat_span split: if_splits)
      have "readable h m p (a + of_nat i) = Some (?bs ! i)" if "i < length ?bs" for i
      proof -
        have "i < unat n" using that len by simp
        note st = stretch [OF assms(1) 2 Some assms(2,3) this lt [OF that]]
        have "content h b (unat ?off + i) = Some (?bs ! i)"
        proof -
          have "?bs ! i = the (content h b (unat ?off + i))" using that by (simp add: buffer_read_content)
          moreover have "content h b (unat ?off + i) \<noteq> None"
            using that lt [OF that] by (auto simp: content_def unat_span split: if_splits)
          ultimately show ?thesis by auto
        qed
        then show ?thesis using st(3) True by (simp add: readable_def allows_def mm_byte_def byte_of_def)
      qed
      moreover have "readable h m p a = None" if "?bs = []"
      proof -
        have "unat (span (buf h b) ?off n) = 0" using that by (metis length_buffer_read list.size(3))
        then have "\<not> has_bytes (buf h b)" using off(3) assms(3) by (auto simp: unat_span word_less_nat_alt split: if_splits)
        then show ?thesis using here by (simp add: readable_def mm_byte_def seg_cell_def Some byte_of_def content_def)
      qed
      ultimately show ?thesis using rd Some True len by auto
    qed
  qed
qed

lemma read_list_correct:
  assumes "mm_ok h m" "request_ok h m a (unat n)"
  shows "mm_read_list h m a n p = Some (available (readable h m p) a (unat n))"
  unfolding mm_read_list_def using assms
proof (induction h m a n p rule: read_list_loop.induct)
  case (1 h m a n p)
  show ?case
  proof (cases "n > 0")
    case False
    then have "n = 0" by (simp add: word_gt_0)
    then show ?thesis by (subst read_list_loop.simps) simp
  next
    case True
    then have n: "0 < unat n" by (simp add: unat_gt_0)
    obtain bs where bs: "mm_read1 h m a n p = Some bs" "length bs \<le> unat n"
      "\<forall>i < length bs. readable h m p (a + of_nat i) = Some (bs ! i)" "bs = [] \<longrightarrow> readable h m p a = None"
      using read1_correct [OF 1(2,3) n] by blast
    show ?thesis
    proof (cases "bs = []")
      case empty: True
      have "read_list_loop h m a n p = Some []" using True bs(1) empty by (subst read_list_loop.simps) simp
      then show ?thesis using bs(4) empty by (simp add: available_none)
    next
      case False
      have k: "unat (of_nat (length bs) :: u64) = length bs"
        using bs(2) unat_less_length_power [of n] by (intro unat_of_nat_less) simp
      then have sub: "unat (n - of_nat (length bs)) = unat n - length bs" using bs(2) by (simp add: unat_sub word_le_nat_alt)
      have "read_list_loop h m (a + of_nat (length bs)) (n - of_nat (length bs)) p =
          Some (available (readable h m p) (a + of_nat (length bs)) (unat (n - of_nat (length bs))))"
        by (rule 1(1) [OF True bs(1) False bs(1)]) (use request_ok_later [OF 1(3) bs(2)] 1(2) in \<open>simp_all add: sub\<close>)
      then have "read_list_loop h m a n p = Some (bs @ available (readable h m p) (a + of_nat (length bs)) (unat n - length bs))"
        using True False bs(1) by (subst read_list_loop.simps) (simp add: sub)
      then show ?thesis using available_append [OF bs(3,2)] by simp
    qed
  qed
qed

section \<open>Writing\<close>

definition same_place :: "memory_map \<Rightarrow> u64 \<Rightarrow> u64 \<Rightarrow> bool" where
  "same_place m a c = (case (mapped m a, mapped m c) of
      (Some (Some x, _), Some (Some y, _)) \<Rightarrow> x = y | _ \<Rightarrow> False)"

definition writable_at :: "bheap \<Rightarrow> memory_map \<Rightarrow> u32 \<Rightarrow> u64 \<Rightarrow> bool" where
  "writable_at h m p a = (\<exists>(r, sg) \<in> set m. a \<in> set_of r \<and> (mapperms sg AND p) = p \<and>
     (\<exists>b. sg_buffer sg = Some b \<and> has_bytes (buf h b) \<and> (copy_on_write sg \<or> writable (buf h b))))"

text \<open>A write changes bytes, and gives a map buffers of its own, but nothing else of what can be observed.\<close>

definition follows :: "bheap \<Rightarrow> memory_map \<Rightarrow> bheap \<Rightarrow> memory_map \<Rightarrow> bool" where
  "follows h m h' m' \<longleftrightarrow> mm_ok h' m' \<and> (\<forall>a c. same_place m' a c = same_place m a c) \<and>
     (\<forall>p a. allows p m' a = allows p m a) \<and> (\<forall>p a. writable_at h m p a \<longrightarrow> writable_at h' m' p a) \<and>
     (\<forall>va n. request_ok h m va n \<longrightarrow> request_ok h' m' va n)"

definition buffers_of :: "memory_map \<Rightarrow> nat set" where
  "buffers_of m = {b. \<exists>(r, sg) \<in> set m. sg_buffer sg = Some b}"

text \<open>A map that shares buffers with another one marks its segments of these as copy-on-write.\<close>

definition isolated :: "memory_map \<Rightarrow> memory_map \<Rightarrow> bool" where
  "isolated m other \<longleftrightarrow> (\<forall>(r, sg) \<in> set m. \<forall>b \<in> buffers_of other. sg_buffer sg = Some b \<longrightarrow> copy_on_write sg)"

definition unaffected :: "bheap \<Rightarrow> bheap \<Rightarrow> memory_map \<Rightarrow> bool" where
  "unaffected h h' other \<longleftrightarrow> mm_ok h' other \<and> (\<forall>a. mm_byte h' other a = mm_byte h other a)"

lemma isolatedD: "isolated m other \<Longrightarrow> (r, sg) \<in> set m \<Longrightarrow> b \<in> buffers_of other \<Longrightarrow> sg_buffer sg = Some b \<Longrightarrow> copy_on_write sg"
  unfolding isolated_def by blast

lemma follows_refl: "mm_ok h m \<Longrightarrow> follows h m h m"
  by (simp add: follows_def)

lemma follows_trans: "follows h m h1 m1 \<Longrightarrow> follows h1 m1 h2 m2 \<Longrightarrow> follows h m h2 m2"
  by (simp add: follows_def)

lemma tight_shape: "same_shape h h' \<Longrightarrow> seg_fits h r sg \<Longrightarrow> tight h' r sg = tight h r sg"
  by (auto simp: tight_def seg_fits_def same_shape_def split: option.split)

lemma request_ok_shape:
  assumes "mm_ok h m" "same_shape h h'" "request_ok h m va n"
  shows "request_ok h' m va n"
proof (rule request_okI)
  fix i r sg assume i: "i < n" "(r, sg) \<in> set m" "va + of_nat i \<in> set_of r"
  have "tight h' r sg = tight h r sg" using mm_ok_seg [OF assms(1) i(2)] tight_shape [OF assms(2)] by blast
  then show "tight h' r sg \<or> n - i \<le> unat (r_last r) - unat (va + of_nat i) + 1"
    using request_okD [OF assms(3) i] by simp
qed

lemma writable_at_shape:
  assumes "mm_ok h m" "same_shape h h'" "writable_at h m p a"
  shows "writable_at h' m p a"
proof -
  obtain r sg b where s: "(r, sg) \<in> set m" "a \<in> set_of r" "(mapperms sg AND p) = p" "sg_buffer sg = Some b"
    "has_bytes (buf h b)" "copy_on_write sg \<or> writable (buf h b)" using assms(3) unfolding writable_at_def by blast
  then have b: "b < length (bh_buffers h)" using mm_ok_seg [OF assms(1) s(1)] by (simp add: seg_fits_def)
  then have "has_bytes (buf h' b)" "writable (buf h' b) = writable (buf h b)"
    using assms(2) s(5) same_shape_writable by (auto simp: same_shape_def)
  then show ?thesis using s unfolding writable_at_def by blast
qed

lemma follows_shape: "mm_ok h m \<Longrightarrow> same_shape h h' \<Longrightarrow> heap_ok h' \<Longrightarrow> follows h m h' m"
  using mm_ok_shape request_ok_shape writable_at_shape by (auto simp: follows_def)

subsection \<open>The copies of copy-on-write\<close>

definition cow_segment :: "nat \<Rightarrow> nat \<Rightarrow> segment \<Rightarrow> segment" where
  "cow_segment old_buf new_buf sg =
     (if sg_buffer sg = Some old_buf then set_cow (set_buffer sg (Some new_buf)) False else sg)"

lemma cow_segments_map: "cow_segments o1 n1 m = map (\<lambda>(r, sg). (r, cow_segment o1 n1 sg)) m"
  by (simp add: cow_segments_def cow_segment_def)

lemma cow_segment_simps [simp]:
  "mapperms (cow_segment o1 n1 sg) = mapperms sg" "buffer_offset (cow_segment o1 n1 sg) = buffer_offset sg"
  "sg_buffer (cow_segment o1 n1 sg) = (if sg_buffer sg = Some o1 then Some n1 else sg_buffer sg)"
  "copy_on_write (cow_segment o1 n1 sg) = (if sg_buffer sg = Some o1 then False else copy_on_write sg)"
  by (simp_all add: cow_segment_def set_cow_def set_buffer_def)

definition move_cell :: "nat \<Rightarrow> nat \<Rightarrow> (nat \<times> nat) option \<times> u32 \<Rightarrow> (nat \<times> nat) option \<times> u32" where
  "move_cell o1 n1 c = (map_option (\<lambda>(b, i). (if b = o1 then n1 else b, i)) (fst c), snd c)"

lemma seg_cell_cow: "seg_cell r (cow_segment o1 n1 sg) a = move_cell o1 n1 (seg_cell r sg a)"
  by (cases "sg_buffer sg") (simp_all add: seg_cell_def move_cell_def)

lemma cow_ranges: "map fst (cow_segments o1 n1 m) = map fst m"
  by (simp add: cow_segments_map case_prod_unfold comp_def)

lemma cow_mapped:
  assumes "rm_ok m"
  shows "mapped (cow_segments o1 n1 m) a = map_option (move_cell o1 n1) (mapped m a)"
proof -
  have ok: "rm_ok (cow_segments o1 n1 m)" using rm_ok_ranges [OF cow_ranges] assms by blast
  show ?thesis
  proof (cases rule: mapped_cases [OF assms, of a])
    case 1
    have "rm_dom (cow_segments o1 n1 m) = rm_dom m" by (simp add: rm_dom_def cow_segments_map case_prod_unfold)
    then show ?thesis using 1 mapped_dom [OF assms] mapped_dom [OF ok] by (metis option.map_disc_iff)
  next
    case (2 r sg)
    have "(r, cow_segment o1 n1 sg) \<in> set (cow_segments o1 n1 m)" using 2(1) by (force simp: cow_segments_map)
    from mapped_in [OF ok this 2(2)] mapped_in [OF assms 2] show ?thesis by (simp add: seg_cell_cow)
  qed
qed

lemma extends_fits: "extends h h' \<Longrightarrow> seg_fits h r sg \<Longrightarrow> seg_fits h' r sg"
  by (auto simp: seg_fits_def extends_def split: option.splits)

lemma extends_ok: "mm_ok h m \<Longrightarrow> extends h h' \<Longrightarrow> heap_ok h' \<Longrightarrow> mm_ok h' m"
  using extends_fits by (auto simp: mm_ok_def rm_inv_def seg_ok_def)

lemma mapped_valid:
  assumes "mm_ok h m" "mapped m a = Some (Some (b, i), p)"
  shows "b < length (bh_buffers h)" "i < unat (p_size (buf h b))"
proof -
  obtain r sg where s: "(r, sg) \<in> set m" "a \<in> set_of r" "(Some (b, i), p) = seg_cell r sg a"
    using assms(2) mapped_Some [OF mm_ok_rm(1) [OF assms(1)], of a] by metis
  then have b: "sg_buffer sg = Some b" "i = unat (buffer_offset sg) + (unat a - unat (r_first r))"
    by (cases "sg_buffer sg"; simp add: seg_cell_def)+
  have fits: "seg_fits h r sg" using mm_ok_seg [OF assms(1) s(1)] by simp
  then show "b < length (bh_buffers h)" using b(1) by (simp add: seg_fits_def)
  show "i < unat (p_size (buf h b))" using segment_offset(2,3) [OF fits b(1) s(2)] b(2) by simp
qed

lemma byte_cong:
  assumes "mm_ok h m" "\<And>b i. b < length (bh_buffers h) \<Longrightarrow> content h' b i = content h b i"
  shows "mm_byte h' m a = mm_byte h m a"
  using assms(2) mapped_valid(1) [OF assms(1), of a]
  by (cases "mapped m a") (auto simp: mm_byte_def byte_of_def split: option.splits)

lemma extends_unaffected:
  assumes "mm_ok h other" "extends h h'" "heap_ok h'"
  shows "unaffected h h' other"
  using extends_ok [OF assms] byte_cong [OF assms(1), of h'] assms(2) by (simp add: unaffected_def extends_def)

lemma buffers_of_valid:
  assumes "mm_ok h m" "b \<in> buffers_of m"
  shows "b < length (bh_buffers h)"
proof -
  obtain r sg where "(r, sg) \<in> set m" "sg_buffer sg = Some b" using assms(2) unfolding buffers_of_def by blast
  then show ?thesis using mm_ok_seg [OF assms(1), of r sg] by (simp add: seg_fits_def)
qed

lemma cow_stage:
  assumes "mm_ok h m" "cloned h b nb h1" "b < length (bh_buffers h)"
  defines "m1 \<equiv> cow_segments b nb m"
  shows "follows h m h1 m1" "mm_byte h1 m1 a = mm_byte h m a"
proof -
  have nb: "nb = length (bh_buffers h)" "nb < length (bh_buffers h1)" "heap_ok h1" "extends h h1"
    and same: "p_size (buf h1 nb) = p_size (buf h b)" "\<not> bf_read_only (buf h1 nb)" "has_bytes (buf h1 nb) = has_bytes (buf h b)"
      "\<forall>i. content h1 nb i = content h b i"
    using assms(2) unfolding cloned_def by blast+
  have old: "buf h1 c = buf h c" if "c < length (bh_buffers h)" for c using nb(4) that by (simp add: extends_def)
  note ok = mm_ok_rm(1) [OF assms(1)]
  have fits: "seg_fits h1 r (cow_segment b nb sg)" if "seg_fits h r sg" for r sg
    using that nb(1,2) same(1) old by (auto simp: seg_fits_def split: option.splits if_splits)
  have tight: "tight h1 r (cow_segment b nb sg) = tight h r sg" if "seg_fits h r sg" for r sg
    using that same(1) old by (auto simp: seg_fits_def tight_def split: option.splits if_splits)
  have "rm_ok m1" using rm_ok_ranges [OF cow_ranges] ok by (simp add: m1_def)
  then have ok1: "mm_ok h1 m1"
    using assms(1) nb(3) fits mm_ok_seg [OF assms(1)] by (auto simp: mm_ok_def rm_inv_def seg_ok_def m1_def cow_segments_map)
  have mapped1: "mapped m1 a = map_option (move_cell b nb) (mapped m a)" for a
    unfolding m1_def by (rule cow_mapped [OF ok])
  have valid: "c < length (bh_buffers h)" if "mapped m a = Some (Some (c, i), p)" for a c i p
    using mapped_valid(1) [OF assms(1) that] .
  define mv where "mv x = (if fst x = b then nb else fst x, snd x)" for x :: "nat \<times> nat"
  have inj: "mv x = mv y \<longleftrightarrow> x = y" if "fst x < length (bh_buffers h)" "fst y < length (bh_buffers h)" for x y
    using that nb(1) by (auto simp: mv_def prod_eq_iff)
  have mv: "move_cell b nb (Some x, p) = (Some (mv x), p)" "move_cell b nb (None, p) = (None, p)" for x p
    by (simp_all add: move_cell_def mv_def case_prod_unfold)
  have "same_place m1 a c = same_place m a c" for a c
  proof (cases "\<exists>x p y q. mapped m a = Some (Some x, p) \<and> mapped m c = Some (Some y, q)")
    case True
    then obtain x p y q where xy: "mapped m a = Some (Some x, p)" "mapped m c = Some (Some y, q)" by blast
    then have "fst x < length (bh_buffers h)" "fst y < length (bh_buffers h)" using valid by (metis prod.collapse)+
    with xy show ?thesis by (simp add: same_place_def mapped1 mv inj)
  next
    case False
    then have "mapped m a = None \<or> (\<exists>p. mapped m a = Some (None, p)) \<or> mapped m c = None \<or> (\<exists>p. mapped m c = Some (None, p))"
      by (metis not_None_eq prod.collapse)
    then show ?thesis by (auto simp: same_place_def mapped1 mv split: option.splits)
  qed
  moreover have "allows p m1 a = allows p m a" for p a
    by (cases "mapped m a") (auto simp: allows_def mapped1 move_cell_def)
  moreover have "writable_at h1 m1 p a" if w: "writable_at h m p a" for p a
  proof -
    obtain r sg c where s: "(r, sg) \<in> set m" "a \<in> set_of r" "(mapperms sg AND p) = p" "sg_buffer sg = Some c"
      "has_bytes (buf h c)" "copy_on_write sg \<or> writable (buf h c)" using w unfolding writable_at_def by blast
    then have "c < length (bh_buffers h)" using mm_ok_seg [OF assms(1) s(1)] by (simp add: seg_fits_def)
    moreover have "(r, cow_segment b nb sg) \<in> set m1" using s(1) by (force simp: m1_def cow_segments_map)
    ultimately show ?thesis using s same(2,3) old unfolding writable_at_def
      by (intro bexI [of _ "(r, cow_segment b nb sg)"]) (auto simp: writable_def)
  qed
  moreover have "request_ok h1 m1 va n" if "request_ok h m va n" for va n
  proof (rule request_okI)
    fix i r sg1 assume i: "i < n" "(r, sg1) \<in> set m1" "va + of_nat i \<in> set_of r"
    then obtain sg where sg: "(r, sg) \<in> set m" "sg1 = cow_segment b nb sg" by (auto simp: m1_def cow_segments_map)
    then show "tight h1 r sg1 \<or> n - i \<le> unat (r_last r) - unat (va + of_nat i) + 1"
      using request_okD [OF that i(1) sg(1) i(3)] tight mm_ok_seg [OF assms(1) sg(1)] by simp
  qed
  ultimately show "follows h m h1 m1" using ok1 by (simp add: follows_def)
  have byte: "byte_of h1 (Some (mv x), p) = byte_of h (Some x, p)" if "fst x < length (bh_buffers h)" for x p
    using that same(4) nb(4) by (cases x) (auto simp: byte_of_def mv_def extends_def)
  show "mm_byte h1 m1 a = mm_byte h m a"
  proof (cases "\<exists>x p. mapped m a = Some (Some x, p)")
    case True
    then obtain x p where x: "mapped m a = Some (Some x, p)" by blast
    then have "fst x < length (bh_buffers h)" using valid by (metis prod.collapse)
    then show ?thesis using byte x by (simp add: mm_byte_def mapped1 mv)
  next
    case False
    then have "mapped m a = None \<or> (\<exists>p. mapped m a = Some (None, p))" by (metis not_None_eq prod.collapse)
    then show ?thesis by (auto simp: mm_byte_def mapped1 mv byte_of_def)
  qed
qed

lemma cow_isolated:
  assumes "mm_ok h other" "cloned h b nb h1" "isolated m other"
  shows "isolated (cow_segments b nb m) other" "nb \<notin> buffers_of other" "unaffected h h1 other"
proof -
  show nb: "nb \<notin> buffers_of other" using buffers_of_valid [OF assms(1)] assms(2) by (auto simp: cloned_def)
  show "unaffected h h1 other" using extends_unaffected [OF assms(1)] assms(2) by (auto simp: cloned_def)
  show "isolated (cow_segments b nb m) other"
    using isolatedD [OF assms(3)] nb unfolding isolated_def cow_segments_map by (auto split: if_splits)
qed

subsection \<open>One segment\<close>

definition write_done ::
  "bheap \<Rightarrow> memory_map \<Rightarrow> bheap \<Rightarrow> memory_map \<Rightarrow> u8 list \<Rightarrow> u64 \<Rightarrow> nat \<Rightarrow> bool" where
  "write_done h m h' m' bs va k \<longleftrightarrow> follows h m h' m' \<and>
     (\<forall>i < k. \<forall>a. same_place m a (va + of_nat i) \<longrightarrow> mm_byte h' m' a = Some (bs ! i)) \<and>
     (\<forall>a. (\<forall>i < k. \<not> same_place m a (va + of_nat i)) \<longrightarrow> mm_byte h' m' a = mm_byte h m a)"

lemma write_done_after:
  assumes "follows h m h1 m1" "\<And>a. mm_byte h1 m1 a = mm_byte h m a" "write_done h1 m1 h2 m2 bs va k"
  shows "write_done h m h2 m2 bs va k"
  using assms(1,3) follows_trans [OF assms(1)] by (simp add: write_done_def assms(2) follows_def)

lemma unaffected_trans: "unaffected h h1 other \<Longrightarrow> unaffected h1 h2 other \<Longrightarrow> unaffected h h2 other"
  by (simp add: unaffected_def)

lemma plain_stage:
  assumes "mm_ok h m" "(r, sg) \<in> set m" "va \<in> set_of r" "sg_buffer sg = Some b" "request_ok h m va n" "0 < n"
  defines "off \<equiv> buffer_offset sg + va - r_first r"
  assumes "write_effect h b off k bs h'" "unat k \<le> n" "unat k \<le> unat (p_size (buf h b)) - unat off"
  shows "write_done h m h' m bs va (unat k)"
proof -
  have fits: "seg_fits h r sg" using mm_ok_seg [OF assms(1,2)] by simp
  have b: "b < length (bh_buffers h)" using fits assms(4) by (simp add: seg_fits_def)
  have eff: "heap_ok h'" "same_shape h h'"
    "\<And>c i. c < length (bh_buffers h) \<Longrightarrow> content h' c i =
      (if c = b \<and> unat off \<le> i \<and> i < unat off + unat k then Some (bs ! (i - unat off)) else content h c i)"
    using assms(8) by (simp_all add: write_effect_def)
  have place: "mapped m (va + of_nat i) = Some (Some (b, unat off + i), mapperms sg)" if "i < unat k" for i
    using stretch(3) [OF assms(1-6)] that assms(9,10) unfolding off_def by simp
  have same: "same_place m a (va + of_nat i) \<longleftrightarrow> (\<exists>q. mapped m a = Some (Some (b, unat off + i), q))" if "i < unat k" for a i
    using place [OF that] by (auto simp: same_place_def split: option.splits)
  have hit: "mm_byte h' m a = Some (bs ! i)" if i: "i < unat k" "same_place m a (va + of_nat i)" for a i
  proof -
    obtain q where "mapped m a = Some (Some (b, unat off + i), q)" using same i by blast
    then show ?thesis using eff(3) [OF b, of "unat off + i"] i(1) by (simp add: mm_byte_def byte_of_def)
  qed
  have miss: "mm_byte h' m a = mm_byte h m a" if "\<forall>i < unat k. \<not> same_place m a (va + of_nat i)" for a
  proof (cases "\<exists>c j q. mapped m a = Some (Some (c, j), q)")
    case True
    then obtain c j q where cj: "mapped m a = Some (Some (c, j), q)" by blast
    have "\<not> (c = b \<and> unat off \<le> j \<and> j < unat off + unat k)"
    proof
      assume j: "c = b \<and> unat off \<le> j \<and> j < unat off + unat k"
      then have i: "j - unat off < unat k" and "unat off + (j - unat off) = j" by auto
      then have "same_place m a (va + of_nat (j - unat off))" unfolding same [OF i] using cj j by simp
      then show False using that i by blast
    qed
    then have "content h' c j = content h c j" using eff(3) [of c j] mapped_valid(1) [OF assms(1) cj] by auto
    then show ?thesis using cj by (simp add: mm_byte_def byte_of_def)
  next
    case False
    then have "mapped m a = None \<or> (\<exists>q. mapped m a = Some (None, q))" by (metis not_None_eq prod.collapse)
    then show ?thesis by (auto simp: mm_byte_def byte_of_def)
  qed
  show "write_done h m h' m bs va (unat k)"
    unfolding write_done_def using follows_shape [OF assms(1) eff(2,1)] hit miss by blast
qed

lemma effect_unaffected:
  assumes "mm_ok h other" "b \<notin> buffers_of other" "write_effect h b off k bs h'"
  shows "unaffected h h' other"
proof -
  have eff: "heap_ok h'" "same_shape h h'"
    "\<And>c i. c < length (bh_buffers h) \<Longrightarrow> content h' c i =
      (if c = b \<and> unat off \<le> i \<and> i < unat off + unat k then Some (bs ! (i - unat off)) else content h c i)"
    using assms(3) by (simp_all add: write_effect_def)
  have same: "content h' c i = content h c i" if "c \<in> buffers_of other" for c i
  proof -
    have "c \<noteq> b" using that assms(2) by blast
    then show ?thesis using eff(3) [OF buffers_of_valid [OF assms(1) that]] by simp
  qed
  have "mm_byte h' other a = mm_byte h other a" for a
  proof (cases rule: mapped_cases [OF mm_ok_rm(1) [OF assms(1)], of a])
    case (2 r' sg')
    then have "c \<in> buffers_of other" if "sg_buffer sg' = Some c" for c using that unfolding buffers_of_def by blast
    then show ?thesis using mapped_in [OF mm_ok_rm(1) [OF assms(1)] 2] same
      by (cases "sg_buffer sg'") (simp_all add: mm_byte_def seg_cell_def byte_of_def)
  qed (simp add: mm_byte_def)
  then show ?thesis using mm_ok_shape [OF assms(1) eff(2,1)] by (simp add: unaffected_def)
qed

text \<open>The evaluation of \<open>write1\<close> at a mapped address.\<close>

lemma write1_at:
  assumes "mm_ok h m" "(r, sg) \<in> set m" "a \<in> set_of r" "sg_buffer sg = Some b" "(mapperms sg AND p) = p"
  defines "nb \<equiv> if copy_on_write sg then fst (buffer_clone h b) else b"
    and "h1 \<equiv> if copy_on_write sg then snd (buffer_clone h b) else h"
    and "m1 \<equiv> if copy_on_write sg then cow_segments b (fst (buffer_clone h b)) m else m"
  shows "mm_write1 h m (Some bs) a n p =
    Some (fst (buffer_write h1 nb (Some bs) (buffer_offset sg + a - r_first r) n),
      (snd (buffer_write h1 nb (Some bs) (buffer_offset sg + a - r_first r) n), m1))"
    and "(r, cow_segment b nb sg) \<in> set m1"
proof -
  note f = find_of_mem [OF mm_ok_rm(1) [OF assms(1)] assms(2), of a]
  have fits: "seg_fits h r sg" "\<not> range_empty r" using mm_ok_seg [OF assms(1,2)] by simp_all
  note c = segment_contains [OF assms(3)] fits_check [OF fits(1) assms(4) fits(2)]
  have cs: "cow_segments b nb m ! rm_find m a = (r, cow_segment b nb sg)" using f assms(3) by (simp add: cow_segments_map)
  have off: "get_buffer_offset s r a = Some (buffer_offset s + a - r_first r)" for s
    using c(1) fits(2) by (simp add: get_buffer_offset_def range_first_def)
  show "mm_write1 h m (Some bs) a n p =
    Some (fst (buffer_write h1 nb (Some bs) (buffer_offset sg + a - r_first r) n),
      (snd (buffer_write h1 nb (Some bs) (buffer_offset sg + a - r_first r) n), m1))"
    using f assms(3-5) c cs off
    by (simp add: mm_write1_def nb_def h1_def m1_def case_prod_unfold Let_def split: if_splits)
  have mem: "(r, cow_segment b nb sg) \<in> set (cow_segments b nb m)" using assms(2) by (force simp: cow_segments_map)
  show "(r, cow_segment b nb sg) \<in> set m1"
  proof (cases "copy_on_write sg")
    case True
    then show ?thesis using mem by (simp add: m1_def nb_def)
  next
    case False
    then have "cow_segment b nb sg = sg" using assms(4) by (simp add: cow_segment_def set_cow_def set_buffer_def nb_def)
    then show ?thesis using False assms(2) by (simp add: m1_def)
  qed
qed

lemma write1_nothing:
  assumes "mm_ok h m" "\<And>r sg b. (r, sg) \<in> set m \<Longrightarrow> a \<in> set_of r \<Longrightarrow> sg_buffer sg = Some b \<Longrightarrow> (mapperms sg AND p) \<noteq> p"
  shows "mm_write1 h m src a n p = Some (0, (h, m))" "\<not> writable_at h m p a"
proof -
  show "\<not> writable_at h m p a" using assms(2) unfolding writable_at_def by blast
  show "mm_write1 h m src a n p = Some (0, (h, m))"
  proof (cases rule: mapped_cases [OF mm_ok_rm(1) [OF assms(1)], of a])
    case 1
    then show ?thesis using mapped_None [OF mm_ok_rm(1) [OF assms(1)]] by (simp add: mm_write1_def)
  next
    case (2 r sg)
    note f = find_of_mem [OF mm_ok_rm(1) [OF assms(1)] 2(1), of a]
    have "seg_check h sg r \<noteq> None" if "sg_buffer sg = None"
      using that mm_ok_seg [OF assms(1) 2(1)] by (simp add: seg_check_def)
    then have "(mapperms sg AND p) \<noteq> p \<or> seg_check h sg r \<noteq> None" using assms(2) [OF 2] by (cases "sg_buffer sg") auto
    then show ?thesis using f 2(2) segment_contains [OF 2(2)] by (auto simp: mm_write1_def simp del: mem_set_of)
  qed
qed

definition others_safe :: "bheap \<Rightarrow> memory_map \<Rightarrow> bheap \<Rightarrow> memory_map \<Rightarrow> bool" where
  "others_safe h m h' m' \<longleftrightarrow>
     (\<forall>other. mm_ok h other \<and> isolated m other \<longrightarrow> unaffected h h' other \<and> isolated m' other)"

lemma others_safe_refl: "others_safe h m h m"
  by (simp add: others_safe_def unaffected_def)

lemma others_safe_trans: "others_safe h m h1 m1 \<Longrightarrow> others_safe h1 m1 h2 m2 \<Longrightarrow> others_safe h m h2 m2"
  unfolding others_safe_def using unaffected_trans by (metis unaffected_def)

text \<open>The steps of a write to a mapped address that is permitted: the copy of the buffer, if the segment is marked, and the
  write to it. Another map that is isolated from this one keeps its bytes, whatever the request.\<close>

lemma write1_steps:
  assumes "mm_ok h m" "unat n \<le> length bs" "(r, sg) \<in> set m" "va \<in> set_of r" "sg_buffer sg = Some b" "(mapperms sg AND p) = p"
  defines "off \<equiv> buffer_offset sg + va - r_first r"
  shows "\<exists>nb h1 m1 h2 sg1. mm_write1 h m (Some bs) va n p = Some (written (buf h1 nb) off n, (h2, m1)) \<and>
    follows h m h1 m1 \<and> (\<forall>a. mm_byte h1 m1 a = mm_byte h m a) \<and>
    (r, sg1) \<in> set m1 \<and> sg_buffer sg1 = Some nb \<and> buffer_offset sg1 = buffer_offset sg \<and>
    write_effect h1 nb off (written (buf h1 nb) off n) bs h2 \<and>
    (has_bytes (buf h b) \<and> (copy_on_write sg \<or> writable (buf h b)) \<longrightarrow> writable (buf h1 nb)) \<and>
    others_safe h m h2 m1"
proof -
  have fits: "seg_fits h r sg" using mm_ok_seg [OF assms(1,3)] by simp
  have b: "b < length (bh_buffers h)" using fits assms(5) by (simp add: seg_fits_def)
  have cl: "cloned h b (fst (buffer_clone h b)) (snd (buffer_clone h b))" by (rule clone_correct [OF mm_ok_rm(2) [OF assms(1)] b])
  define nb where "nb = (if copy_on_write sg then fst (buffer_clone h b) else b)"
  define h1 where "h1 = (if copy_on_write sg then snd (buffer_clone h b) else h)"
  define m1 where "m1 = (if copy_on_write sg then cow_segments b (fst (buffer_clone h b)) m else m)"
  let ?sg = "cow_segment b nb sg"
  note w = write1_at(1) [OF assms(1,3-6), of bs n, folded nb_def h1_def m1_def off_def]
    write1_at(2) [OF assms(1,3-6), folded nb_def m1_def]
  have stage: "follows h m h1 m1" "\<And>a. mm_byte h1 m1 a = mm_byte h m a"
    using cow_stage [OF assms(1) cl b] follows_refl [OF assms(1)] by (simp_all add: h1_def m1_def)
  have ok1: "mm_ok h1 m1" using stage(1) by (simp add: follows_def)
  have sg1: "sg_buffer ?sg = Some nb" "buffer_offset ?sg = buffer_offset sg" using assms(5) by simp_all
  have nb: "nb < length (bh_buffers h1)" using mm_ok_seg [OF ok1 w(2)] sg1(1) by (simp add: seg_fits_def)
  let ?k = "written (buf h1 nb) off n"
  have "unat ?k \<le> length bs" using assms(2) by (simp add: written_def unat_span min_le_iff_disj)
  from buffer_write_correct [OF mm_ok_rm(2) [OF ok1] nb this]
  obtain h2 where h2: "buffer_write h1 nb (Some bs) off n = (?k, h2)" "write_effect h1 nb off ?k bs h2" by blast
  have wr: "writable (buf h1 nb)" if "has_bytes (buf h b)" "copy_on_write sg \<or> writable (buf h b)"
    using that cl by (auto simp: h1_def nb_def writable_def cloned_def)
  have "others_safe h m h2 m1"
    unfolding others_safe_def
  proof (intro allI impI)
    fix other assume o: "mm_ok h other \<and> isolated m other"
    have one: "unaffected h h1 other \<and> isolated m1 other \<and> nb \<notin> buffers_of other"
    proof (cases "copy_on_write sg")
      case True
      then show ?thesis using cow_isolated [OF conjunct1 [OF o] cl conjunct2 [OF o]] by (simp add: h1_def m1_def nb_def)
    next
      case False
      then have "b \<notin> buffers_of other" using isolatedD [OF conjunct2 [OF o] assms(3) _ assms(5)] by blast
      then show ?thesis using False o by (simp add: h1_def m1_def nb_def unaffected_def)
    qed
    then have "unaffected h1 h2 other" using effect_unaffected [OF _ _ h2(2)] by (simp add: unaffected_def)
    then show "unaffected h h2 other \<and> isolated m1 other" using one unaffected_trans by blast
  qed
  moreover have "mm_write1 h m (Some bs) va n p = Some (?k, (h2, m1))" using w(1) h2(1) by simp
  ultimately show ?thesis using stage w(2) sg1 h2(2) wr by blast
qed

lemma write1_correct:
  assumes "mm_ok h m" "request_ok h m va (unat n)" "0 < unat n" "unat n \<le> length bs"
  shows "\<exists>k h' m'. mm_write1 h m (Some bs) va n p = Some (k, (h', m')) \<and> unat k \<le> unat n \<and>
    write_done h m h' m' bs va (unat k) \<and> (k = 0 \<longrightarrow> \<not> writable_at h m p va) \<and> others_safe h m h' m'"
proof (cases "\<exists>r sg b. (r, sg) \<in> set m \<and> va \<in> set_of r \<and> sg_buffer sg = Some b \<and> (mapperms sg AND p) = p")
  case False
  then have "mm_write1 h m (Some bs) va n p = Some (0, (h, m))" "\<not> writable_at h m p va"
    using write1_nothing [OF assms(1)] by blast+
  moreover have "write_done h m h m bs va (unat 0)" using follows_refl [OF assms(1)] by (simp add: write_done_def)
  ultimately show ?thesis using others_safe_refl by fastforce
next
  case True
  then obtain r sg b where sg: "(r, sg) \<in> set m" "va \<in> set_of r" "sg_buffer sg = Some b" "(mapperms sg AND p) = p" by blast
  define off where "off = buffer_offset sg + va - r_first r"
  obtain nb h1 m1 h2 sg1 where s: "mm_write1 h m (Some bs) va n p = Some (written (buf h1 nb) off n, (h2, m1))"
    "follows h m h1 m1" "\<forall>a. mm_byte h1 m1 a = mm_byte h m a"
    "(r, sg1) \<in> set m1" "sg_buffer sg1 = Some nb" "buffer_offset sg1 = buffer_offset sg"
    "write_effect h1 nb off (written (buf h1 nb) off n) bs h2"
    "has_bytes (buf h b) \<and> (copy_on_write sg \<or> writable (buf h b)) \<longrightarrow> writable (buf h1 nb)" "others_safe h m h2 m1"
    using write1_steps [OF assms(1,4) sg, folded off_def] by (elim exE conjE) (rule that)
  have ok1: "mm_ok h1 m1" "request_ok h1 m1 va (unat n)" using s(2) assms(2) by (simp_all add: follows_def)
  have fits1: "seg_fits h1 r sg1" using mm_ok_seg [OF ok1(1) s(4)] by simp
  note offs = segment_offset [OF fits1 s(5) sg(2), unfolded s(6), folded off_def]
  have k: "unat (written (buf h1 nb) off n) \<le> unat n" "unat (written (buf h1 nb) off n) \<le> unat (p_size (buf h1 nb)) - unat off"
    by (simp_all add: written_def unat_span)
  have bytes: "mm_byte h1 m1 a = mm_byte h m a" for a using s(3) by blast
  have "write_done h1 m1 h2 m1 bs va (unat (written (buf h1 nb) off n))"
    by (rule plain_stage [OF ok1(1) s(4) sg(2) s(5) ok1(2) assms(3), unfolded s(6), folded off_def, OF s(7) k])
  then have "write_done h m h2 m1 bs va (unat (written (buf h1 nb) off n))"
    by (rule write_done_after [OF s(2) bytes])
  moreover have "\<not> writable_at h m p va" if zero: "written (buf h1 nb) off n = 0"
  proof
    assume "writable_at h m p va"
    then obtain r' sg' b' where s': "(r', sg') \<in> set m" "va \<in> set_of r'" "sg_buffer sg' = Some b'" "has_bytes (buf h b')"
      "copy_on_write sg' \<or> writable (buf h b')" unfolding writable_at_def by blast
    have "(r', sg') = (r, sg)" using rm_ok_unique [OF mm_ok_rm(1) [OF assms(1)] s'(1) sg(1), of va] s'(2) sg(2) by simp
    then have w: "writable (buf h1 nb)" using s(8) s'(3-5) sg(3) by auto
    then have "0 < unat (span (buf h1 nb) off n)"
      using offs(3) assms(3) by (simp add: unat_span writable_def word_less_nat_alt)
    then show False using zero w by (auto simp: written_def)
  qed
  ultimately show ?thesis using k(1) s(1,9) by blast
qed

subsection \<open>The whole request\<close>

text \<open>No two addresses of the request are the same byte of a buffer.\<close>

definition separate :: "memory_map \<Rightarrow> u64 \<Rightarrow> nat \<Rightarrow> bool" where
  "separate m va n \<longleftrightarrow> (\<forall>i < n. \<forall>j < n. i \<noteq> j \<longrightarrow> \<not> same_place m (va + of_nat i) (va + of_nat j))"

lemma same_place_sym: "same_place m a c = same_place m c a"
  by (auto simp: same_place_def split: option.splits)

lemma same_place_trans: "same_place m a c \<Longrightarrow> same_place m c d \<Longrightarrow> same_place m a d"
  by (auto simp: same_place_def split: option.splits)

lemma separate_later:
  assumes "separate m va n" "k \<le> n"
  shows "separate m (va + of_nat k) (n - k)"
  unfolding separate_def
proof (intro allI impI)
  fix i j assume "i < n - k" "j < n - k" "i \<noteq> j"
  then have "k + i < n" "k + j < n" "k + i \<noteq> k + j" by simp_all
  then have "\<not> same_place m (va + of_nat (k + i)) (va + of_nat (k + j))"
    using assms(1) unfolding separate_def by blast
  then show "\<not> same_place m (va + of_nat k + of_nat i) (va + of_nat k + of_nat j)" by (simp add: add.assoc)
qed

lemma write_done_append:
  assumes "write_done h m h1 m1 bs va k1" "write_done h1 m1 h2 m2 (drop k1 bs) (va + of_nat k1) k2"
    and "separate m va (k1 + k2)" "k1 + k2 \<le> length bs"
  shows "write_done h m h2 m2 bs va (k1 + k2)"
proof -
  have same: "same_place m1 a c = same_place m a c" for a c using assms(1) by (simp add: write_done_def follows_def)
  have shift: "va + of_nat k1 + of_nat i = va + of_nat (k1 + i)" for i by (simp add: add.assoc)
  have second: "same_place m a (va + of_nat (k1 + i)) \<Longrightarrow> mm_byte h2 m2 a = Some (bs ! (k1 + i))" if "i < k2" for a i
    using assms(2,4) that unfolding write_done_def same shift by simp
  have rest: "mm_byte h2 m2 a = mm_byte h1 m1 a" if "\<forall>i < k2. \<not> same_place m a (va + of_nat (k1 + i))" for a
    using assms(2) that unfolding write_done_def same shift by blast
  have "mm_byte h2 m2 a = Some (bs ! i)" if i: "i < k1 + k2" "same_place m a (va + of_nat i)" for a i
  proof (cases "i < k1")
    case True
    have "\<not> same_place m a (va + of_nat (k1 + j))" if "j < k2" for j
    proof
      assume "same_place m a (va + of_nat (k1 + j))"
      then have "same_place m (va + of_nat i) (va + of_nat (k1 + j))" using i(2) same_place_sym same_place_trans by blast
      moreover have "k1 + j < k1 + k2" "i \<noteq> k1 + j" using that True by simp_all
      ultimately show False using assms(3) i(1) unfolding separate_def by blast
    qed
    then have "mm_byte h2 m2 a = mm_byte h1 m1 a" by (intro rest) blast
    then show ?thesis using assms(1) True i(2) by (simp add: write_done_def)
  next
    case False
    then show ?thesis using second [of "i - k1" a] i by simp
  qed
  moreover have "mm_byte h2 m2 a = mm_byte h m a" if a: "\<forall>i < k1 + k2. \<not> same_place m a (va + of_nat i)" for a
  proof -
    have "\<not> same_place m a (va + of_nat (k1 + i))" if "i < k2" for i
      using a [rule_format, of "k1 + i"] that by (simp del: of_nat_add)
    then have "mm_byte h2 m2 a = mm_byte h1 m1 a" by (intro rest) blast
    moreover have "mm_byte h1 m1 a = mm_byte h m a" using assms(1) a by (simp add: write_done_def)
    ultimately show ?thesis by simp
  qed
  moreover have "follows h m h2 m2" using assms(1,2) follows_trans by (auto simp: write_done_def)
  ultimately show ?thesis by (simp add: write_done_def)
qed

definition write_outcome ::
  "bheap \<Rightarrow> memory_map \<Rightarrow> u8 list \<Rightarrow> u64 \<Rightarrow> nat \<Rightarrow> u32 \<Rightarrow> nat \<Rightarrow> bheap \<Rightarrow> memory_map \<Rightarrow> bool" where
  "write_outcome h m bs va n p k h' m' \<longleftrightarrow> k \<le> n \<and> follows h m h' m' \<and> others_safe h m h' m' \<and>
     (separate m va n \<longrightarrow> write_done h m h' m' bs va k) \<and> (k < n \<longrightarrow> \<not> writable_at h m p (va + of_nat k))"

lemma write_loop_correct:
  assumes "mm_ok h m" "request_ok h m (va + t) (unat n - unat t)" "t \<le> n" "unat n \<le> length bs"
  shows "\<exists>k h' m'. write_loop h m (Some bs) va n p t = Some (k, (h', m')) \<and> unat t \<le> unat k \<and>
    write_outcome h m (drop (unat t) bs) (va + t) (unat n - unat t) p (unat k - unat t) h' m'"
  using assms
proof (induction h m "Some bs" va n p t rule: write_loop.induct)
  case (1 h m va n p t)
  note done_refl = follows_refl [OF 1(2)] others_safe_refl [of h m]
  have wd: "write_done h m h m c x 0" for c x using done_refl(1) by (simp add: write_done_def)
  show ?case
  proof (cases "t < n")
    case False
    then have "n = t" using 1(4) by simp
    then have "write_loop h m (Some bs) va n p t = Some (t, (h, m))" by (subst write_loop.simps) simp
    then show ?thesis using done_refl wd \<open>n = t\<close> by (auto simp: write_outcome_def)
  next
    case True
    have nt: "unat (n - t) = unat n - unat t" using 1(4) by (simp add: unat_sub)
    have pos: "0 < unat (n - t)" using True nt by (simp add: word_less_nat_alt)
    have req: "request_ok h m (va + t) (unat (n - t))" using 1(3) by (simp add: nt)
    have len: "unat (n - t) \<le> length (drop (unat t) bs)" using 1(5) by (simp add: nt)
    from write1_correct [OF 1(2) req pos len] obtain k h1 m1 where
      w: "mm_write1 h m (Some (drop (unat t) bs)) (va + t) (n - t) p = Some (k, (h1, m1))" "unat k \<le> unat (n - t)"
        "write_done h m h1 m1 (drop (unat t) bs) (va + t) (unat k)" "k = 0 \<longrightarrow> \<not> writable_at h m p (va + t)"
        "others_safe h m h1 m1" by blast
    have w': "mm_write1 h m (map_option (drop (unat t)) (Some bs)) (va + t) (n - t) p = Some (k, (h1, m1))" using w(1) by simp
    have fol: "follows h m h1 m1" using w(3) by (simp add: write_done_def)
    show ?thesis
    proof (cases "k = 0")
      case zero: True
      then have "write_loop h m (Some bs) va n p t = Some (t, (h1, m1))" using True w(1) by (subst write_loop.simps) simp
      then show ?thesis using fol w(3-5) zero pos nt by (auto simp: write_outcome_def)
    next
      case False
      have kpos: "0 < unat k" using False by (simp add: unat_gt_0)
      note pr = copy_progress [OF True kpos w(2), simplified]
      have step: "write_loop h m (Some bs) va n p t = write_loop h1 m1 (Some bs) va n p (t + k)"
        using True w(1) False by (subst write_loop.simps) simp
      have va: "va + (t + k) = va + t + of_nat (unat k)" by (simp add: add.assoc)
      have rem: "unat n - unat (t + k) = unat n - unat t - unat k" using pr(2) by simp
      have kle: "unat k \<le> unat n - unat t" using w(2) nt by simp
      have req1: "request_ok h m (va + (t + k)) (unat n - unat (t + k))"
        unfolding va rem by (rule request_ok_later [OF 1(3) kle])
      have ok1: "mm_ok h1 m1" "request_ok h1 m1 (va + (t + k)) (unat n - unat (t + k))"
        using fol req1 by (simp_all add: follows_def)
      from 1(1) [OF True w' refl refl False ok1 pr(3) 1(5)]
      obtain k2 h2 m2 where r: "write_loop h1 m1 (Some bs) va n p (t + k) = Some (k2, (h2, m2))" "unat (t + k) \<le> unat k2"
        "write_outcome h1 m1 (drop (unat (t + k)) bs) (va + (t + k)) (unat n - unat (t + k)) p (unat k2 - unat (t + k)) h2 m2"
        by blast
      have k2: "unat k2 - unat t = unat k + (unat k2 - unat (t + k))" using r(2) pr(2) by simp
      have bound: "unat k + (unat k2 - unat (t + k)) \<le> unat n - unat t"
        using r(3) kle unfolding write_outcome_def rem by linarith
      have "write_outcome h m (drop (unat t) bs) (va + t) (unat n - unat t) p (unat k2 - unat t) h2 m2"
        unfolding write_outcome_def
      proof (intro conjI impI)
        show "unat k2 - unat t \<le> unat n - unat t" using bound k2 by simp
        show "follows h m h2 m2" using r(3) follows_trans [OF fol] by (simp add: write_outcome_def)
        show "others_safe h m h2 m2" using r(3) others_safe_trans [OF w(5)] by (simp add: write_outcome_def)
        assume sep: "separate m (va + t) (unat n - unat t)"
        have same: "separate m1 x y = separate m x y" for x y using fol by (simp add: separate_def follows_def)
        have "separate m1 (va + (t + k)) (unat n - unat (t + k))"
          unfolding same va rem by (rule separate_later [OF sep kle])
        then have second: "write_done h1 m1 h2 m2 (drop (unat k) (drop (unat t) bs)) (va + t + of_nat (unat k)) (unat k2 - unat (t + k))"
          using r(3) pr(2) unfolding write_outcome_def va by (simp add: add.commute)
        have sep': "separate m (va + t) (unat k + (unat k2 - unat (t + k)))"
          using sep bound by (auto simp: separate_def)
        show "write_done h m h2 m2 (drop (unat t) bs) (va + t) (unat k2 - unat t)"
          unfolding k2 by (rule write_done_append [OF w(3) second sep']) (use bound 1(5) in simp)
      next
        assume lt: "unat k2 - unat t < unat n - unat t"
        have "\<not> writable_at h1 m1 p (va + (t + k) + of_nat (unat k2 - unat (t + k)))"
          using r(3) lt k2 rem by (simp add: write_outcome_def)
        moreover have "va + (t + k) + of_nat (unat k2 - unat (t + k)) = va + t + of_nat (unat k2 - unat t)"
          unfolding k2 va by (simp add: add.assoc)
        ultimately show "\<not> writable_at h m p (va + t + of_nat (unat k2 - unat t))"
          using fol by (auto simp: follows_def)
      qed
      then show ?thesis using step r(1,2) pr(2) by auto
    qed
  qed
qed

lemma write_correct:
  assumes "mm_ok h m" "request_ok h m va (unat n)" "unat n \<le> length bs"
  shows "\<exists>k h' m'. mm_write h m (Some bs) va n p = Some (k, (h', m')) \<and>
    write_outcome h m bs va (unat n) p (unat k) h' m'"
  using write_loop_correct [of h m va 0 n bs p] assms by (simp add: mm_write_def)

text \<open>What holds of every request, also of one that runs past the end of a segment.\<close>

lemma write1_any:
  assumes "mm_ok h m" "unat n \<le> length bs"
  shows "\<exists>k h' m'. mm_write1 h m (Some bs) va n p = Some (k, (h', m')) \<and> k \<le> n \<and> follows h m h' m' \<and> others_safe h m h' m'"
proof (cases "\<exists>r sg b. (r, sg) \<in> set m \<and> va \<in> set_of r \<and> sg_buffer sg = Some b \<and> (mapperms sg AND p) = p")
  case False
  then have "mm_write1 h m (Some bs) va n p = Some (0, (h, m))" using write1_nothing [OF assms(1)] by blast
  then show ?thesis using others_safe_refl follows_refl [OF assms(1)] by fastforce
next
  case True
  then obtain r sg b where sg: "(r, sg) \<in> set m" "va \<in> set_of r" "sg_buffer sg = Some b" "(mapperms sg AND p) = p" by blast
  from write1_steps [OF assms sg] obtain k nb h1 m1 h2 where
    s: "mm_write1 h m (Some bs) va n p = Some (k, (h2, m1))" "follows h m h1 m1"
      "write_effect h1 nb (buffer_offset sg + va - r_first r) k bs h2" "others_safe h m h2 m1" by blast
  have "follows h1 m1 h2 m1" using s(2,3) by (intro follows_shape) (simp_all add: follows_def write_effect_def)
  then show ?thesis using s(1,4) write1_count [OF s(1)] follows_trans [OF s(2)] by blast
qed

lemma write_loop_any:
  assumes "mm_ok h m" "t \<le> n" "unat n \<le> length bs"
  shows "\<exists>k h' m'. write_loop h m (Some bs) va n p t = Some (k, (h', m')) \<and> follows h m h' m' \<and> others_safe h m h' m'"
  using assms
proof (induction h m "Some bs" va n p t rule: write_loop.induct)
  case (1 h m va n p t)
  show ?case
  proof (cases "t < n")
    case False
    then have "write_loop h m (Some bs) va n p t = Some (t, (h, m))" by (subst write_loop.simps) simp
    then show ?thesis using follows_refl [OF 1(2)] others_safe_refl by blast
  next
    case True
    have nt: "unat (n - t) = unat n - unat t" using 1(3) by (simp add: unat_sub)
    have len: "unat (n - t) \<le> length (drop (unat t) bs)" using 1(4) by (simp add: nt)
    from write1_any [OF 1(2) len] obtain k h1 m1 where
      w: "mm_write1 h m (Some (drop (unat t) bs)) (va + t) (n - t) p = Some (k, (h1, m1))" "k \<le> n - t"
        "follows h m h1 m1" "others_safe h m h1 m1" by blast
    have w': "mm_write1 h m (map_option (drop (unat t)) (Some bs)) (va + t) (n - t) p = Some (k, (h1, m1))" using w(1) by simp
    show ?thesis
    proof (cases "k = 0")
      case True
      then have "write_loop h m (Some bs) va n p t = Some (t, (h1, m1))" using \<open>t < n\<close> w(1) by (subst write_loop.simps) simp
      then show ?thesis using w(3,4) by blast
    next
      case False
      have kpos: "0 < unat k" "unat k \<le> unat (n - t)" using False w(2) by (simp_all add: unat_gt_0 word_le_nat_alt)
      note pr = copy_progress [OF True kpos, simplified]
      have step: "write_loop h m (Some bs) va n p t = write_loop h1 m1 (Some bs) va n p (t + k)"
        using True w(1) False by (subst write_loop.simps) simp
      have "mm_ok h1 m1" using w(3) by (simp add: follows_def)
      from 1(1) [OF True w' refl refl False this pr(3) 1(4)] obtain k2 h2 m2 where
        r: "write_loop h1 m1 (Some bs) va n p (t + k) = Some (k2, (h2, m2))" "follows h1 m1 h2 m2" "others_safe h1 m1 h2 m2" by blast
      then show ?thesis using step follows_trans [OF w(3) r(2)] others_safe_trans [OF w(4) r(3)] by metis
    qed
  qed
qed


lemma write_any:
  "mm_ok h m \<Longrightarrow> unat n \<le> length bs \<Longrightarrow>
   \<exists>k h' m'. mm_write h m (Some bs) va n p = Some (k, (h', m')) \<and> follows h m h' m' \<and> others_safe h m h' m'"
  using write_loop_any [of h m 0 n bs va p] by (simp add: mm_write_def)

end
