(* ===== verification/Gaps.thy ===== *)
theory Gaps
  imports ExtentMaps
begin

declare One_nat_def [simp del]

text \<open>
  The free list that a range map's \<open>invert\<close> returns: its ranges are maximal, so that the address behind each of them is in
  the map.
\<close>

section \<open>The gaps of an inversion\<close>

definition gap :: "'a::len word Range \<times> 'u \<Rightarrow> 'a word Range \<times> 'v \<Rightarrow> bool" where
  "gap x y \<longleftrightarrow> unat (r_last (fst x)) + 1 < unat (r_first (fst y))"

lemma map_insert_end:
  "\<forall>x \<in> set m. r_last (fst x) < r_first g \<Longrightarrow> r_first g \<le> r_last g \<Longrightarrow> map_insert g v m = m @ [(g, v)]"
  by (induction g v m rule: map_insert.induct) (auto dest: less_le_trans)

text \<open>A range that begins behind a gap is appended.\<close>

lemma insert_behind:
  fixes g :: "'a::len word Range"
  assumes "rm_ok m" "\<not> range_empty g" "\<forall>x \<in> set m. gap x (g, ())"
  shows "rm_insert range_map_void m g () True = Some (m @ [(g, ())], length m)"
proof -
  have below: "unat (r_last (fst x)) + 1 < unat (r_first g)" if "x \<in> set m" for x using assms(3) that by (simp add: gap_def)
  have g: "r_first g \<le> r_last g" using assms(2) by (simp add: not_empty_le)
  have lt: "r_last (fst x) < a" if "x \<in> set m" "r_first g - 1 \<le> a" "r_first g \<noteq> 0" for x a
  proof -
    have "unat (r_first g - 1) = unat (r_first g) - 1" using that(3) by (simp add: unat_minus_one)
    then show ?thesis using below [OF that(1)] that(2) by (simp add: word_less_nat_alt word_le_nat_alt)
  qed
  have lt': "r_last (fst x) < r_first g" if "x \<in> set m" for x using below [OF that] by (simp add: word_less_nat_alt)
  have none: "rm_lower_bound m a = length m" if "\<forall>x \<in> set m. r_last (fst x) < a" for a
  proof -
    have "takeWhile (\<lambda>x. r_last (fst x) < a) m = m" using that by (intro takeWhile_eq_all_conv [THEN iffD2])
    then show ?thesis by (simp only: rm_lower_bound_def range_unit_simps)
  qed
  have nofind: "rm_find m a = length m" if "\<forall>x \<in> set m. r_last (fst x) < a" for a
    using none [OF that] by (simp add: rm_find_def)
  have lb: "rm_lower_bound m (r_first g) = length m" using lt' by (intro none) blast
  have erase: "rm_erase range_map_void m g = Some m"
    using assms(2) by (simp add: rm_erase_def lb)
  have left: "(if r_first g > range_minimum then rm_find m (r_first g - 1) else length m) = length m"
  proof (cases "r_first g > range_minimum")
    case True
    then have "r_first g \<noteq> 0" by (auto simp: range_minimum_def)
    then show ?thesis using lt by (simp add: nofind)
  qed simp
  have right: "(if r_last g < range_maximum then rm_find m (r_last g + 1) else length m) = length m"
  proof (cases "r_last g < range_maximum")
    case True
    then have "r_last g \<noteq> -1" by (auto simp: range_maximum_def)
    then have "r_last g < r_last g + 1" by (simp add: word_less_nat_alt unat_plus_one)
    then have "\<forall>x \<in> set m. r_last (fst x) < r_last g + 1" using lt' g by (meson less_le_trans less_trans)
    then show ?thesis by (simp add: nofind)
  qed simp
  have ins: "map_insert g () m = m @ [(g, ())]" using lt' g by (intro map_insert_end) auto
  have "rm_lower_bound (m @ [(g, ())]) (r_last g) = length m"
  proof -
    have "\<forall>x \<in> set m. r_last (fst x) < r_last g" using lt' g by (meson less_le_trans)
    then show ?thesis by (simp add: rm_lower_bound_def takeWhile_append2)
  qed
  then show ?thesis
    using assms(2) lb erase left right ins
    by (simp add: rm_insert_def merge_left_def merge_right_def Let_def)
qed

lemma invert_loop_gaps:
  fixes pending :: "'a::len word"
  assumes "rm_ok ri" "\<forall>e \<in> set ri. r_last (fst e) \<noteq> -1 \<and> pending \<le> r_first (fst e)"
    and "rm_ok retval" "sorted_wrt gap retval" "\<forall>x \<in> set retval. unat (r_last (fst x)) + 1 < unat pending"
    and "r_last limits = -1"
  shows "\<exists>pending' retval'. invert_loop range_map_void limits ri pending retval = Some (pending', retval') \<and>
    rm_ok retval' \<and> sorted_wrt gap retval' \<and> (\<forall>x \<in> set retval'. unat (r_last (fst x)) + 1 < unat pending')"
  using assms
proof (induction ri arbitrary: pending retval)
  case Nil
  then show ?case by simp
next
  case (Cons e ri pending retval)
  obtain r v where e: "e = (r, v)" by fastforce
  note 2 = Cons [unfolded e]
  have r: "\<not> range_empty r" "r_last r \<noteq> -1" "pending \<le> r_first r" "r_first r \<le> r_last r"
    using 2(2,3) by (simp_all add: rm_ok_Cons not_empty_le)
  have nl: "\<not> left_of limits r" using 2(7) by (auto simp: left_of_def)
  have fl: "range_first r = Some (r_first r)" "range_last r = Some (r_last r)" using r(1) by (simp_all add: range_first_def range_last_def)
  have ri: "rm_ok ri" "\<forall>e \<in> set ri. r_last (fst e) \<noteq> -1 \<and> r_last r + 1 \<le> r_first (fst e)"
  proof -
    show "rm_ok ri" using 2(2) by (simp add: rm_ok_Cons)
    have "r_last r + 1 \<le> r_first (fst e)" if "e \<in> set ri" for e
    proof -
      have "r_last r < r_first (fst e)" using 2(2) that by (simp add: rm_ok_Cons rm_before_def)
      then show ?thesis using word_succ_iffs(1) by blast
    qed
    then show "\<forall>e \<in> set ri. r_last (fst e) \<noteq> -1 \<and> r_last r + 1 \<le> r_first (fst e)" using 2(3) by simp
  qed
  have last1: "unat (r_last r + 1) = unat (r_last r) + 1" using r(2) by (simp add: unat_plus_one)
  have ends: "unat pending \<le> unat (r_first r)" "unat (r_first r) \<le> unat (r_last r)" using r(3,4) by (simp_all add: word_le_nat_alt)
  show ?case
  proof (cases "pending < r_first r")
    case True
    let ?g = "\<lparr>r_first = pending, r_last = r_first r - 1\<rparr>"
    have g: "range_inin pending (r_first r - 1) = Some ?g" "\<not> range_empty ?g"
      using word_pred_iffs(1) [OF True] True by (simp_all add: range_inin_def range_default_def not_less)
    have "\<forall>x \<in> set retval. gap x (?g, ())" using 2(6) by (simp add: gap_def)
    note ins = insert_behind [OF 2(4) g(2) this]
    have pred: "unat (r_first r - 1) = unat (r_first r) - 1" using True by (intro unat_minus_one) auto
    have pos: "unat pending < unat (r_first r)" using True by (simp add: word_less_nat_alt)
    let ?ret = "retval @ [(?g, ())]"
    have "rm_ok ?ret" using 2(4,6) g(2) by (auto simp: rm_ok_append rm_ok_Cons rm_before_def word_less_nat_alt)
    moreover have "sorted_wrt gap ?ret" using 2(5,6) by (simp add: sorted_wrt_append gap_def [of _ "(?g, ())"])
    moreover have "\<forall>x \<in> set ?ret. unat (r_last (fst x)) + 1 < unat (r_last r + 1)"
      using 2(6) last1 pred pos ends by auto
    moreover have "?ret = (let m = ?ret in m)" by simp
    ultimately have "\<exists>pending' retval'. invert_loop range_map_void limits ri (r_last r + 1) ?ret = Some (pending', retval') \<and>
        rm_ok retval' \<and> sorted_wrt gap retval' \<and> (\<forall>x \<in> set retval'. unat (r_last (fst x)) + 1 < unat pending')"
      using 2(1) [OF ri] 2(7) by simp
    then show ?thesis using nl fl True g(1) ins by (simp add: e)
  next
    case False
    have "\<forall>x \<in> set retval. unat (r_last (fst x)) + 1 < unat (r_last r + 1)" using 2(6) last1 ends by auto
    then show ?thesis using 2(1) [OF ri 2(4,5)] 2(7) nl fl False by (simp add: e)
  qed
qed

lemma invert_gaps:
  fixes m :: "('a::len word, 'v) rmap"
  assumes "rm_ok m" "\<forall>e \<in> set m. r_last (fst e) \<noteq> -1" "rm_invert range_map_void m = Some fm"
  shows "sorted_wrt gap fm"
proof -
  let ?all = "\<lparr>r_first = 0, r_last = -1\<rparr> :: 'a word Range"
  have all: "range_all = Some ?all"
    by (simp add: range_all_def range_inin_def range_minimum_def range_maximum_def range_default_def)
  have ne: "\<not> range_empty ?all" by simp
  have lb: "rm_lower_bound m (0 :: 'a word) = 0" by (cases m) (simp_all add: rm_lower_bound_def)
  have "\<forall>e \<in> set m. r_last (fst e) \<noteq> -1 \<and> 0 \<le> r_first (fst e)" using assms(2) by simp
  from invert_loop_gaps [OF assms(1) this, of "[]" ?all] obtain p ret where
    l: "invert_loop range_map_void ?all m 0 [] = Some (p, ret)" "rm_ok ret" "sorted_wrt gap ret"
      "\<forall>x \<in> set ret. unat (r_last (fst x)) + 1 < unat p" by auto
  let ?g = "\<lparr>r_first = p, r_last = -1\<rparr> :: 'a word Range"
  have g: "range_inin p (-1) = Some ?g" "\<not> range_empty ?g" by (simp_all add: range_inin_def range_default_def)
  have "\<forall>x \<in> set ret. gap x (?g, ())" using l(4) by (simp add: gap_def)
  note ins = insert_behind [OF l(2) g(2) this]
  have "fm = ret @ [(?g, ())]"
    using assms(3) l(1) g(1) ins
    by (auto simp: rm_invert_def all rm_invert_within_def lb rm_empty_def bind_eq_Some_conv split: if_splits)
  then show ?thesis using l(3,4) by (simp add: sorted_wrt_append gap_def [of _ "(?g, ())"])
qed

text \<open>So the value behind a range of an inversion is in the map, unless the range ends with the largest value.\<close>

lemma invert_maximal:
  assumes "rm_ok fm" "sorted_wrt gap fm" "i < length fm" "r_last (fst (fm ! i)) \<noteq> -1"
  shows "r_last (fst (fm ! i)) + 1 \<notin> rm_dom fm"
proof
  let ?l = "r_last (fst (fm ! i))"
  assume "?l + 1 \<in> rm_dom fm"
  then obtain j where j: "j < length fm" "?l + 1 \<in> set_of (fst (fm ! j))"
    unfolding rm_dom_def by (metis UN_E in_set_conv_nth)
  have suc: "unat (?l + 1) = unat ?l + 1" using assms(4) by (simp add: unat_plus_one)
  consider "j < i" | "j = i" | "i < j" by linarith
  then show False
  proof cases
    case 1
    then have "gap (fm ! j) (fm ! i)" using assms(2,3) by (simp add: sorted_wrt_iff_nth_less)
    moreover have "r_first (fst (fm ! i)) \<le> ?l" using assms(1,3) by (simp add: rm_ok_def not_empty_le)
    ultimately show False using j(2) suc by (simp add: gap_def word_le_nat_alt)
  next
    case 2
    then show False using j(2) suc by (simp add: word_le_nat_alt)
  next
    case 3
    then have "gap (fm ! i) (fm ! j)" using assms(2) j(1) by (simp add: sorted_wrt_iff_nth_less)
    then show False using j(2) suc by (simp add: gap_def word_le_nat_alt)
  qed
qed

lemma invert_minimal:
  assumes "rm_ok fm" "sorted_wrt gap fm" "i < length fm" "r_first (fst (fm ! i)) \<noteq> 0"
  shows "r_first (fst (fm ! i)) - 1 \<notin> rm_dom fm"
proof
  let ?f = "r_first (fst (fm ! i))"
  assume "?f - 1 \<in> rm_dom fm"
  then obtain j where j: "j < length fm" "?f - 1 \<in> set_of (fst (fm ! j))"
    unfolding rm_dom_def by (metis UN_E in_set_conv_nth)
  have pos: "0 < unat ?f" using assms(4) by (simp add: unat_gt_0)
  have pre: "unat (?f - 1) = unat ?f - 1" using assms(4) by (rule unat_minus_one)
  have ne: "unat ?f \<le> unat (r_last (fst (fm ! i)))"
    using assms(1,3) by (simp add: rm_ok_def not_empty_le word_le_nat_alt [symmetric])
  have jn: "unat (r_first (fst (fm ! j))) \<le> unat ?f - 1" "unat ?f - 1 \<le> unat (r_last (fst (fm ! j)))"
    using j(2) pre by (simp_all add: word_le_nat_alt)
  consider "j < i" | "j = i" | "i < j" by linarith
  then show False
  proof cases
    case 1
    then have "gap (fm ! j) (fm ! i)" using assms(2,3) by (simp add: sorted_wrt_iff_nth_less)
    then show False using jn pos by (simp add: gap_def)
  next
    case 2
    then show False using jn pos by simp
  next
    case 3
    then have "gap (fm ! i) (fm ! j)" using assms(2) j(1) by (simp add: sorted_wrt_iff_nth_less)
    then show False using jn ne by (simp add: gap_def)
  qed
qed

end
