(* ===== verification/MemoryMapProps.thy ===== *)
theory MemoryMapProps
  imports MemoryMapAccess Gaps
begin

declare One_nat_def [simp del]

text \<open>
  The properties of the memory map, each with a concrete map that satisfies its hypotheses, and the cases in which the
  code does not do what its documentation says.
\<close>

section \<open>Reading into a buffer\<close>

lemma read_loop_correct:
  fixes p :: u32
  assumes "mm_ok h m" "request_ok h m (va + t) (unat n - unat t)" "t \<le> n"
  defines "bs \<equiv> available (readable h m p) (va + t) (unat n - unat t)"
  shows "read_loop h m va n p t = Some (bs, t + of_nat (length bs))"
  unfolding bs_def using assms(1-3)
proof (induction h m va n p t rule: read_loop.induct)
  case (1 h m va n p t)
  show ?case
  proof (cases "t < n")
    case False
    then have "n = t" using 1(4) by simp
    then show ?thesis by (subst read_loop.simps) simp
  next
    case True
    have nt: "unat (n - t) = unat n - unat t" using 1(4) by (simp add: unat_sub)
    have pos: "0 < unat (n - t)" using True nt by (simp add: word_less_nat_alt)
    have req: "request_ok h m (va + t) (unat (n - t))" using 1(3) by (simp add: nt)
    obtain bs where bs: "mm_read1 h m (va + t) (n - t) p = Some bs" "length bs \<le> unat (n - t)"
      "\<forall>i < length bs. readable h m p (va + t + of_nat i) = Some (bs ! i)" "bs = [] \<longrightarrow> readable h m p (va + t) = None"
      using read1_correct [OF 1(2) req pos] by blast
    show ?thesis
    proof (cases "bs = []")
      case empty: True
      have "read_loop h m va n p t = Some ([], t)" using True bs(1) empty by (subst read_loop.simps) simp
      then show ?thesis using bs(4) empty by (simp add: available_none)
    next
      case False
      have kpos: "0 < length bs" using False by simp
      note pr = copy_progress [OF True kpos bs(2)]
      let ?t = "t + of_nat (length bs)"
      have va: "va + ?t = va + t + of_nat (length bs)" by (simp add: add.assoc)
      have rem: "unat n - unat ?t = unat n - unat t - length bs" using pr(2) by simp
      have kle: "length bs \<le> unat n - unat t" using bs(2) nt by simp
      have req': "request_ok h m (va + ?t) (unat n - unat ?t)" unfolding va rem by (rule request_ok_later [OF 1(3) kle])
      have "read_loop h m va n p ?t =
          Some (available (readable h m p) (va + ?t) (unat n - unat ?t), ?t + of_nat (length (available (readable h m p) (va + ?t) (unat n - unat ?t))))"
        by (rule 1(1) [OF True bs(1) False 1(2) req' pr(3)])
      then have "read_loop h m va n p t =
          Some (bs @ available (readable h m p) (va + ?t) (unat n - unat ?t), ?t + of_nat (length (available (readable h m p) (va + ?t) (unat n - unat ?t))))"
        using True False bs(1) by (subst read_loop.simps) simp
      moreover have "available (readable h m p) (va + t) (unat n - unat t) =
          bs @ available (readable h m p) (va + ?t) (unat n - unat ?t)"
        unfolding va rem by (rule available_append [OF bs(3) kle])
      ultimately show ?thesis by (simp add: add.assoc)
    qed
  qed
qed

lemma available_length: "length (available f va n) \<le> n"
  by (induction f va n rule: available.induct) (auto split: option.split)

text \<open>Conditions on the whole map under which a request is well-behaved.\<close>

lemma tight_request: "(\<forall>(r, sg) \<in> set m. tight h r sg) \<Longrightarrow> request_ok h m va n"
  by (rule request_okI) blast

lemma same_place_iff:
  "same_place m a c \<longleftrightarrow> (\<exists>x p q. mapped m a = Some (Some x, p) \<and> mapped m c = Some (Some x, q))"
  by (cases "mapped m a"; cases "mapped m c"; cases "fst (the (mapped m a))"; cases "fst (the (mapped m c))")
    (auto simp: same_place_def)

lemma separate_distinct:
  assumes "rm_ok m" "n \<le> 2 ^ 64"
    and "\<And>r sg r' sg'. (r, sg) \<in> set m \<Longrightarrow> (r', sg') \<in> set m \<Longrightarrow> sg_buffer sg = sg_buffer sg' \<Longrightarrow> (r, sg) = (r', sg')"
  shows "separate m va n"
  unfolding separate_def
proof (intro allI impI notI)
  fix i j assume ij: "i < n" "j < n" "i \<noteq> j" "same_place m (va + of_nat i) (va + of_nat j)"
  let ?a = "va + of_nat i" let ?c = "va + of_nat j"
  obtain x p q where x: "mapped m ?a = Some (Some x, p)" "mapped m ?c = Some (Some x, q)"
    using ij(4) same_place_iff by blast
  obtain r sg where a: "(r, sg) \<in> set m" "?a \<in> set_of r" "(Some x, p) = seg_cell r sg ?a"
    using x(1) mapped_Some [OF assms(1)] by blast
  obtain r' sg' where c: "(r', sg') \<in> set m" "?c \<in> set_of r'" "(Some x, q) = seg_cell r' sg' ?c"
    using x(2) mapped_Some [OF assms(1)] by blast
  have bx: "sg_buffer sg = Some (fst x)" "sg_buffer sg' = Some (fst x)"
    using a(3) c(3) by (cases "sg_buffer sg"; cases "sg_buffer sg'"; simp add: seg_cell_def)+
  then have "sg_buffer sg = sg_buffer sg'" by simp
  then have "r = r'" "sg = sg'" using assms(3) [OF a(1) c(1)] by auto
  then have "unat ?a - unat (r_first r) = unat ?c - unat (r_first r)" using a(3) c(3) bx
    by (simp add: seg_cell_def prod_eq_iff)
  moreover have "unat (r_first r) \<le> unat ?a" "unat (r_first r) \<le> unat ?c"
    using a(2) c(2) \<open>r = r'\<close> by (simp_all add: word_le_nat_alt)
  ultimately have "unat ?a = unat ?c" by linarith
  then have "?a = ?c" by (simp only: word_unat_eq_iff)
  then have "(of_nat i :: u64) = of_nat j" by simp
  moreover have "unat (of_nat i :: u64) = i" "unat (of_nat j :: u64) = j"
    using ij(1,2) assms(2) by (simp_all add: unat_of_nat_less)
  ultimately show False using ij(3) by metis
qed

lemma writable_place:
  assumes "mm_ok h m" "writable_at h m p a"
  shows "same_place m a a"
proof -
  obtain r sg b where "(r, sg) \<in> set m" "a \<in> set_of r" "sg_buffer sg = Some b" using assms(2) unfolding writable_at_def by blast
  then show ?thesis using mapped_in [OF mm_ok_rm(1) [OF assms(1)]] by (simp add: same_place_iff seg_cell_def)
qed

section \<open>A sample map\<close>

text \<open>Two adjacent segments of a byte buffer and an anonymous buffer, both whole.\<close>

definition sample_heap :: bheap where
  "sample_heap =
     \<lparr>bh_mem = (\<lambda>a. of_nat a), bh_brk = 64,
      bh_buffers =
        [\<lparr>bf_class = ByteBuffer, bf_read_only = False, bf_name = ''aaa'', p_size = 16, p_data = Some 8\<rparr>,
         \<lparr>bf_class = AnonymousBuffer, bf_read_only = False, bf_name = ''anon aab'', p_size = 16, p_data = None\<rparr>],
      bh_ncalls = 2\<rparr>"

definition rw_segment :: "nat \<Rightarrow> u64 \<Rightarrow> segment" where
  "rw_segment b off = new_segment (Some b) off 3 ''''"

definition sample_map :: memory_map where
  "sample_map = [(\<lparr>r_first = 0x1000, r_last = 0x100F\<rparr>, rw_segment 0 0), (\<lparr>r_first = 0x1010, r_last = 0x101F\<rparr>, rw_segment 1 0)]"

lemma sample_buf:
  "length (bh_buffers sample_heap) = 2"
  "buf sample_heap 0 = \<lparr>bf_class = ByteBuffer, bf_read_only = False, bf_name = ''aaa'', p_size = 16, p_data = Some 8\<rparr>"
  "buf sample_heap 1 = \<lparr>bf_class = AnonymousBuffer, bf_read_only = False, bf_name = ''anon aab'', p_size = 16, p_data = None\<rparr>"
  by (simp_all add: sample_heap_def buf_def One_nat_def)

lemma two_cases: "(\<forall>b < 2. P b) \<longleftrightarrow> P 0 \<and> P (1 :: nat)"
  by (auto simp: less_2_cases_iff One_nat_def)

lemma sample_heap_ok: "heap_ok sample_heap"
  unfolding heap_ok_def sample_buf(1) two_cases
  by (auto simp: sample_buf block_def) (simp_all add: sample_heap_def)

lemma sample_fits:
  "seg_fits sample_heap \<lparr>r_first = 0x1000, r_last = 0x100F\<rparr> (rw_segment 0 0)"
  "seg_fits sample_heap \<lparr>r_first = 0x1010, r_last = 0x101F\<rparr> (rw_segment 1 0)"
  by (simp_all add: seg_fits_def rw_segment_def new_segment_def sample_buf)

lemma sample_ok: "mm_ok sample_heap sample_map"
  using sample_heap_ok sample_fits
  by (auto simp: mm_ok_def rm_inv_def seg_ok_def sample_map_def rm_ok_def rm_before_def)

lemma sample_tight: "\<forall>(r, sg) \<in> set sample_map. tight sample_heap r sg"
  by (simp add: sample_map_def tight_def rw_segment_def new_segment_def sample_buf)

lemma sample_mapped:
  "rm_find sample_map 0x100E = 0" "rm_find sample_map 0x100F = 0" "rm_find sample_map 0x1010 = 1" "rm_find sample_map 0x1011 = 1"
  by code_simp+

lemma sample_cells:
  "mapped sample_map 0x100E = Some (Some (0, 14), 3)" "mapped sample_map 0x100F = Some (Some (0, 15), 3)"
  "mapped sample_map 0x1010 = Some (Some (1, 0), 3)" "mapped sample_map 0x1011 = Some (Some (1, 1), 3)"
  unfolding mapped_def rm_lookup_def sample_mapped
  by (simp_all add: sample_map_def seg_cell_def rw_segment_def new_segment_def One_nat_def)

lemma sample_allows: "a \<in> {0x100E, 0x100F, 0x1010, 0x1011} \<Longrightarrow> p \<in> {1, 2, 3} \<Longrightarrow> allows p sample_map a"
  by (auto simp: allows_def sample_cells)

lemma sample_writable: "a \<in> {0x100E, 0x100F, 0x1010, 0x1011} \<Longrightarrow> writable_at sample_heap sample_map 2 a"
  unfolding writable_at_def sample_map_def rw_segment_def new_segment_def
  by (auto simp: sample_buf has_bytes_def writable_def One_nat_def [symmetric])

lemma four_cases: "(\<forall>i < 4. P i) \<longleftrightarrow> P 0 \<and> P 1 \<and> P 2 \<and> P (3 :: nat)"
  by (simp add: numeral_eq_Suc All_less_Suc One_nat_def conj_ac)

lemma sample_separate: "separate sample_map 0x100E 4"
  by (rule separate_distinct [OF mm_ok_rm(1) [OF sample_ok]])
    (auto simp: sample_map_def rw_segment_def new_segment_def One_nat_def)

section \<open>Properties\<close>

text \<open>Property C13. \<open>MemoryMap::insert\<close>: with \<open>erase_prior\<close>, or if the range is free, the new segment is mapped for
  exactly its range, every other address keeps its buffer position and permissions whatever is split, truncated
  or merged, and no byte of a buffer changes. Otherwise the map is unchanged and the exception \<open>Inconsistent\<close>
  carries a segment that overlaps the range, namely the one with the lowest conflicting address.\<close>

theorem mm_insert_spec:
  assumes "mm_ok h m" "\<not> range_empty r" "seg_fits h r sg"
  shows "if erase_prior \<or> (\<forall>a \<in> set_of r. mapped m a = None)
    then \<exists>h' m'. mm_insert h m r sg erase_prior = Some (None, (h', m')) \<and> mm_ok h' m' \<and> same_contents h h' \<and>
      (\<forall>a. mapped m' a = (if a \<in> set_of r then Some (seg_cell r sg a) else mapped m a))
    else \<exists>r' sg'. mm_insert h m r sg erase_prior = Some (Some (Inconsistent r sg r' sg'), (h, m)) \<and>
      (r', sg') \<in> set m \<and> set_of r' \<inter> set_of r \<noteq> {} \<and> (\<forall>a \<in> set_of r. mapped m a \<noteq> None \<longrightarrow> r_first r' \<le> a)"
proof -
  have "(\<forall>a \<in> set_of r. mapped m a = None) \<longleftrightarrow> rm_dom m \<inter> set_of r = {}"
    using mapped_dom [OF mm_ok_rm(1) [OF assms(1)]] by (auto simp del: mem_set_of)
  then show ?thesis using insert_mapped [OF assms, of erase_prior] insert_conflict [OF assms(1,2), of sg]
    by (cases erase_prior) auto
qed

theorem mm_insert_spec_witness:
  "\<exists>r' sg'. mm_insert sample_heap sample_map \<lparr>r_first = 0x1000, r_last = 0x100F\<rparr> (rw_segment 0 0) False =
     Some (Some (Inconsistent \<lparr>r_first = 0x1000, r_last = 0x100F\<rparr> (rw_segment 0 0) r' sg'), (sample_heap, sample_map)) \<and>
     (r', sg') \<in> set sample_map"
proof -
  have "\<not> (\<forall>a \<in> set_of \<lparr>r_first = 0x1000, r_last = 0x100F\<rparr>. mapped sample_map a = None)"
    using sample_cells(1) by (auto intro!: bexI [of _ "0x100E"])
  then show ?thesis
    using mm_insert_spec [OF sample_ok _ sample_fits(1), of False] by (auto split: if_splits)
qed

text \<open>Property C21. \<open>MemoryMap::exists\<close> answers whether every address of the range is mapped with all required permissions,
  also when the range spans several segments; its loop ends and its assertions hold.\<close>

theorem mm_exists_spec:
  assumes "rm_ok m"
  shows "mm_exists m r perms = Some (\<forall>a \<in> set_of r. \<exists>c p. mapped m a = Some (c, p) \<and> (p AND perms) = perms)"
proof -
  have "allows perms m a \<longleftrightarrow> (\<exists>c p. mapped m a = Some (c, p) \<and> (p AND perms) = perms)" for a
    by (auto simp: allows_def split: option.splits)
  then show ?thesis using exists_correct [OF assms, of r perms] by (simp del: mem_set_of)
qed

theorem mm_exists_spec_witness:
  "mm_exists sample_map \<lparr>r_first = 0x1008, r_last = 0x1017\<rparr> 1 = Some True \<and>
   (\<exists>c p. mapped sample_map 0x1009 = Some (c, p) \<and> (p AND 1) = 1)"
proof -
  have "mm_exists sample_map \<lparr>r_first = 0x1008, r_last = 0x1017\<rparr> 1 = Some True" by code_simp
  then show ?thesis
    using mm_exists_spec [OF mm_ok_rm(1) [OF sample_ok], of "\<lparr>r_first = 0x1008, r_last = 0x1017\<rparr>" 1] by simp
qed

text \<open>Property C14. \<open>MemoryMap::mprotect\<close> returns normally exactly if the range is mapped completely or \<open>relax\<close> is set, and
  then every mapped address of the range has the new permissions and keeps its buffer position. Otherwise it throws
  \<open>NotMapped\<close> with the lowest unmapped address of the range, after the permissions below that address have
  been changed. Nothing else changes.\<close>

theorem mprotect_spec:
  assumes "mm_ok h m"
  shows "\<exists>e h' m'. mprotect h m r perms relax = Some (e, (h', m')) \<and> mm_ok h' m' \<and> same_contents h h' \<and>
    (if relax \<or> (\<forall>a \<in> set_of r. mapped m a \<noteq> None)
     then e = None \<and> (\<forall>a. mapped m' a = (if a \<in> set_of r then reprotect perms (mapped m a) else mapped m a))
     else \<exists>va. e = Some (NotMapped va) \<and> va \<in> set_of r \<and> mapped m va = None \<and>
       (\<forall>a \<in> set_of r. a < va \<longrightarrow> mapped m a \<noteq> None) \<and>
       (\<forall>a. mapped m' a = (if a \<in> set_of r \<and> a < va then reprotect perms (mapped m a) else mapped m a)))"
proof -
  obtain res where res: "mprotect h m r perms relax = Some res" "mprotect_outcome h m r perms relax res"
    using mprotect_loop_correct [OF assms] unfolding mprotect_def by blast
  obtain e h' m' where out: "res = (e, (h', m'))" by (metis prod_cases3)
  show ?thesis
  proof (cases e)
    case None
    then show ?thesis using res unfolding out mprotect_outcome_def protected_def by auto
  next
    case (Some err)
    then obtain va where va: "err = NotMapped va" using res(2) by (cases err) (simp_all add: mprotect_outcome_def out)
    have o: "mm_ok h' m'" "same_contents h h'" "\<not> relax" "va \<in> set_of r" "mapped m va = None"
      "\<forall>a \<in> set_of r. a < va \<longrightarrow> mapped m a \<noteq> None" "protected perms {a \<in> set_of r. a < va} m m'"
      using res(2) by (simp_all add: mprotect_outcome_def out Some va del: mem_set_of)
    have "\<not> (relax \<or> (\<forall>a \<in> set_of r. mapped m a \<noteq> None))" using o(3-5) by blast
    then show ?thesis using res(1) o unfolding out Some va protected_def
      by (intro exI [of _ "Some (NotMapped va)"] exI [of _ h'] exI [of _ m']) (simp del: mem_set_of)
  qed
qed

theorem mprotect_spec_witness:
  "\<exists>h' m'. mprotect sample_heap sample_map \<lparr>r_first = 0x1008, r_last = 0x1010\<rparr> 1 True = Some (None, (h', m')) \<and>
    mapped m' 0x100F = Some (Some (0, 15), 1) \<and> mapped m' 0x1010 = Some (Some (1, 0), 1) \<and>
    mapped m' 0x1011 = Some (Some (1, 1), 3)"
proof -
  obtain e h' m' where r: "mprotect sample_heap sample_map \<lparr>r_first = 0x1008, r_last = 0x1010\<rparr> 1 True = Some (e, (h', m'))"
    "e = None" "\<forall>a. mapped m' a = (if a \<in> set_of \<lparr>r_first = 0x1008, r_last = 0x1010\<rparr>
      then reprotect 1 (mapped sample_map a) else mapped sample_map a)"
    using mprotect_spec [OF sample_ok, of "\<lparr>r_first = 0x1008, r_last = 0x1010\<rparr>" 1 True] by auto
  then show ?thesis by (auto simp: sample_cells reprotect_def)
qed

text \<open>Property C19. \<open>MemoryMap::read\<close>, for a request that does not leave a segment before the end of its buffer: it returns
  the bytes from the address on up to the first address that is unmapped, lacks a required permission or has no data,
  also across segments; the caller's buffer is filled up with zeros. With a null destination, which is documented as a way
  to count the bytes, the count is returned only if all bytes are there: otherwise the fill goes through the null pointer,
  which is \<open>None\<close>. The variant that returns a list returns the same bytes.\<close>

theorem mm_read_spec:
  assumes "mm_ok h m" "request_ok h m va (unat n)"
  shows "\<exists>bs. bs = available (\<lambda>a. if allows p m a then mm_byte h m a else None) va (unat n) \<and>
    mm_read h m True va n p = Some (bs @ replicate (unat n - length bs) 0, of_nat (length bs)) \<and>
    mm_read h m False va n p = (if length bs = unat n then Some ([], n) else None) \<and>
    mm_read_list h m va n p = Some bs"
proof -
  let ?bs = "available (readable h m p) va (unat n)"
  have rd: "(\<lambda>a. if allows p m a then mm_byte h m a else None) = readable h m p" by (rule ext) (simp add: readable_def)
  have le: "length ?bs \<le> unat n" by (rule available_length)
  then have "unat (of_nat (length ?bs) :: u64) = length ?bs"
    using unat_less_length_power [of n] by (intro unat_of_nat_less) simp
  then have rest: "unat (n - of_nat (length ?bs)) = unat n - length ?bs" using le by (simp add: unat_sub word_le_nat_alt)
  then have "mm_read h m True va n p = Some (?bs @ replicate (unat n - length ?bs) 0, of_nat (length ?bs))"
    using read_loop_correct [of h m va 0 n p] assms by (simp add: mm_read_def)
  moreover have "mm_read h m False va n p = (if length ?bs = unat n then Some ([], n) else None)"
  proof -
    have "n - of_nat (length ?bs) = 0 \<longleftrightarrow> length ?bs = unat n" using rest le by (auto simp: unat_eq_0 [symmetric])
    moreover have "length ?bs = unat n \<Longrightarrow> of_nat (length ?bs) = n" by simp
    ultimately show ?thesis
      using read_loop_correct [of h m va 0 n p] assms by (auto simp: mm_read_def assert_opt_def)
  qed
  ultimately show ?thesis unfolding rd using read_list_correct [OF assms] by blast
qed

lemma sample_bytes:
  "mm_byte sample_heap sample_map 0x100E = Some 22" "mm_byte sample_heap sample_map 0x100F = Some 23"
  "mm_byte sample_heap sample_map 0x1010 = Some 0" "mm_byte sample_heap sample_map 0x1011 = Some 0"
  by (simp_all add: mm_byte_def sample_cells byte_of_def content_def sample_buf has_bytes_def One_nat_def [symmetric])
    (simp_all add: sample_heap_def)

theorem mm_read_spec_witness:
  "mm_read_list sample_heap sample_map 0x100E 4 1 = Some [22, 23, 0, 0] \<and>
   mm_read sample_heap sample_map False 0x100E 4 1 = Some ([], 4)"
proof -
  have four: "unat (4 :: u64) = Suc (Suc (Suc (Suc 0)))" by simp
  let ?f = "\<lambda>a. if allows 1 sample_map a then mm_byte sample_heap sample_map a else None"
  have f: "available ?f 0x100E (unat (4 :: u64)) = [22, 23, 0, 0]"
    unfolding four by (simp add: sample_allows sample_bytes)
  obtain bs where "bs = available ?f 0x100E (unat (4 :: u64))" "mm_read_list sample_heap sample_map 0x100E 4 1 = Some bs"
    "mm_read sample_heap sample_map False 0x100E 4 1 = (if length bs = unat (4 :: u64) then Some ([], 4) else None)"
    using mm_read_spec [OF sample_ok tight_request [OF sample_tight], where va = "0x100E" and n = 4 and p = 1] by (elim exE conjE)
  then show ?thesis unfolding f by simp
qed

text \<open>Property C9. What \<open>MemoryMap::write\<close> writes is what \<open>MemoryMap::read\<close> returns afterwards, across segments and also when
  the write makes copies of copy-on-write buffers: all bytes are written, the map stays well-formed, and every address that
  does not share its place in a buffer with an address of the request keeps its byte. The request must not leave a segment
  before the end of the buffer behind it (\<open>request_ok\<close>; otherwise see the last property of this theory), its addresses must
  have different places in the buffers, and each must be writable as the code decides it: mapped with the permissions, and
  copy-on-write or in a buffer that has storage and is an anonymous one or is not read-only. The code never asks whether an
  anonymous buffer is read-only.\<close>

theorem write_read_roundtrip:
  assumes "mm_ok h m" "request_ok h m va (unat n)" "separate m va (unat n)" "unat n \<le> length bs"
    and "\<forall>i < unat n. writable_at h m wp (va + of_nat i) \<and> allows rp m (va + of_nat i)"
  shows "\<exists>h' m'. mm_write h m (Some bs) va n wp = Some (n, (h', m')) \<and> mm_ok h' m' \<and>
    mm_read_list h' m' va n rp = Some (take (unat n) bs) \<and>
    (\<forall>a. (\<forall>i < unat n. \<not> same_place m a (va + of_nat i)) \<longrightarrow> mm_byte h' m' a = mm_byte h m a)"
proof -
  obtain k h' m' where w: "mm_write h m (Some bs) va n wp = Some (k, (h', m'))"
    "write_outcome h m bs va (unat n) wp (unat k) h' m'" using write_correct [OF assms(1,2,4)] by blast
  have "unat k = unat n" using w(2) assms(5) unfolding write_outcome_def by (metis le_neq_implies_less)
  then have k: "k = n" by (simp only: word_unat_eq_iff)
  have wd: "write_done h m h' m' bs va (unat n)" and fol: "follows h m h' m'"
    using w(2) assms(3) by (simp_all add: write_outcome_def k)
  have ok: "mm_ok h' m'" "request_ok h' m' va (unat n)" using fol assms(2) by (simp_all add: follows_def)
  have "readable h' m' rp (va + of_nat i) = Some (bs ! i)" if "i < unat n" for i
  proof -
    have "same_place m (va + of_nat i) (va + of_nat i)" using writable_place [OF assms(1)] assms(5) that by blast
    then have "mm_byte h' m' (va + of_nat i) = Some (bs ! i)" using wd that by (simp add: write_done_def)
    then show ?thesis using fol assms(5) that by (simp add: readable_def follows_def)
  qed
  then have "available (readable h' m' rp) va (unat n) = take (unat n) bs"
    using available_append [of "take (unat n) bs" "readable h' m' rp" va "unat n"] assms(4) by simp
  then have "mm_read_list h' m' va n rp = Some (take (unat n) bs)" using read_list_correct [OF ok] by simp
  moreover have "\<forall>a. (\<forall>i < unat n. \<not> same_place m a (va + of_nat i)) \<longrightarrow> mm_byte h' m' a = mm_byte h m a"
    using wd by (simp add: write_done_def)
  ultimately show ?thesis using w(1) ok(1) unfolding k by blast
qed

theorem write_read_roundtrip_witness:
  "\<exists>h' m'. mm_write sample_heap sample_map (Some [1, 2, 3, 4]) 0x100E 4 2 = Some (4, (h', m')) \<and>
    mm_read_list h' m' 0x100E 4 1 = Some [1, 2, 3, 4]"
proof -
  have four: "unat (4 :: u64) = 4" "take 4 [1, 2, 3, 4] = [1, 2, 3, 4 :: u8]" by simp_all
  have w: "\<forall>i < 4. writable_at sample_heap sample_map 2 (0x100E + of_nat i) \<and> allows 1 sample_map (0x100E + of_nat i)"
    unfolding four_cases by (simp add: sample_writable sample_allows)
  have len: "4 \<le> length [1, 2, 3, 4 :: u8]" by simp
  from write_read_roundtrip [OF sample_ok tight_request [OF sample_tight], where n = 4, unfolded four, OF sample_separate len w]
  show ?thesis unfolding four by (elim exE conjE, intro exI conjI)
qed

section \<open>Copy on write\<close>

text \<open>A sequence of writes; a failing assertion is \<open>None\<close>.\<close>

fun run_writes :: "bheap \<Rightarrow> memory_map \<Rightarrow> (u8 list \<times> u64 \<times> u64 \<times> u32) list \<Rightarrow> mm_state option" where
  "run_writes h m [] = Some (h, m)"
| "run_writes h m ((bs, va, n, p) # ws) =
     do { (_, (h, m)) \<leftarrow> mm_write h m (Some bs) va n p; run_writes h m ws }"

lemma run_writes_safe:
  assumes "mm_ok h m" "\<forall>(bs, va, n, p) \<in> set ws. unat n \<le> length bs"
  shows "\<exists>h' m'. run_writes h m ws = Some (h', m') \<and> follows h m h' m' \<and> others_safe h m h' m'"
  using assms
proof (induction ws arbitrary: h m)
  case Nil
  then show ?case using follows_refl others_safe_refl by simp
next
  case (Cons w ws)
  obtain bs va n p where w: "w = (bs, va, n, p)" by (metis prod_cases4)
  have "unat n \<le> length bs" using Cons.prems(2) by (simp add: w)
  from write_any [OF Cons.prems(1) this] obtain k h1 m1 where
    1: "mm_write h m (Some bs) va n p = Some (k, (h1, m1))" "follows h m h1 m1" "others_safe h m h1 m1" by blast
  then have "\<forall>(bs, va, n, p) \<in> set ws. unat n \<le> length bs" "mm_ok h1 m1"
    using Cons.prems(2) by (auto simp: follows_def)
  from Cons.IH [OF this(2,1)] obtain h2 m2 where
    2: "run_writes h1 m1 ws = Some (h2, m2)" "follows h1 m1 h2 m2" "others_safe h1 m1 h2 m2" by blast
  have "run_writes h m (w # ws) = Some (h2, m2)" using 1(1) 2(1) by (simp add: w)
  then show ?case using follows_trans [OF 1(2) 2(2)] others_safe_trans [OF 1(3) 2(3)] by blast
qed

text \<open>A copy-on-write copy maps what the original maps, and is isolated from it.\<close>

lemma cow_init:
  assumes "mm_ok h m"
  defines "m' \<equiv> map (\<lambda>(r, sg). (r, set_cow sg True)) m"
  shows "mm_init h m COPY_ON_WRITE = Some (h, m')" "mm_ok h m'" "isolated m' m" "mapped m' a = mapped m a"
proof -
  show "mm_init h m COPY_ON_WRITE = Some (h, m')" by (simp add: mm_init_def m'_def)
  have ok: "rm_ok m'" using rm_ok_ranges [of m' m] mm_ok_rm(1) [OF assms(1)] by (simp add: m'_def case_prod_unfold comp_def)
  then show "mm_ok h m'"
    using assms(1) by (auto simp: mm_ok_def rm_inv_def seg_ok_def m'_def seg_fits_def set_cow_def split: option.splits) 
  show "isolated m' m" by (auto simp: isolated_def m'_def set_cow_def)
  have cell: "seg_cell r (set_cow sg True) = seg_cell r sg" for r sg by (rule ext) (simp add: seg_cell_def set_cow_def)
  have "mapped m' a = Some c \<longleftrightarrow> mapped m a = Some c" for c
    unfolding mapped_Some [OF ok] mapped_Some [OF mm_ok_rm(1) [OF assms(1)]] by (fastforce simp: m'_def cell)
  then show "mapped m' a = mapped m a" by (metis not_None_eq)
qed

text \<open>Property C10. A copy made with \<open>COPY_ON_WRITE\<close> starts with the bytes of the original, and no sequence of writes to the
  copy changes a byte that is read through the original: writes to any addresses, of any size that their source has bytes
  for, also those that fail and those that run past the end of a segment.\<close>

theorem copy_on_write_isolates:
  assumes "mm_ok h m" "\<forall>(bs, va, n, p) \<in> set ws. unat n \<le> length bs"
  shows "\<exists>h0 m0 h' m'. mm_init h m COPY_ON_WRITE = Some (h0, m0) \<and> (\<forall>a. mm_byte h0 m0 a = mm_byte h m a) \<and>
    run_writes h0 m0 ws = Some (h', m') \<and> mm_ok h' m' \<and> mm_ok h' m \<and> (\<forall>a. mm_byte h' m a = mm_byte h m a)"
proof -
  let ?m = "map (\<lambda>(r, sg). (r, set_cow sg True)) m"
  note c = cow_init [OF assms(1)]
  from run_writes_safe [OF c(2) assms(2)] obtain h' m' where
    w: "run_writes h ?m ws = Some (h', m')" "follows h ?m h' m'" "others_safe h ?m h' m'" by blast
  have "unaffected h h' m" using w(3) assms(1) c(3) by (simp add: others_safe_def)
  moreover have "mm_byte h ?m a = mm_byte h m a" for a by (simp add: mm_byte_def c(4))
  ultimately show ?thesis using w(1,2) c(1) by (simp add: unaffected_def follows_def)
qed

theorem copy_on_write_isolates_witness:
  "\<exists>h' m'. run_writes sample_heap (map (\<lambda>(r, sg). (r, set_cow sg True)) sample_map)
      [([1, 2], 0x100F, 2, 2), ([3], 0x2000, 1, 2), ([4, 5], 0x100E, 2, 0)] = Some (h', m') \<and>
    mm_byte h' sample_map 0x100F = Some 23"
  using copy_on_write_isolates [OF sample_ok, of "[([1, 2], 0x100F, 2, 2), ([3], 0x2000, 1, 2), ([4, 5], 0x100E, 2, 0)]"]
  by (auto simp: mm_init_def sample_bytes)

section \<open>Free space\<close>









text \<open>
  The search starts in the free range that contains \<open>start_va\<close> or follows it, but takes the beginning of that range: the
  answer can be below \<open>start_va\<close>. And a range of exactly the size that is asked for is refused.
\<close>

lemma find_free_below_start: "mm_find_free sample_map 0x2000 16 16 = Some (Inr 0x1020)"
  by code_simp

lemma find_free_refuses_exact_fit:
  "mm_find_free [(\<lparr>r_first = 16, r_last = -1\<rparr>, rw_segment 0 0)] 0 16 1 = Some (Inl (NoFreeSpace 16))"
  "mapped [(\<lparr>r_first = 16, r_last = -1\<rparr>, rw_segment 0 0)] 15 = None"
  by code_simp+

section \<open>Where the bounds of a segment are not respected\<close>

text \<open>Property C32. \<open>MemoryMap::write\<close> is bounded by the end of the buffer and not by the end of the segment: a write that begins in
  a segment stores all bytes that the buffer behind it has room for, also those behind the last address of the segment,
  and reports them as written. The permissions of other segments that map these bytes are not consulted.\<close>

theorem write_escapes_segment:
  assumes "mm_ok h m" "(r, sg) \<in> set m" "va \<in> set_of r" "sg_buffer sg = Some b" "(mapperms sg AND p) = p"
    and "writable (buf h b)" "\<not> copy_on_write sg" "0 < n" "unat n \<le> length bs"
    and "unat (buffer_offset sg) + (unat va - unat (r_first r)) + unat n \<le> unat (p_size (buf h b))"
  shows "\<exists>h'. mm_write h m (Some bs) va n p = Some (n, (h', m)) \<and>
    (\<forall>i < unat n. content h' b (unat (buffer_offset sg) + (unat va - unat (r_first r)) + i) = Some (bs ! i))"
proof -
  define off where "off = buffer_offset sg + va - r_first r"
  have fits: "seg_fits h r sg" using mm_ok_seg [OF assms(1,2)] by simp
  then have b: "b < length (bh_buffers h)" using assms(4) by (simp add: seg_fits_def)
  note o = segment_offset [OF fits assms(4,3), folded off_def]
  have room: "unat n \<le> unat (p_size (buf h b)) - unat off" using assms(10) o(2) by simp
  have k: "written (buf h b) off n = n"
  proof -
    have "unat (written (buf h b) off n) = unat n"
      using assms(6) o(3) room by (simp add: written_def unat_span writable_def word_less_nat_alt)
    then show ?thesis by (simp only: word_unat_eq_iff)
  qed
  from buffer_write_correct [OF mm_ok_rm(2) [OF assms(1)] b, of off n bs] obtain h' where
    h': "buffer_write h b (Some bs) off n = (n, h')" "write_effect h b off n bs h'" using assms(9) by (auto simp: k)
  have w: "mm_write1 h m (Some bs) va n p = Some (n, (h', m))"
    using write1_at(1) [OF assms(1-5), of bs n] assms(7) h'(1) by (simp add: off_def)
  have "n \<noteq> 0" using assms(8) by auto
  then have "mm_write h m (Some bs) va n p = Some (n, (h', m))"
    using assms(8) w by (simp add: mm_write_def write_loop.simps [of h m "Some bs" va n p 0] write_loop.simps [of h' m "Some bs" va n p n])
  moreover have "content h' b (unat off + i) = Some (bs ! i)" if "i < unat n" for i
    using h'(2) b that by (simp add: write_effect_def)
  ultimately show ?thesis unfolding o(2) by blast
qed

text \<open>Two segments of one buffer, the second one read-only: a write to the first one goes on behind its end and changes
  what the second one shows.\<close>

definition escape_heap :: bheap where
  "escape_heap =
     \<lparr>bh_mem = (\<lambda>a. 0), bh_brk = 64,
      bh_buffers = [\<lparr>bf_class = ByteBuffer, bf_read_only = False, bf_name = ''aaa'', p_size = 8, p_data = Some 8\<rparr>],
      bh_ncalls = 1\<rparr>"

definition escape_map :: memory_map where
  "escape_map =
     [(\<lparr>r_first = 0x1000, r_last = 0x1003\<rparr>, new_segment (Some 0) 0 3 ''''),
      (\<lparr>r_first = 0x2000, r_last = 0x2003\<rparr>, new_segment (Some 0) 4 1 '''')]"

lemma escape_ok: "mm_ok escape_heap escape_map"
  by (simp add: mm_ok_def heap_ok_def rm_inv_def seg_ok_def seg_fits_def escape_map_def escape_heap_def rm_ok_def rm_before_def
      new_segment_def buf_def block_def lessThan_def atLeastLessThan_def atLeast_def Collect_mono)
    auto

lemma escape_cell: "mapped escape_map 0x2000 = Some (Some (0, 4), 1)" "mapped escape_map 0x1004 = None"
  by code_simp+

theorem write_escapes_segment_witness:
  "\<exists>h'. mm_write escape_heap escape_map (Some [1, 2, 3, 4, 5, 6, 7, 8]) 0x1000 8 2 = Some (8, (h', escape_map)) \<and>
     mapped escape_map 0x1004 = None \<and> mm_byte escape_heap escape_map 0x2000 = Some 0 \<and> mm_byte h' escape_map 0x2000 = Some 5"
proof -
  let ?bs = "[1, 2, 3, 4, 5, 6, 7, 8] :: u8 list"
  have "\<exists>h'. mm_write escape_heap escape_map (Some ?bs) 0x1000 8 2 = Some (8, (h', escape_map)) \<and>
    (\<forall>i < unat (8 :: u64). content h' 0 (unat (buffer_offset (new_segment (Some 0) 0 3 '''')) +
       (unat (0x1000 :: u64) - unat (r_first \<lparr>r_first = 0x1000 :: u64, r_last = 0x1003\<rparr>)) + i) = Some (?bs ! i))"
    by (rule write_escapes_segment [OF escape_ok, where sg = "new_segment (Some 0) 0 3 ''''" and r = "\<lparr>r_first = 0x1000, r_last = 0x1003\<rparr>"])
      (simp_all add: escape_map_def escape_heap_def new_segment_def buf_def writable_def has_bytes_def)
  then obtain h' where w: "mm_write escape_heap escape_map (Some ?bs) 0x1000 8 2 = Some (8, (h', escape_map))"
    "\<forall>i < 8. content h' 0 i = Some (?bs ! i)" by (auto simp: new_segment_def)
  have "content h' 0 4 = Some 5" using w(2) by simp
  then have "mm_byte h' escape_map 0x2000 = Some 5" by (simp add: mm_byte_def byte_of_def escape_cell)
  moreover have "mm_byte escape_heap escape_map 0x2000 = Some 0"
    by (simp add: mm_byte_def byte_of_def escape_cell content_def escape_heap_def buf_def has_bytes_def)
  ultimately show ?thesis using w(1) escape_cell(2) by blast
qed

text \<open>\<open>Segment::check\<close> adds the offset and the size of the range without regard to overflow: a range that is far larger than
  the buffer passes.\<close>

lemma check_wraps: "seg_check escape_heap (new_segment (Some 0) 4 3 '''') \<lparr>r_first = 0, r_last = -2\<rparr> = None"
  by code_simp

text \<open>\<open>Segment::merge\<close> does not compare the copy-on-write marks: mapping more of the buffer next to a segment of a
  copy-on-write copy yields one segment without the mark, and a write to it reaches the original.\<close>

lemma merge_loses_cow:
  "map_option (map_prod id snd) (mm_insert escape_heap [(\<lparr>r_first = 0x1000, r_last = 0x1003\<rparr>, set_cow (new_segment (Some 0) 0 3 '''') True)]
     \<lparr>r_first = 0x1004, r_last = 0x1007\<rparr> (new_segment (Some 0) 4 3 '''') True) =
   Some (None, [(\<lparr>r_first = 0x1000, r_last = 0x1007\<rparr>, new_segment (Some 0) 0 3 '''')])"
  by code_simp

text \<open>A write through the map to an anonymous buffer that is marked read-only stores the byte.\<close>

definition read_only_heap :: bheap where
  "read_only_heap =
     \<lparr>bh_mem = (\<lambda>a. of_nat a), bh_brk = 64,
      bh_buffers = [\<lparr>bf_class = AnonymousBuffer, bf_read_only = True, bf_name = ''anon aaa'', p_size = 4, p_data = Some 8\<rparr>],
      bh_ncalls = 1\<rparr>"

lemma read_only_anonymous_stores:
  "(case mm_write read_only_heap [(\<lparr>r_first = 16, r_last = 19\<rparr>, rw_segment 0 0)] (Some [7]) 17 1 2 of
      Some (k, (h, m)) \<Rightarrow> (k, mm_read_list h m 16 4 1) | None \<Rightarrow> (0, None)) = (1, Some [8, 7, 10, 11])"
  by code_simp

end
