(* ===== verification/Spec2Isabelle.thy ===== *)
theory Spec2Isabelle
  imports IntegerOps RangeMapOps Safety StringLoop Soundness MemoryMapProps
begin

text \<open>
  A verification development for the binary-analysis core of the ROSE compiler infrastructure (C++). The parts modelled, in
  the order in which they build on each other:

  \<^item> integer helpers (\<^verbatim>\<open>src/frontend/SageIII/sageInterface/integerOps.h\<close>): theory \<open>IntegerOps\<close>;
  \<^item> \<open>Range\<close> and \<open>RangeMap\<close> (\<^verbatim>\<open>src/roseSupport/rangemap.h\<close>): definitions in \<open>Ranges\<close> and \<open>RangeMaps\<close>, proofs in
    \<open>RangeMapCorrect\<close>, properties in \<open>RangeMapOps\<close>;
  \<^item> \<open>ExtentMap\<close> and \<open>MemoryMap\<close> (\<^verbatim>\<open>src/frontend/BinaryFormats\<close>), range maps whose values are nothing or segments of
    buffers: \<open>ExtentMaps\<close>, \<open>Gaps\<close>, \<open>Buffers\<close>, \<open>Segments\<close>, \<open>SegmentValues\<close>, \<open>MemoryMaps\<close>, \<open>MemoryMapCorrect\<close>,
    \<open>MemoryMapAccess\<close>, \<open>MemoryMapProps\<close>;
  \<^item> register dictionaries (\<^verbatim>\<open>src/frontend/Disassemblers/Registers.C\<close>): \<open>Registers\<close>;
  \<^item> the x86 instruction semantics (\<^verbatim>\<open>src/midend/binaryAnalyses/instructionSemantics/x86InstructionSemantics.h\<close>), which
    calls the RISC-like operations of a policy: \<open>SemanticActions\<close> (actions and the record of a policy), \<open>X86Syntax\<close>,
    \<open>X86Helpers\<close>, \<open>X86Data\<close>, \<open>X86Arith\<close>, \<open>X86Semantics\<close>, \<open>Blocks\<close>;
  \<^item> the partially symbolic policy (\<^verbatim>\<open>PartialSymbolicSemantics.h\<close>, \<^verbatim>\<open>BaseSemantics.h\<close>, \<^verbatim>\<open>ReadWriteRegisterFragment.h\<close> of the same
    directory): \<open>PartialSymbolic\<close> (values), \<open>PSPolicy\<close> (registers, memory, policy);

  How they interact. \<open>X86InstructionSemantics\<close> is a template over a policy: the model of the dispatcher takes the record
  \<open>policy\<close> and is run with the partially symbolic one. That policy keeps its registers by the descriptors of a register
  dictionary, and reads memory it knows nothing about through a function that stands for its \<open>MemoryMap\<close>. The memory map
  and the extent map are clients of the range map: they call its operations with their own value type, whose
  \<open>merge\<close>, \<open>split\<close> and \<open>truncate\<close> the range map calls back.

  State and errors. A C++ object is a record or a list, a method a function from the state before to the state after it. A failing
  \<open>assert\<close>, an \<open>abort\<close> or undefined behaviour (a null dereference, a shift by the width of the type) is \<open>None\<close>, or \<open>Abort\<close> in
  the action type of the semantics, where an exception keeps the state reached. Exceptions are values of \<open>sem_error\<close> and
  \<open>mm_error\<close>. Machine integers that a program computes with are words of their width, the counter of instructions included;
  indices into containers and template arguments that are bit widths are natural numbers. \<open>rotateLeft\<close> and \<open>rotateRight\<close> shift by
  the width of the type, which is undefined in C++, if the count is a multiple of a width that is that of the whole type; the
  model gives a value there, and nothing reaches it, since the semantics rotates at most 32 bits of a 64-bit word. C++ leaves the order of evaluation of call arguments open; the model evaluates them from left to right.
  A \<open>std::map\<close> of ranges is the list of its elements in order and an iterator a position in it. Buffers live in one
  flat memory with an allocation pointer, so that aliasing of buffers and segments is expressible.

  Interfaces are locales, each interpreted on the model's own definitions: \<open>rm_value\<close> states what a range map asks of its
  values (interpreted for \<open>RangeMapVoid\<close>, \<open>RangeMapValue\<close> in \<open>RangeMapOps\<close> and memory segments in \<open>SegmentValues\<close>); \<open>known_values\<close>
  what a policy does on known values (\<open>KnownPolicy\<close>, interpreted in \<open>PSKnown\<close>); \<open>safe_policy\<close> that the operations of
  a policy keep an invariant, and \<open>safe_block_policy\<close> the same for blocks with a count of instructions (\<open>SafetyRules\<close>, interpreted
  in \<open>Safety\<close>); \<open>policy_state\<close> which predicates the operations of the partially symbolic policy keep (\<open>Safety\<close>, interpreted for the
  states before and after the first instruction). The clients are proved once inside them.

  What the lemmas show. Integer helpers: their bits, and the word operation each one implements. Range maps: \<open>rm_ok\<close> (sorted, disjoint,
  non-empty ranges) is kept by all operations, no assertion fails, and the map as a function from values to contents changes as
  documented. Memory maps: \<open>mm_ok\<close> is kept; what is mapped where after insertion, protection and copies; reads return what
  writes stored; copies on write are isolated. Dictionaries: insertion and both lookups. Semantics: flags, comparisons and branches,
  stack, call and return, string loops, multiplication and division on known operands; every instruction keeps the machine
  state well formed and never runs into the assertions of the memory model, for all states that the public operations of a policy
  object reach with fewer than \<open>2 ^ 64\<close> instructions (\<open>Safety\<close>); symbolic values denote the machine's results under
  every valuation of their names (\<open>Soundness\<close>). Several properties state what the code does where it departs from its
  documentation or its intent.

  Bounds and fuel. Loops are structurally recursive or have a measure (the part of a range that is left, the bytes still to be copied, the
  statements of a block that are left), so nothing is claimed under the condition that it ends. Only \<open>Buffer::save\<close> has fuel: its loop
  does not end for a buffer of 8192 bytes or more, which is proved for all fuel. A program of the semantics is a block, whose length
  bounds the run; a repeated string instruction is executed as often as the property says.

  Not modelled: printing, hashing and file access everywhere (\<open>dump\<close>, \<open>load\<close>, \<open>create_from_file\<close>, \<open>mmap\<close>, the printing of states
  and exceptions), reference counts and destructors, the range specialisations for floating point, the non-const \<open>find_overlap\<close>
  and \<open>select_overlapping_ranges\<close>, which do not compile when they are used. The register dictionaries of AMD64, ARM and PowerPC are left out. The rest of ROSE builds and
  traverses syntax trees whose classes are generated by ROSETTA at build time, wraps third-party parsers and solvers, or reads
  and prints files; it is not modelled.
\<close>

text \<open>Property C39. The base-two logarithm of \<open>integerOps.h\<close> terminates and returns the
  least exponent whose power of two is at least the argument.\<close>

theorem log2_is_ceiling:
  fixes a :: "64 word"
  shows "\<exists>k \<le> 64. log2 a = of_nat k \<and> unat a \<le> 2 ^ k \<and> (k = 0 \<or> 2 ^ (k - 1) < unat a)"
  using log2_ceiling [of a] by simp

end
